(* ===== verification/Turl_Prelude.thy ===== *)
theory Turl_Prelude
  imports Main "HOL-Library.Word"
begin

text \<open>
  The prelude of the development: Go's value types as the components use them, Go's error
  values with \<open>errors.Is\<close>, the outcome of a call (a value, an error or a panic), the
  collections of simplification rules the component proofs draw on, and one interface that
  several components implement, the codec.

  Byte slices and Go strings are both \<open>string\<close> (a list of 8-bit characters). A
  \<open>uint64\<close> is a \<open>64 word\<close>. An \<open>int\<close>, \<open>int64\<close> or \<open>time.Duration\<close> is an \<open>int\<close>
  together with the two's complement wrap \<open>int64\<close>, applied at every operation that can
  overflow. A \<open>time.Time\<close> is an \<open>int\<close>, the nanoseconds since the Unix epoch.
\<close>

section \<open>Collections of rules\<close>

named_theorems example_eval \<open>what evaluates the checks of a configuration on the example configurations\<close>

section \<open>Types\<close>

type_synonym bytes = string

type_synonym uint64 = "64 word"

type_synonym duration = int

type_synonym time = int

definition int64 :: "int \<Rightarrow> int" where
  "int64 x = (x + 2 ^ 63) mod 2 ^ 64 - 2 ^ 63"

definition int64_range :: "int \<Rightarrow> bool" where
  "int64_range x \<longleftrightarrow> - (2 ^ 63) \<le> x \<and> x < 2 ^ 63"

definition tdiv :: "int \<Rightarrow> int \<Rightarrow> int" where
  \<comment> \<open>Go's integer division truncates towards zero.\<close>
  "tdiv a b = sgn a * sgn b * (\<bar>a\<bar> div \<bar>b\<bar>)"

text \<open>\<open>strconv.Itoa\<close>, and \<open>fmt.Sprintf("%s:%d", host, port)\<close>.\<close>

fun itoa_nat :: "nat \<Rightarrow> string" where
  "itoa_nat n = (if n < 10 then [char_of (n + 48)] else itoa_nat (n div 10) @ [char_of (n mod 10 + 48)])"

declare itoa_nat.simps [simp del]

definition Itoa :: "int \<Rightarrow> string" where
  "Itoa i = (if i < 0 then ''-'' @ itoa_nat (nat (- i)) else itoa_nat (nat i))"

definition host_port :: "string \<Rightarrow> int \<Rightarrow> string" where
  "host_port host port = host @ '':'' @ Itoa port"

section \<open>Errors\<close>

text \<open>
  The sentinel errors of the packages, the sentinels of the libraries the code compares
  against, \<open>fmt.Errorf("...%w", err)\<close> as \<open>Wrapped\<close>, and any other error a library returns
  as \<open>OtherError\<close>.
\<close>

datatype goerr =
    ErrInvalidInput | ErrBase58Overflow | ErrorInvalidCharacter
  | ErrCacheMiss | ErrInvalidCap
  | ErrStepTooSmall
  | ErrExpired
  | ErrRecordNotFound | ErrDuplicatedKey
  | RedisNil | ErrEntryNotFound
  | DeadlineExceeded | Canceled
  | ValidationError
  | OtherError string
  | Wrapped string goerr

fun Unwrap :: "goerr \<Rightarrow> goerr option" where
  "Unwrap ErrBase58Overflow = Some ErrInvalidInput"
| "Unwrap ErrorInvalidCharacter = Some ErrInvalidInput"
| "Unwrap (Wrapped m e) = Some e"
| "Unwrap _ = None"

fun errors_Is :: "goerr \<Rightarrow> goerr \<Rightarrow> bool" where
  "errors_Is (Wrapped m e) t \<longleftrightarrow> Wrapped m e = t \<or> errors_Is e t"
| "errors_Is e t \<longleftrightarrow> e = t \<or> Unwrap e = Some t"

section \<open>Outcomes of a call\<close>

datatype 'a outcome = Ret 'a | Err goerr | Panic string

text \<open>
  \<open>err_outcome\<close> reads a bare \<open>error\<close> result (nil or an error) as an outcome.
\<close>

definition err_outcome :: "goerr option \<Rightarrow> unit outcome" where
  "err_outcome e = (case e of None \<Rightarrow> Ret () | Some e \<Rightarrow> Err e)"

section \<open>The codec interface\<close>

text \<open>
  Two components turn values into bytes and back: the Base58 alphabet of the short links and
  the header of the cached values. What their clients rely on is one contract: decoding undoes
  encoding on the values in range.
\<close>

locale codec =
  fixes enc :: "'a \<Rightarrow> bytes"
    and dec :: "bytes \<Rightarrow> 'a option"
    and ok :: "'a \<Rightarrow> bool"
  assumes dec_enc: "ok x \<Longrightarrow> dec (enc x) = Some x"
begin

lemma enc_inj: "ok x \<Longrightarrow> ok y \<Longrightarrow> enc x = enc y \<longleftrightarrow> x = y"
  by (metis dec_enc option.inject)

lemma enc_inj_on: "inj_on enc {x. ok x}"
  by (rule inj_onI) (simp add: enc_inj)

end

section \<open>Lemmas\<close>

lemma int64_id [simp]: "int64_range x \<Longrightarrow> int64 x = x"
  by (simp add: int64_range_def int64_def)

lemma int64_in_range [simp]: "int64_range (int64 x)"
proof -
  have "0 \<le> (x + 2 ^ 63) mod 2 ^ 64" "(x + 2 ^ 63) mod 2 ^ 64 < 2 ^ 64"
    by simp_all
  then show ?thesis by (simp add: int64_range_def int64_def)
qed

lemma int64_word: "int64 x = sint (word_of_int x :: 64 word)"
proof -
  have "sint (word_of_int x :: 64 word) = signed_take_bit 63 x"
    by (simp add: sint_sbintrunc')
  also have "\<dots> = int64 x"
    by (simp add: signed_take_bit_eq_take_bit_shift take_bit_eq_mod int64_def)
  finally show ?thesis by simp
qed

lemma errors_Is_refl [simp]: "errors_Is e e"
  by (cases e) auto

lemma err_outcome_simps [simp]:
  "err_outcome None = Ret ()"
  "err_outcome (Some e) = Err e"
  "err_outcome x = Ret () \<longleftrightarrow> x = None"
  "err_outcome x = Err e \<longleftrightarrow> x = Some e"
  "err_outcome x \<noteq> Panic m"
  by (cases x; simp add: err_outcome_def)+

lemma find_SomeD: "find P xs = Some x \<Longrightarrow> x \<in> set xs \<and> P x"
  by (induction xs) (auto split: if_splits)

lemma find_append: "find P (xs @ ys) = (case find P xs of None \<Rightarrow> find P ys | Some x \<Rightarrow> Some x)"
  by (induction xs) auto

text \<open>The digits of a number give it back.\<close>

definition atoi_nat :: "string \<Rightarrow> nat" where
  "atoi_nat = foldl (\<lambda>n c. 10 * n + (of_char c - 48)) 0"

lemma atoi_itoa_nat: "atoi_nat (itoa_nat n) = n"
proof (induction n rule: itoa_nat.induct)
  case (1 n)
  have digit: "of_char (char_of (d + 48 :: nat)) - 48 = d" if "d < 10" for d using that by simp
  show ?case
  proof (cases "n < 10")
    case True
    then show ?thesis by (simp add: itoa_nat.simps [of n] atoi_nat_def)
  next
    case False
    have "atoi_nat (itoa_nat n) = 10 * atoi_nat (itoa_nat (n div 10)) + n mod 10"
      using False by (subst itoa_nat.simps) (simp add: atoi_nat_def)
    then show ?thesis using 1 False by simp
  qed
qed

lemma itoa_nat_inj: "itoa_nat m = itoa_nat n \<longleftrightarrow> m = n"
  using atoi_itoa_nat by metis

lemma itoa_nat_chars: "set (itoa_nat n) \<subseteq> set ''0123456789''"
proof (induction n rule: itoa_nat.induct)
  case (1 n)
  have "char_of (d + 48 :: nat) \<in> set ''0123456789''" if "d < 10" for d
  proof -
    have "d \<in> {0, 1, 2, 3, 4, 5, 6, 7, 8, 9}" using that by auto
    then show ?thesis by (elim insertE emptyE) (simp_all add: char_of_def bit_0)
  qed
  then show ?case using 1 by (subst itoa_nat.simps) auto
qed

lemma Itoa_inj: "0 \<le> i \<Longrightarrow> 0 \<le> j \<Longrightarrow> Itoa i = Itoa j \<longleftrightarrow> i = j"
  by (simp add: Itoa_def itoa_nat_inj eq_nat_nat_iff)

section \<open>Runs of labelled steps\<close>

text \<open>A run of a system whose steps carry labels, with the list of its labels.\<close>

primrec labelled_run :: "('a \<Rightarrow> 's \<Rightarrow> 's \<Rightarrow> bool) \<Rightarrow> 'a list \<Rightarrow> 's \<Rightarrow> 's \<Rightarrow> bool" where
  "labelled_run L [] x y \<longleftrightarrow> y = x"
| "labelled_run L (a # acts) x y \<longleftrightarrow> (\<exists>z. L a x z \<and> labelled_run L acts z y)"

lemma labelled_run_append: "labelled_run L (as @ bs) x y \<longleftrightarrow> (\<exists>z. labelled_run L as x z \<and> labelled_run L bs z y)"
  by (induction as arbitrary: x) auto

lemma run_has_labels:
  assumes "R\<^sup>*\<^sup>* x y" "\<And>x y. R x y \<Longrightarrow> \<exists>a. L a x y"
  shows "\<exists>acts. labelled_run L acts x y"
  using assms(1)
proof (induction rule: rtranclp_induct)
  case base
  show ?case by (intro exI [of _ "[]"]) simp
next
  case (step y z)
  then obtain acts where "labelled_run L acts x y" by blast
  moreover obtain a where "L a y z" using assms(2) [OF step(2)] by blast
  ultimately have "labelled_run L (acts @ [a]) x z" by (auto simp: labelled_run_append)
  then show ?case ..
qed

lemma labels_have_run: "labelled_run L acts x y \<Longrightarrow> (\<And>a x y. L a x y \<Longrightarrow> R x y) \<Longrightarrow> R\<^sup>*\<^sup>* x y"
  by (induction acts arbitrary: x) (simp, fastforce intro: converse_rtranclp_into_rtranclp)

text \<open>A simulation of single steps, under an invariant, is one of runs with the same labels.\<close>

lemma labelled_run_simulation:
  assumes "labelled_run L acts x y" "I x" "\<And>a x y. I x \<Longrightarrow> L a x y \<Longrightarrow> I y \<and> M a (f x) (f y)"
  shows "I y \<and> labelled_run M acts (f x) (f y)"
  using assms(1,2) by (induction acts arbitrary: x) (auto dest: assms(3))

end
