(* ===== verification/Base58.thy ===== *)
theory Base58
  imports Turl_Prelude
begin

text \<open>
  The package \<open>mapping\<close> (\<open>pkg/mapping/base58.go\<close>): the alphabet, the tables its \<open>init\<close>
  fills (\<open>indices\<close>, \<open>pow58\<close>), \<open>Base58Encode\<close> and \<open>Base58Decode\<close> with the in-place
  \<open>reverse\<close> and the recursive \<open>pow\<close>. The lemmas relate the loops to the mathematical
  notions (reversal, powers, positional value) and characterise both directions of the codec.
\<close>

section \<open>Definitions\<close>

definition carry :: nat where
  "carry = 58"

definition maxBytes :: nat where
  "maxBytes = 8"

definition chars :: bytes where
  "chars = ''123456789ABCDEFGHJKLMNPQRSTUVWXYZabcdefghijkmnopqrstuvwxyz''"

text \<open>
  \<open>init\<close>: the first loop fills the 256 entries with \<open>-1\<close>, the second writes the position of
  every character of the alphabet.
\<close>

definition indices :: "int list" where
  "indices = fold (\<lambda>(i, char) a. a[of_char char := int i]) (enumerate 0 chars) (replicate 256 (-1))"

text \<open>
  \<open>pow\<close> is called with the indices of \<open>pow58\<close>, which are not negative: its exponent is a
  \<open>nat\<close>. Its values are 64-bit and wrap.
\<close>

fun pow :: "64 word \<Rightarrow> nat \<Rightarrow> 64 word" where
  "pow x n =
     (if n = 0 then 1
      else if n mod 2 = 0 then pow (x * x) (n div 2)
      else x * pow x (n - 1))"

definition pow58 :: "64 word list" where
  "pow58 = map (pow (of_nat carry)) [0..<9]"

text \<open>\<open>reverse\<close>: two indices walk towards each other and swap what they point at.\<close>

function reverse_loop :: "'a list \<Rightarrow> int \<Rightarrow> int \<Rightarrow> 'a list" where
  "reverse_loop a left right =
     (if left < right
      then reverse_loop (a[nat left := a ! nat right, nat right := a ! nat left]) (left + 1) (right - 1)
      else a)"
  by pat_completeness auto
termination
  by (relation "measure (\<lambda>(a, left, right). nat (right - left))") auto

definition reverse :: "'a list \<Rightarrow> 'a list" where
  "reverse a = reverse_loop a 0 (int (length a) - 1)"

function encode_loop :: "uint64 \<Rightarrow> bytes \<Rightarrow> bytes" where
  "encode_loop num b =
     (if num > 0
      then encode_loop (num div of_nat carry) (b @ [chars ! unat (num mod of_nat carry)])
      else b)"
  by pat_completeness auto
termination
proof (relation "measure (\<lambda>(num, b). unat num)")
  fix num :: uint64 and b :: bytes
  assume "0 < num"
  then have "0 < unat num" by (simp add: unat_gt_0 word_gt_0)
  then have "unat num div 58 < unat num" by simp
  then show "((num div of_nat carry, b @ [chars ! unat (num mod of_nat carry)]), num, b)
      \<in> measure (\<lambda>(num, b). unat num)"
    by (simp add: carry_def unat_div)
qed simp

definition Base58Encode :: "uint64 \<Rightarrow> bytes" where
  "Base58Encode num = reverse (encode_loop num [])"

text \<open>
  The decoding loop at index \<open>i\<close> of the \<open>n\<close> bytes, with the sum so far. \<open>int\<close> and \<open>uint64\<close>
  are both 64 bits wide, so \<open>uint64(pow58[n-i-1] * pos)\<close> is a product of words.
\<close>

function decode_loop :: "bytes \<Rightarrow> nat \<Rightarrow> uint64 \<Rightarrow> uint64 outcome" where
  "decode_loop b i num =
     (if i < length b then
        (let pos = indices ! of_char (b ! i) in
         if pos = -1 then Err ErrorInvalidCharacter
         else decode_loop b (i + 1) (num + pow58 ! (length b - i - 1) * word_of_int pos))
      else Ret num)"
  by pat_completeness auto
termination
  by (relation "measure (\<lambda>(b, i, num). length b - i)") auto

definition Base58Decode :: "bytes \<Rightarrow> uint64 outcome" where
  "Base58Decode b =
     (if length b > maxBytes then Err ErrBase58Overflow else decode_loop b 0 0)"

declare pow.simps [simp del] reverse_loop.simps [simp del]
  encode_loop.simps [simp del] decode_loop.simps [simp del]

section \<open>The loops and what they compute\<close>

subsection \<open>Powers and the two tables\<close>

lemma pow_eq_power: "pow x n = x ^ n"
proof (induction x n rule: pow.induct)
  case (1 x n)
  consider "n = 0" | "n \<noteq> 0" "n mod 2 = 0" | "n \<noteq> 0" "n mod 2 \<noteq> 0" by blast
  then show ?case
  proof cases
    case 2
    then have "pow x n = (x * x) ^ (n div 2)"
      using "1.IH"(1) by (subst pow.simps) simp
    also have "\<dots> = x ^ (2 * (n div 2))" by (simp add: power_mult power2_eq_square)
    finally show ?thesis using 2 by (simp add: mod_0_imp_dvd)
  next
    case 3
    then have "pow x n = x * x ^ (n - 1)"
      using "1.IH"(2) by (subst pow.simps) simp
    then show ?thesis using 3 by (cases n) simp_all
  qed (subst pow.simps, simp)
qed

lemma pow58_nth: "k < 9 \<Longrightarrow> pow58 ! k = 58 ^ k"
  by (simp add: pow58_def carry_def pow_eq_power)

lemma chars_facts [simp]: "length chars = 58" "distinct chars" "''1'' ! 0 = chars ! 0"
  by (simp_all add: chars_def)

abbreviation fill_indices :: "nat \<Rightarrow> bytes \<Rightarrow> int list \<Rightarrow> int list" where
  "fill_indices k cs \<equiv> fold (\<lambda>(i, char) a. a[of_char char := int i]) (enumerate k cs)"

lemma fill_indices_other:
  "c \<notin> set cs \<Longrightarrow> fill_indices k cs a ! of_char c = a ! of_char c"
  by (induction cs arbitrary: k a) auto

lemma fill_indices_nth:
  "distinct cs \<Longrightarrow> length a = 256 \<Longrightarrow> i < length cs \<Longrightarrow>
    fill_indices k cs a ! of_char (cs ! i) = int (k + i)"
proof (induction cs arbitrary: k a i)
  case (Cons c cs)
  show ?case
  proof (cases i)
    case 0
    then show ?thesis using Cons.prems by (simp add: fill_indices_other)
  next
    case (Suc j)
    then show ?thesis using Cons.prems by (simp add: Cons.IH)
  qed
qed simp

lemma indices_nth [simp]: "i < 58 \<Longrightarrow> indices ! of_char (chars ! i) = int i"
  unfolding indices_def using fill_indices_nth [of chars "replicate 256 (-1)" i 0] by simp

lemma indices_other: "c \<notin> set chars \<Longrightarrow> indices ! of_char c = -1"
  unfolding indices_def by (simp add: fill_indices_other)

lemma indices_neg_iff: "indices ! of_char c = -1 \<longleftrightarrow> c \<notin> set chars"
  by (auto simp: indices_other in_set_conv_nth)

subsection \<open>Reversal\<close>

lemma reverse_loop_nth:
  assumes "0 \<le> l" "l + r = int (length a) - 1" "i < length a"
  shows "length (reverse_loop a l r) = length a \<and>
    reverse_loop a l r ! i =
      (if l \<le> int i \<and> int i \<le> r then a ! (length a - 1 - i) else a ! i)"
  using assms
proof (induction a l r rule: reverse_loop.induct)
  case (1 a l r)
  show ?case
  proof (cases "l < r")
    case True
    let ?a = "a[nat l := a ! nat r, nat r := a ! nat l]"
    have IH: "length (reverse_loop ?a (l + 1) (r - 1)) = length ?a \<and>
        reverse_loop ?a (l + 1) (r - 1) ! i =
        (if l + 1 \<le> int i \<and> int i \<le> r - 1 then ?a ! (length ?a - 1 - i) else ?a ! i)"
      using True "1.prems" by (intro "1.IH") auto
    have step: "reverse_loop a l r = reverse_loop ?a (l + 1) (r - 1)"
      using True by (simp add: reverse_loop.simps [of a l r])
    have upd: "?a ! j = (if j = nat r then a ! nat l else if j = nat l then a ! nat r else a ! j)"
      if "j < length a" for j
      using that "1.prems" True by (simp add: nth_list_update)
    consider "int i = l" | "int i = r" | "l < int i \<and> int i < r" | "int i < l \<or> r < int i"
      by linarith
    then show ?thesis
    proof cases
      case 1
      then have "i = nat l" "length a - 1 - i = nat r" using "1.prems" by linarith+
      then show ?thesis using IH step upd [of i] True 1 "1.prems" by simp
    next
      case 2
      then have "i = nat r" "length a - 1 - i = nat l" using "1.prems" by linarith+
      then show ?thesis using IH step upd [of i] True 2 "1.prems" by simp
    next
      case 3
      then have "length a - 1 - i \<noteq> nat l" "length a - 1 - i \<noteq> nat r" "length a - 1 - i < length a"
        using "1.prems" by linarith+
      then show ?thesis using IH step upd [of "length a - 1 - i"] 3 by simp
    next
      case 4
      then have "i \<noteq> nat l" "i \<noteq> nat r" using True "1.prems" by linarith+
      then show ?thesis using IH step upd [of i] 4 "1.prems" by auto
    qed
  next
    case False
    then have "l \<le> int i \<and> int i \<le> r \<Longrightarrow> length a - 1 - i = i" using "1.prems" by linarith
    then show ?thesis using False by (subst (1 2) reverse_loop.simps) auto
  qed
qed

lemma reverse_eq_rev: "reverse a = rev a"
proof (cases "a = []")
  case True
  then show ?thesis by (simp add: reverse_def reverse_loop.simps)
next
  case False
  then have len: "length (reverse a) = length a"
    using reverse_loop_nth [of 0 "int (length a) - 1" a 0] by (simp add: reverse_def)
  show ?thesis
  proof (rule nth_equalityI)
    fix i assume "i < length (reverse a)"
    then have "i < length a" using len by simp
    then show "reverse a ! i = rev a ! i"
      using reverse_loop_nth [of 0 "int (length a) - 1" a i] by (simp add: reverse_def rev_nth)
  qed (simp add: len)
qed

subsection \<open>Digits and positional value\<close>

text \<open>
  The reference for both directions: the little-endian digits of a number, the string of a
  number, and the value of a string of characters.
\<close>

fun digits58 :: "nat \<Rightarrow> nat list" where
  "digits58 n = (if n = 0 then [] else n mod 58 # digits58 (n div 58))"

declare digits58.simps [simp del]

definition string58 :: "nat \<Rightarrow> bytes" where
  "string58 n = map ((!) chars) (rev (digits58 n))"

primrec value58 :: "bytes \<Rightarrow> nat" where
  "value58 [] = 0"
| "value58 (c # cs) = nat (indices ! of_char c) * 58 ^ length cs + value58 cs"

lemma digits58_0 [simp]: "digits58 0 = []"
  by (simp add: digits58.simps)

lemma digits58_step: "0 < m \<or> 0 < d \<Longrightarrow> d < 58 \<Longrightarrow> digits58 (58 * m + d) = d # digits58 m"
  by (subst digits58.simps) auto

lemma string58_0 [simp]: "string58 0 = []"
  by (simp add: string58_def)

lemma string58_step:
  "0 < m \<or> 0 < d \<Longrightarrow> d < 58 \<Longrightarrow> string58 (58 * m + d) = string58 m @ [chars ! d]"
  by (simp add: string58_def digits58_step)

lemma nat58_cases:
  fixes n :: nat
  obtains "n = 0" | m d :: nat where "n = 58 * m + d" "d < 58" "0 < m \<or> 0 < d" "m < n"
proof (cases "n = 0")
  case False
  have "n = 58 * (n div 58) + n mod 58" by simp
  moreover have "n mod 58 < 58" by simp
  moreover have "0 < n div 58 \<or> 0 < n mod 58" using False by presburger
  moreover have "n div 58 < n" using False by simp
  ultimately show ?thesis by (rule that(2))
qed (rule that(1))

lemma string58_induct [case_names zero step]:
  fixes n :: nat
  assumes "P 0"
    and "\<And>m d. P m \<Longrightarrow> d < 58 \<Longrightarrow> 0 < m \<or> 0 < d \<Longrightarrow> P (58 * m + d)"
  shows "P n"
proof (induction n rule: less_induct)
  case (less n)
  show ?case by (rule nat58_cases [of n]) (use assms less in auto)
qed

lemma value58_snoc: "value58 (b @ [c]) = 58 * value58 b + nat (indices ! of_char c)"
  by (induction b) (auto simp: algebra_simps)

lemma set_string58: "set (string58 n) \<subseteq> set chars"
  by (induction n rule: string58_induct) (auto simp: string58_step)

lemma value58_string58 [simp]: "value58 (string58 n) = n"
  by (induction n rule: string58_induct) (auto simp: string58_step value58_snoc)

lemma length_string58: "length (string58 n) \<le> k \<longleftrightarrow> n < 58 ^ k"
proof (induction k arbitrary: n)
  case 0
  show ?case by (rule nat58_cases [of n]) (auto simp: string58_step)
next
  case (Suc k)
  show ?case by (rule nat58_cases [of n]) (auto simp: string58_step Suc.IH)
qed

lemma value58_bound: "value58 b < 58 ^ length b" if "set b \<subseteq> set chars"
  using that
proof (induction b rule: rev_induct)
  case (snoc c b)
  then obtain i where "c = chars ! i" "i < 58" by (auto simp: in_set_conv_nth)
  moreover have "value58 b < 58 ^ length b" using snoc by simp
  ultimately show ?case by (simp add: value58_snoc)
qed simp

text \<open>Writing the value of a string gives the string without its leading zeros.\<close>

lemma string58_value58:
  "set b \<subseteq> set chars \<Longrightarrow> string58 (value58 b) = dropWhile (\<lambda>c. c = CHR ''1'') b"
proof (induction b rule: rev_induct)
  case (snoc c b)
  then obtain i where i: "c = chars ! i" "i < 58" by (auto simp: in_set_conv_nth)
  have one: "chars ! 0 = CHR ''1''" by (simp add: chars_def)
  have IH: "string58 (value58 b) = dropWhile (\<lambda>c. c = CHR ''1'') b" using snoc by simp
  have v: "value58 (b @ [c]) = 58 * value58 b + i" using i by (simp add: value58_snoc)
  show ?case
  proof (cases "value58 b = 0")
    case True
    then have "dropWhile (\<lambda>c. c = CHR ''1'') b = []" using IH by simp
    then have ones: "\<forall>x\<in>set b. x = CHR ''1''" by simp
    have "c = CHR ''1'' \<longleftrightarrow> i = 0"
      using i one nth_eq_iff_index_eq [of chars i 0] by auto
    then show ?thesis
      using True v ones i string58_step [of 0 i] by (auto simp: dropWhile_append)
  next
    case False
    then have "string58 (value58 b) \<noteq> []"
      using value58_string58 [of "value58 b"] by (metis value58.simps(1))
    then have "\<not> (\<forall>x\<in>set b. x = CHR ''1'')" using IH by (simp add: dropWhile_eq_Nil_conv)
    then show ?thesis using False v i IH by (auto simp: string58_step dropWhile_append)
  qed
qed simp

section \<open>Encoding and decoding\<close>

lemma encode_loop_eq: "encode_loop num b = b @ rev (string58 (unat num))"
proof (induction num b rule: encode_loop.induct)
  case (1 num b)
  show ?case
  proof (cases "num > 0")
    case True
    have eq: "unat num = 58 * unat (num div 58) + unat (num mod 58)"
      by (simp add: unat_div unat_mod)
    have "unat num \<noteq> 0" using True by (simp add: unat_eq_0 word_gt_0)
    then have "0 < unat (num div 58) \<or> 0 < unat (num mod 58)" using eq by linarith
    moreover have "unat (num mod 58) < 58" by (simp add: unat_mod)
    ultimately have "string58 (unat num) = string58 (unat (num div 58)) @ [chars ! unat (num mod 58)]"
      by (subst eq) (rule string58_step)
    then show ?thesis
      using True 1 by (subst encode_loop.simps) (simp add: carry_def)
  next
    case False
    then have "num = 0" by (simp add: word_gt_0)
    then show ?thesis by (subst encode_loop.simps) simp
  qed
qed

lemma Base58Encode_eq: "Base58Encode num = string58 (unat num)"
  by (simp add: Base58Encode_def reverse_eq_rev encode_loop_eq)

lemma decode_loop_eq:
  "length b \<le> 8 \<Longrightarrow> i \<le> length b \<Longrightarrow>
    decode_loop b i num =
      (if set (drop i b) \<subseteq> set chars then Ret (num + of_nat (value58 (drop i b)))
       else Err ErrorInvalidCharacter)"
proof (induction b i num rule: decode_loop.induct)
  case (1 b i num)
  show ?case
  proof (cases "i < length b")
    case True
    then have d: "drop i b = b ! i # drop (i + 1) b" by (simp add: Cons_nth_drop_Suc)
    show ?thesis
    proof (cases "b ! i \<in> set chars")
      case valid: True
      then obtain j where "b ! i = chars ! j" "j < 58" by (metis chars_facts(1) in_set_conv_nth)
      then show ?thesis
        using True 1 d by (subst decode_loop.simps) (simp add: pow58_nth add.assoc mult.commute)
    qed (use True d in \<open>simp add: decode_loop.simps [of b i num] indices_other\<close>)
  next
    case False
    then show ?thesis using "1.prems" by (subst decode_loop.simps) simp
  qed
qed

lemma Base58Decode_eq:
  "Base58Decode b =
    (if length b > 8 then Err ErrBase58Overflow
     else if set b \<subseteq> set chars then Ret (of_nat (value58 b))
     else Err ErrorInvalidCharacter)"
  by (simp add: Base58Decode_def maxBytes_def decode_loop_eq)

lemma value58_fits: "set b \<subseteq> set chars \<Longrightarrow> length b \<le> 8 \<Longrightarrow> value58 b < 58 ^ 8"
  by (rule less_le_trans [OF value58_bound power_increasing]) auto

lemma Base58Decode_Ret:
  "Base58Decode b = Ret n \<longleftrightarrow> length b \<le> 8 \<and> set b \<subseteq> set chars \<and> unat n = value58 b"
proof -
  have "unat (of_nat (value58 b) :: uint64) = value58 b" if "set b \<subseteq> set chars" "length b \<le> 8"
    using value58_fits [OF that] by (simp add: unat_of_nat)
  then show ?thesis by (auto simp: Base58Decode_eq intro: word_unat_eq_iff [THEN iffD2])
qed

lemma Base58Decode_string58: "n < 58 ^ 8 \<Longrightarrow> Base58Decode (string58 n) = Ret (of_nat n)"
  using length_string58 [of n 8] set_string58 [of n] by (simp add: Base58Decode_eq)

interpretation short_codec: codec Base58Encode
  "\<lambda>b. case Base58Decode b of Ret n \<Rightarrow> Some n | _ \<Rightarrow> None" "\<lambda>n. unat n < 58 ^ 8"
  by unfold_locales (simp add: Base58Encode_eq Base58Decode_string58)

section \<open>Properties\<close>

text \<open>
  C13. Round trip of the short codes: decoding an encoded identifier returns that identifier
  exactly when it is below \<open>58^8\<close>; an identifier of nine or more digits encodes to a string
  that \<open>Base58Decode\<close> refuses as an overflow, for every \<open>uint64\<close>.
\<close>

theorem Base58_roundtrip:
  "Base58Decode (Base58Encode n) = (if unat n < 58 ^ 8 then Ret n else Err ErrBase58Overflow)"
  using length_string58 [of "unat n" 8] set_string58 [of "unat n"]
  by (auto simp: Base58Encode_eq Base58Decode_eq)

text \<open>
  C14. The codes that denote the same link: when a string decodes to \<open>n\<close>, encoding \<open>n\<close> gives
  the string without its leading \<open>1\<close> characters, so two accepted strings denote the same
  identifier exactly when they differ in leading \<open>1\<close>s only.
\<close>

theorem Base58Decode_aliases:
  assumes "Base58Decode a = Ret m" "Base58Decode b = Ret n"
  shows "Base58Encode n = dropWhile (\<lambda>c. c = CHR ''1'') b \<and>
    (m = n \<longleftrightarrow> dropWhile (\<lambda>c. c = CHR ''1'') a = dropWhile (\<lambda>c. c = CHR ''1'') b)"
proof -
  have enc: "Base58Encode k = dropWhile (\<lambda>c. c = CHR ''1'') s" and lt: "unat k < 58 ^ 8"
    if "Base58Decode s = Ret k" for s k
    using that value58_fits [of s] by (auto simp: Base58Decode_Ret Base58Encode_eq string58_value58)
  have "m = n \<longleftrightarrow> dropWhile (\<lambda>c. c = CHR ''1'') a = dropWhile (\<lambda>c. c = CHR ''1'') b"
    using short_codec.enc_inj [of m n] enc lt assms by metis
  then show ?thesis using enc [OF assms(2)] by blast
qed

theorem Base58Decode_aliases_witness:
  "Base58Decode ''1124rgcX'' = Ret 700000000 \<and> Base58Decode ''24rgcX'' = Ret 700000000 \<and>
    Base58Encode 700000000 = ''24rgcX''"
proof -
  have a: "Base58Decode ''1124rgcX'' = Ret 700000000" and b: "Base58Decode ''24rgcX'' = Ret 700000000"
    by code_simp+
  show ?thesis using a b Base58Decode_aliases [OF a b] by simp
qed

text \<open>
  \<open>Base58Decode\<close> is total and its three results are exact: more than eight bytes is an
  overflow, a byte outside the alphabet is an invalid character, and otherwise the result is the
  positional value of the string in base 58, with no wrap-around of the 64-bit sum. Both errors
  are \<open>ErrInvalidInput\<close> to \<open>errors.Is\<close>.
\<close>

lemma Base58Decode_cases:
  "Base58Decode b =
    (if length b > 8 then Err ErrBase58Overflow
     else if \<exists>c\<in>set b. c \<notin> set chars then Err ErrorInvalidCharacter
     else Ret (of_nat (value58 b))) \<and>
   (Base58Decode b = Ret n \<longrightarrow> unat n = value58 b \<and> unat n < 58 ^ 8) \<and>
   (Base58Decode b = Err e \<longrightarrow> errors_Is e ErrInvalidInput)"
  using value58_fits [of b]
  by (auto simp: Base58Decode_eq Base58Decode_Ret unat_of_nat split: if_splits)

lemma Base58Decode_cases_witness:
  "Base58Decode ''BukQL'' = Ret 123456789 \<and> unat (123456789 :: uint64) = value58 ''BukQL'' \<and>
   Base58Decode ''12345l'' = Err ErrorInvalidCharacter \<and> errors_Is ErrorInvalidCharacter ErrInvalidInput"
proof -
  have a: "Base58Decode ''BukQL'' = Ret 123456789" and b: "Base58Decode ''12345l'' = Err ErrorInvalidCharacter"
    by code_simp+
  show ?thesis
    using a b Base58Decode_cases [of "''BukQL''" 123456789 ErrInvalidInput]
      Base58Decode_cases [of "''12345l''" 0 ErrorInvalidCharacter] by simp
qed

text \<open>
  The length of a code: an identifier has a code of at most \<open>k\<close> characters exactly when it is
  below \<open>58^k\<close>, and every character is of the alphabet. Six to eight characters (what the
  redirect endpoint accepts) are the identifiers from \<open>58^5\<close> to below \<open>58^8\<close>.
\<close>

lemma Base58Encode_length:
  "(length (Base58Encode n) \<le> k \<longleftrightarrow> unat n < 58 ^ k) \<and>
   set (Base58Encode n) \<subseteq> set chars \<and>
   (6 \<le> length (Base58Encode n) \<and> length (Base58Encode n) \<le> 8 \<longleftrightarrow>
     656356768 \<le> unat n \<and> unat n < 128063081718016)"
proof -
  have "6 \<le> length (Base58Encode n) \<longleftrightarrow> \<not> length (Base58Encode n) \<le> 5" by linarith
  then show ?thesis
    using length_string58 [of "unat n" 5] length_string58 [of "unat n" 8]
    by (auto simp: Base58Encode_eq length_string58 set_string58)
qed

end
