(* ===== verification/Cache_Value.thy ===== *)
theory Cache_Value
  imports Turl_Prelude
begin

text \<open>
  The format of a cached link (\<open>encodeCacheValue\<close>, \<open>decodeCacheValue\<close> of
  \<open>app/turl/service.go\<close>): eight bytes of big-endian expiry before the URL; and the two
  functions of time beside it, \<open>cacheTTL\<close> and \<open>isExpired\<close>. The clock is read by the code with
  \<open>time.Now()\<close>; every function that reads it takes the reading as its argument \<open>now\<close>.
\<close>

section \<open>Definitions\<close>

definition cacheValuePrefix :: nat where
  "cacheValuePrefix = 8"

text \<open>
  \<open>binary.BigEndian.PutUint64\<close> and \<open>Uint64\<close> of the standard library: byte \<open>j\<close> from the right is
  the value shifted right by \<open>8 * j\<close> bits, cut to eight bits.
\<close>

definition PutUint64 :: "uint64 \<Rightarrow> bytes" where
  "PutUint64 v = map (\<lambda>j. char_of (unat v div 256 ^ j)) (rev [0..<8])"

definition bytes_value :: "bytes \<Rightarrow> nat" where
  "bytes_value b = foldl (\<lambda>a c. 256 * a + of_char c) 0 b"

definition Uint64 :: "bytes \<Rightarrow> uint64" where
  "Uint64 b = of_nat (bytes_value b)"

text \<open>\<open>Time.UnixNano\<close> is computed in 64-bit arithmetic; \<open>time.Unix(0, exp)\<close> reads it back.\<close>

definition UnixNano :: "time \<Rightarrow> uint64" where
  "UnixNano t = word_of_int t"

definition encodeCacheValue :: "bytes \<Rightarrow> time option \<Rightarrow> bytes" where
  "encodeCacheValue long expiresAt =
     (let exp = (case expiresAt of None \<Rightarrow> 0 | Some t \<Rightarrow> UnixNano t)
      in PutUint64 exp @ long)"

definition decodeCacheValue :: "bytes \<Rightarrow> (bytes \<times> time option) option" where
  "decodeCacheValue b =
     (if length b < cacheValuePrefix then None
      else
        (let exp = sint (Uint64 (take cacheValuePrefix b));
             long = drop cacheValuePrefix b
         in if exp = 0 then Some (long, None) else Some (long, Some exp)))"

text \<open>\<open>time.Until\<close>: the difference, saturated at the ends of \<open>time.Duration\<close>.\<close>

definition Until :: "time \<Rightarrow> time \<Rightarrow> duration" where
  "Until t now = max (- (2 ^ 63)) (min (2 ^ 63 - 1) (t - now))"

definition cacheTTL :: "duration \<Rightarrow> time option \<Rightarrow> time \<Rightarrow> duration" where
  "cacheTTL configTTL expiresAt now =
     (case expiresAt of
        None \<Rightarrow> configTTL
      | Some t \<Rightarrow> (let remaining = Until t now in if remaining < configTTL then remaining else configTTL))"

definition isExpired :: "time option \<Rightarrow> time \<Rightarrow> bool" where
  "isExpired expiresAt now \<longleftrightarrow> (case expiresAt of None \<Rightarrow> False | Some t \<Rightarrow> \<not> t > now)"

text \<open>The expiries the header can carry: never, or a non-zero 64-bit count of nanoseconds.\<close>

definition expiry_ok :: "time option \<Rightarrow> bool" where
  "expiry_ok e \<longleftrightarrow> (case e of None \<Rightarrow> True | Some t \<Rightarrow> int64_range t \<and> t \<noteq> 0)"

section \<open>Big-endian bytes\<close>

lemma bytes_value_Cons: "bytes_value (c # b) = of_char c * 256 ^ length b + bytes_value b"
proof -
  have "foldl (\<lambda>a c. 256 * a + of_char c) x b = x * 256 ^ length b + bytes_value b" for x
    by (induction b rule: rev_induct) (auto simp: bytes_value_def algebra_simps)
  from this [of "of_char c"] show ?thesis by (simp add: bytes_value_def)
qed

lemma bytes_value_Nil [simp]: "bytes_value [] = 0"
  by (simp add: bytes_value_def)

lemma bytes_value_bound: "bytes_value b < 256 ^ length b"
proof (induction b)
  case (Cons c b)
  have "(of_char c :: nat) + 1 \<le> 256" using nat_of_char_less_256 [of c] by linarith
  then have le: "((of_char c :: nat) + 1) * 256 ^ length b \<le> 256 * 256 ^ length b"
    by (rule mult_right_mono) simp
  have "bytes_value (c # b) < ((of_char c :: nat) + 1) * 256 ^ length b"
    using Cons.IH by (simp add: bytes_value_Cons)
  also note le
  finally show ?case by simp
qed simp

lemma bytes_value_digits:
  "bytes_value (map (\<lambda>j. char_of (n div 256 ^ j)) (rev [0..<k])) = n mod 256 ^ k"
proof (induction k)
  case (Suc k)
  then show ?case
    by (simp add: bytes_value_Cons mod_mult2_eq mult.commute [of 256] add.commute)
qed simp

lemma digits_bytes_value:
  "map (\<lambda>j. char_of (bytes_value b div 256 ^ j)) (rev [0..<length b]) = b"
proof (induction b)
  case (Cons c b)
  have mod: "(m * 256 ^ length b + n) div 256 ^ j mod 256 = n div 256 ^ j mod 256"
    if lt: "j < length b" for j m n :: nat
  proof -
    obtain i where i: "length b = j + Suc i" using lt less_iff_Suc_add [of j "length b"] by auto
    have "m * 256 ^ length b + n = n + 256 ^ j * (256 * (m * 256 ^ i))"
      by (simp add: i power_add algebra_simps)
    then have "(m * 256 ^ length b + n) div 256 ^ j = n div 256 ^ j + 256 * (m * 256 ^ i)"
      by (simp only: div_mult_self2 [of "256 ^ j"]) simp
    then show ?thesis by (simp only: mod_mult_self2)
  qed
  have cong: "char_of (x :: nat) = char_of y" if "x mod 256 = y mod 256" for x y
    using that by (metis char_of_mod_256)
  have "map (\<lambda>j. char_of (bytes_value (c # b) div 256 ^ j)) (rev [0..<length b]) =
      map (\<lambda>j. char_of (bytes_value b div 256 ^ j)) (rev [0..<length b])"
    by (rule map_cong) (auto simp: bytes_value_Cons intro!: cong mod)
  then show ?case
    using Cons.IH bytes_value_bound [of b] by (simp add: bytes_value_Cons)
qed simp

lemma length_PutUint64 [simp]: "length (PutUint64 v) = 8"
  by (simp add: PutUint64_def)

lemma Uint64_PutUint64 [simp]: "Uint64 (PutUint64 v) = v"
proof -
  have "unat v < 256 ^ 8" using unsigned_less [of v, where 'a = nat] by simp
  then show ?thesis by (simp add: Uint64_def PutUint64_def bytes_value_digits)
qed

lemma PutUint64_Uint64: "length b = 8 \<Longrightarrow> PutUint64 (Uint64 b) = b"
  using bytes_value_bound [of b] digits_bytes_value [of b]
  by (simp add: Uint64_def PutUint64_def unat_of_nat)

lemma sint_UnixNano: "int64_range t \<Longrightarrow> sint (UnixNano t) = t"
  using int64_word [of t] by (simp add: UnixNano_def)

section \<open>The header\<close>

lemma decode_encode:
  "decodeCacheValue (encodeCacheValue long e) =
    Some (long, case e of None \<Rightarrow> None | Some t \<Rightarrow> if int64 t = 0 then None else Some (int64 t))"
  by (simp add: decodeCacheValue_def encodeCacheValue_def cacheValuePrefix_def Let_def UnixNano_def
      int64_word split: option.split)

lemma decode_encode_ok: "expiry_ok e \<Longrightarrow> decodeCacheValue (encodeCacheValue long e) = Some (long, e)"
  by (auto simp: decode_encode expiry_ok_def split: option.splits)

interpretation value_codec: codec "\<lambda>(long, e). encodeCacheValue long e" decodeCacheValue
  "\<lambda>(long, e). expiry_ok e"
  by unfold_locales (auto simp: decode_encode_ok)

section \<open>Properties\<close>

text \<open>
  C15. A cached value gives back what was stored: the URL always, and the expiry whenever its
  nanosecond count fits in 64 bits and is not zero (\<open>expiry_ok\<close>); and a value is malformed
  exactly when it is shorter than the header.
\<close>

theorem cache_value_roundtrip:
  "(expiry_ok e \<longrightarrow> decodeCacheValue (encodeCacheValue long e) = Some (long, e)) \<and>
   (\<exists>e'. decodeCacheValue (encodeCacheValue long e) = Some (long, e')) \<and>
   (decodeCacheValue b = None \<longleftrightarrow> length b < 8)"
proof -
  have "decodeCacheValue b = None \<longleftrightarrow> length b < 8"
    by (simp add: decodeCacheValue_def cacheValuePrefix_def Let_def)
  then show ?thesis by (simp add: decode_encode_ok) (simp add: decode_encode)
qed

theorem cache_value_roundtrip_witness:
  "expiry_ok (Some 1720451186434000000) \<and>
   decodeCacheValue (encodeCacheValue ''https://google.com'' (Some 1720451186434000000)) =
     Some (''https://google.com'', Some 1720451186434000000)"
proof -
  have "expiry_ok (Some 1720451186434000000)" by (simp add: expiry_ok_def int64_range_def)
  then show ?thesis
    using cache_value_roundtrip [of "Some 1720451186434000000" "''https://google.com''" "[]"] by simp
qed

text \<open>
  The other half: every byte string of at least eight bytes is the encoding of what it decodes
  to, and what it decodes to is an expiry the header can carry. So distinct cached values denote
  distinct links.
\<close>

lemma cache_value_decode_inv:
  assumes "decodeCacheValue b = Some (long, e)"
  shows "encodeCacheValue long e = b \<and> expiry_ok e"
proof -
  have len: "length (take 8 b) = 8" and long: "long = drop 8 b"
    and e: "e = (if sint (Uint64 (take 8 b)) = 0 then None else Some (sint (Uint64 (take 8 b))))"
    using assms by (auto simp: decodeCacheValue_def cacheValuePrefix_def Let_def split: if_splits)
  have "(case e of None \<Rightarrow> 0 | Some t \<Rightarrow> UnixNano t) = Uint64 (take 8 b)"
    by (simp add: e UnixNano_def signed_eq_0_iff)
  then have "encodeCacheValue long e = b"
    using len by (simp add: encodeCacheValue_def long PutUint64_Uint64)
  moreover have "int64_range (sint (w :: 64 word))" for w
    using sint_ge [of w] sint_lt [of w] by (simp add: int64_range_def)
  ultimately show ?thesis by (simp add: e expiry_ok_def)
qed

lemma cache_value_decode_inv_witness:
  "decodeCacheValue (PutUint64 7 @ ''u'') = Some (''u'', Some 7) \<and>
   encodeCacheValue ''u'' (Some 7) = PutUint64 7 @ ''u'' \<and> expiry_ok (Some 7)"
proof -
  have "decodeCacheValue (PutUint64 7 @ ''u'') = Some (''u'', Some 7)"
    by (simp add: decodeCacheValue_def cacheValuePrefix_def)
  then show ?thesis using cache_value_decode_inv [of "PutUint64 7 @ ''u''" "''u''" "Some 7"] by simp
qed

text \<open>
  \<open>cacheTTL\<close> never exceeds the configured lifetime nor the remaining life of the link, and
  for a positive configured lifetime it is positive exactly when \<open>isExpired\<close> is false at the
  same instant: the lifetime handed to the cache for a link that has expired is not positive.
\<close>

lemma cacheTTL_bounds:
  assumes "0 < configTTL" "configTTL < 2 ^ 63"
  shows "cacheTTL configTTL e now \<le> configTTL \<and>
    (\<forall>t. e = Some t \<and> now < t \<longrightarrow> cacheTTL configTTL e now \<le> t - now) \<and>
    (0 < cacheTTL configTTL e now \<longleftrightarrow> \<not> isExpired e now)"
  using assms
  by (auto simp: cacheTTL_def isExpired_def Until_def Let_def max_def min_def split: option.splits)

lemma cacheTTL_bounds_witness:
  "cacheTTL 600 (Some 1000) 900 \<le> 600 \<and> cacheTTL 600 (Some 1000) 900 \<le> 100 \<and>
   0 < cacheTTL 600 (Some 1000) 900 \<and> \<not> 0 < cacheTTL 600 (Some 1000) 1000"
  using cacheTTL_bounds [of 600 "Some 1000" 900] cacheTTL_bounds [of 600 "Some 1000" 1000]
  by (simp add: isExpired_def)

end
