(* ===== verification/Config.thy ===== *)
theory Config
  imports Complex_Main Turl_Prelude
begin

text \<open>
  The package \<open>configs\<close>: the configuration records, \<open>ServerConfig.Validate\<close>,
  \<open>ObservabilityConfig.WithDefaults\<close>, the table of log levels and \<open>ReadFile\<close>. A Go pointer is an
  \<open>option\<close>; reading through nil panics. A \<open>float64\<close> of the configuration is a rational.
  The struct validation of go-playground/validator is the parameter
  \<open>Struct\<close>, its verdict on a configuration (\<open>tag_check\<close> is the one the tags ask for); what the code relies on is \<open>required_pointers\<close>, the
  documented meaning of the tag \<open>required\<close> on a pointer field. koanf is a parameter too: the locale
  \<open>koanf_reader\<close> says that values loaded later override values loaded before.
\<close>

section \<open>Records\<close>

record RedisConfig =
  redis_Addr :: "string list"
  redis_DialTimeout :: duration
  redis_MaxConn :: int
  redis_TTL :: duration

record LocalCacheConfig =
  local_TTL :: duration
  local_Capacity :: int
  local_MaxMemory :: int

record CacheConfig =
  cache_Redis :: "RedisConfig option"
  cache_LocalCache :: "LocalCacheConfig option"

record TDDLConfig =
  tddl_Step :: uint64
  tddl_SeqName :: string
  tddl_StartNum :: uint64

record MySQLConfig =
  mysql_DSN :: string
  mysql_MaxConn :: int

record FileConfig =
  file_Filepath :: string
  file_MaxAge :: int
  file_MaxBackups :: int
  file_Compress :: bool
  file_MaxSize :: int

record LogConfig =
  log_Writers :: "string list"
  log_FileConfig :: FileConfig
  log_Format :: string
  log_AddSource :: bool
  log_Level :: string

text \<open>\<open>json.MarshalIndent\<close> is the parameter \<open>marshal\<close>; its error is dropped, with no bytes then.\<close>

definition LogConfig_String :: "(LogConfig \<Rightarrow> goerr + string) \<Rightarrow> LogConfig \<Rightarrow> string" where
  "LogConfig_String marshal c = (case marshal c of Inl _ \<Rightarrow> [] | Inr j \<Rightarrow> j)"

record TracingConfig =
  tracing_Enable :: bool
  tracing_OTLPEndpoint :: string
  tracing_SamplingRatio :: rat

record ObservabilityConfig =
  obs_Enable :: bool
  obs_AdminListen :: string
  obs_AdminPort :: int
  obs_Tracing :: "TracingConfig option"

record ServerConfig =
  Listen :: string
  Port :: int
  Debug :: bool
  Domain :: string
  Readonly :: bool
  RequestTimeout :: duration
  GlobalRateLimitKey :: string
  GlobalWriteRate :: int
  GlobalWriteBurst :: int
  StandAloneReadRate :: int
  StandAloneReadBurst :: int
  Log :: "LogConfig option"
  TDDL :: "TDDLConfig option"
  MySQL :: "MySQLConfig option"
  Cache :: "CacheConfig option"
  Observability :: "ObservabilityConfig option"

section \<open>Operations\<close>

definition OutputConsole :: string where "OutputConsole = ''console''"
definition OutputFile :: string where "OutputFile = ''file''"
definition EncoderTypeText :: string where "EncoderTypeText = ''text''"
definition EncoderTypeJSON :: string where "EncoderTypeJSON = ''json''"

definition Second :: duration where "Second = 1000000000"

definition DefaultAdminListen :: string where "DefaultAdminListen = ''0.0.0.0''"
definition DefaultAdminPort :: int where "DefaultAdminPort = 9090"
definition DefaultSamplingRatio :: rat where "DefaultSamplingRatio = 1"

definition DebugLevel :: string where "DebugLevel = ''debug''"
definition InfoLevel :: string where "InfoLevel = ''info''"
definition WarnLevlel :: string where "WarnLevlel = ''warn''"
definition ErrorLevel :: string where "ErrorLevel = ''error''"

text \<open>The levels of \<open>slog\<close>, and the table; a Go map answers zero, which is \<open>LevelInfo\<close>, for a missing key.\<close>

definition slog_LevelDebug :: int where "slog_LevelDebug = - 4"
definition slog_LevelInfo :: int where "slog_LevelInfo = 0"
definition slog_LevelWarn :: int where "slog_LevelWarn = 4"
definition slog_LevelError :: int where "slog_LevelError = 8"

definition Levels :: "string \<Rightarrow> int" where
  "Levels level =
     (case map_of [('''', slog_LevelInfo), (DebugLevel, slog_LevelDebug), (InfoLevel, slog_LevelInfo),
        (WarnLevlel, slog_LevelWarn), (ErrorLevel, slog_LevelError)] level of
        Some l \<Rightarrow> l
      | None \<Rightarrow> 0)"

definition WithDefaults :: "ObservabilityConfig \<Rightarrow> ObservabilityConfig" where
  "WithDefaults c =
     (let c = (if obs_AdminListen c = '''' then c\<lparr>obs_AdminListen := DefaultAdminListen\<rparr> else c);
          c = (if obs_AdminPort c = 0 then c\<lparr>obs_AdminPort := DefaultAdminPort\<rparr> else c)
      in c)"

definition errInvalidOutput :: goerr where
  "errInvalidOutput = OtherError ''log output only support console and file''"
definition errNonFilePath :: goerr where
  "errNonFilePath = OtherError ''log file path is required when log output contains file''"
definition errInvalidFormat :: goerr where
  "errInvalidFormat = OtherError ''log format only support text and json''"
definition errTimeout :: goerr where
  "errTimeout = OtherError ''request timeout should be greater than 1s''"

text \<open>The loop over the writers, stopping at the first one that is refused.\<close>

fun check_writers :: "string \<Rightarrow> string list \<Rightarrow> goerr option" where
  "check_writers path [] = None"
| "check_writers path (v # vs) =
     (if v \<notin> set [OutputConsole, OutputFile] then Some errInvalidOutput
      else if v = OutputFile \<and> path = '''' then Some errNonFilePath
      else check_writers path vs)"

definition Validate :: "(ServerConfig \<Rightarrow> goerr option) \<Rightarrow> ServerConfig \<Rightarrow> unit outcome" where
  "Validate Struct c =
     (case Struct c of
        Some e \<Rightarrow> Err e
      | None \<Rightarrow>
          if RequestTimeout c < Second then Err errTimeout
          else
            (case Log c of
               None \<Rightarrow> Panic ''nil pointer dereference''
             | Some l \<Rightarrow>
                 (case check_writers (file_Filepath (log_FileConfig l)) (log_Writers l) of
                    Some e \<Rightarrow> Err e
                  | None \<Rightarrow>
                      if log_Format l \<notin> set [EncoderTypeText, EncoderTypeJSON] then Err errInvalidFormat
                      else Ret ())))"

definition required_pointers :: "(ServerConfig \<Rightarrow> goerr option) \<Rightarrow> bool" where
  "required_pointers Struct \<longleftrightarrow>
     (\<forall>c. Struct c = None \<longrightarrow>
       Log c \<noteq> None \<and> TDDL c \<noteq> None \<and> MySQL c \<noteq> None \<and> Cache c \<noteq> None \<and>
       (\<forall>k. Cache c = Some k \<longrightarrow> cache_LocalCache k \<noteq> None))"

section \<open>The struct tags\<close>

text \<open>
  The verdict of the \<open>validate\<close> tags, struct by struct, with the documented meaning of the tags: \<open>required\<close> asks for a value that is
  not zero, \<open>omitempty\<close> accepts zero, and the validator descends into pointers that are not nil. \<open>addr\<close> decides
  \<open>ip_addr|hostname\<close>. The theorems are about any verdict; this one instantiates it.
\<close>

definition RedisConfig_tags :: "RedisConfig \<Rightarrow> bool" where
  "RedisConfig_tags c \<longleftrightarrow> redis_Addr c \<noteq> [] \<and> redis_DialTimeout c \<noteq> 0 \<and> redis_MaxConn c \<noteq> 0 \<and> 1 \<le> redis_MaxConn c \<and> redis_TTL c \<noteq> 0"

definition LocalCacheConfig_tags :: "LocalCacheConfig \<Rightarrow> bool" where
  "LocalCacheConfig_tags c \<longleftrightarrow> local_TTL c \<noteq> 0 \<and> local_Capacity c \<noteq> 0 \<and> local_MaxMemory c \<noteq> 0"

definition CacheConfig_tags :: "CacheConfig \<Rightarrow> bool" where
  "CacheConfig_tags c \<longleftrightarrow> (case cache_Redis c of None \<Rightarrow> True | Some r \<Rightarrow> RedisConfig_tags r) \<and>
     (case cache_LocalCache c of None \<Rightarrow> False | Some l \<Rightarrow> LocalCacheConfig_tags l)"

definition MySQLConfig_tags :: "MySQLConfig \<Rightarrow> bool" where
  "MySQLConfig_tags c \<longleftrightarrow> mysql_MaxConn c \<noteq> 0 \<and> 1 \<le> mysql_MaxConn c"

definition LogConfig_tags :: "LogConfig \<Rightarrow> bool" where
  "LogConfig_tags c \<longleftrightarrow> log_Writers c \<noteq> [] \<and> log_Format c \<noteq> ''''"

definition TracingConfig_tags :: "TracingConfig \<Rightarrow> bool" where
  "TracingConfig_tags c \<longleftrightarrow> (tracing_Enable c \<longrightarrow> tracing_OTLPEndpoint c \<noteq> '''') \<and>
     (tracing_SamplingRatio c = 0 \<or> 0 \<le> tracing_SamplingRatio c \<and> tracing_SamplingRatio c \<le> 1)"

definition ObservabilityConfig_tags :: "(string \<Rightarrow> bool) \<Rightarrow> ObservabilityConfig \<Rightarrow> bool" where
  "ObservabilityConfig_tags addr c \<longleftrightarrow> (obs_AdminListen c = '''' \<or> addr (obs_AdminListen c)) \<and>
     (obs_AdminPort c = 0 \<or> 1 \<le> obs_AdminPort c \<and> obs_AdminPort c \<le> 65535) \<and>
     (case obs_Tracing c of None \<Rightarrow> True | Some t \<Rightarrow> TracingConfig_tags t)"

definition ServerConfig_tags :: "(string \<Rightarrow> bool) \<Rightarrow> ServerConfig \<Rightarrow> bool" where
  "ServerConfig_tags addr c \<longleftrightarrow>
     Listen c \<noteq> '''' \<and> addr (Listen c) \<and> Port c \<noteq> 0 \<and> 1 \<le> Port c \<and> Port c \<le> 65535 \<and> Domain c \<noteq> '''' \<and>
     RequestTimeout c \<noteq> 0 \<and> GlobalRateLimitKey c \<noteq> '''' \<and> GlobalWriteRate c \<noteq> 0 \<and> 0 < GlobalWriteRate c \<and>
     GlobalWriteBurst c \<noteq> 0 \<and> 1 \<le> GlobalWriteBurst c \<and> StandAloneReadRate c \<noteq> 0 \<and> 0 < StandAloneReadRate c \<and>
     StandAloneReadBurst c \<noteq> 0 \<and> 1 \<le> StandAloneReadBurst c \<and>
     (case Log c of None \<Rightarrow> False | Some l \<Rightarrow> LogConfig_tags l) \<and> TDDL c \<noteq> None \<and>
     (case MySQL c of None \<Rightarrow> False | Some m \<Rightarrow> MySQLConfig_tags m) \<and>
     (case Cache c of None \<Rightarrow> False | Some k \<Rightarrow> CacheConfig_tags k) \<and>
     (case Observability c of None \<Rightarrow> True | Some ob \<Rightarrow> ObservabilityConfig_tags addr ob)"

lemmas tag_defs = RedisConfig_tags_def LocalCacheConfig_tags_def CacheConfig_tags_def MySQLConfig_tags_def LogConfig_tags_def
  TracingConfig_tags_def ObservabilityConfig_tags_def ServerConfig_tags_def

definition tag_check :: "(string \<Rightarrow> bool) \<Rightarrow> ServerConfig \<Rightarrow> goerr option" where
  "tag_check addr c = (if ServerConfig_tags addr c then None else Some ValidationError)"

section \<open>Reading a file\<close>

text \<open>
  koanf as \<open>ReadFile\<close> uses it: loading a YAML file, loading a map of switches, and filling a
  \<open>ServerConfig\<close> by the tag \<open>json\<close>. The instance is global, so its state is passed on.
\<close>

record 'k koanf =
  Load_file :: "string \<Rightarrow> 'k \<Rightarrow> goerr option \<times> 'k"
  Load_confmap :: "(string \<rightharpoonup> bool) \<Rightarrow> 'k \<Rightarrow> goerr option \<times> 'k"
  UnmarshalWithConf :: "'k \<Rightarrow> goerr + ServerConfig"

definition ReadFile :: "'k koanf \<Rightarrow> string \<Rightarrow> (string \<rightharpoonup> bool) \<Rightarrow> 'k \<Rightarrow> (goerr + ServerConfig) \<times> 'k" where
  "ReadFile K path mp k =
     (case Load_file K path k of
        (Some err, k1) \<Rightarrow> (Inl err, k1)
      | (None, k1) \<Rightarrow>
          (case Load_confmap K mp k1 of
             (Some err, k2) \<Rightarrow> (Inl err, k2)
           | (None, k2) \<Rightarrow>
               (case UnmarshalWithConf K k2 of
                  Inl err \<Rightarrow> (Inl err, k2)
                | Inr t \<Rightarrow> (Inr t, k2))))"

text \<open>The two switches a map can set, by their keys.\<close>

definition override :: "(string \<rightharpoonup> bool) \<Rightarrow> ServerConfig \<Rightarrow> ServerConfig" where
  "override mp c =
     c\<lparr>Readonly := (case mp ''readonly'' of Some b \<Rightarrow> b | None \<Rightarrow> Readonly c),
       Debug := (case mp ''debug'' of Some b \<Rightarrow> b | None \<Rightarrow> Debug c)\<rparr>"

locale koanf_reader =
  fixes K :: "'k koanf"
  assumes confmap_overrides: "Load_confmap K mp k = (None, k') \<Longrightarrow> dom mp \<subseteq> {''readonly'', ''debug''} \<Longrightarrow>
      UnmarshalWithConf K k = Inr c \<Longrightarrow> UnmarshalWithConf K k' = Inr (override mp c)"
begin

text \<open>When the file alone describes a configuration, what is read is that one with the switches set.\<close>

lemma ReadFile_Inr:
  assumes "ReadFile K path mp k = (Inr t, k')" "Load_file K path k = (None, k1)" "UnmarshalWithConf K k1 = Inr c"
    and "dom mp \<subseteq> {''readonly'', ''debug''}"
  shows "t = override mp c"
  using assms confmap_overrides [of mp k1 k' c]
  by (auto simp: ReadFile_def split: prod.splits option.splits sum.splits)

end

section \<open>Lemmas\<close>

lemma Levels_simps [simp]:
  "Levels '''' = 0" "Levels ''debug'' = - 4" "Levels ''info'' = 0" "Levels ''warn'' = 4" "Levels ''error'' = 8"
  by (simp_all add: Levels_def DebugLevel_def InfoLevel_def WarnLevlel_def ErrorLevel_def slog_LevelDebug_def
      slog_LevelInfo_def slog_LevelWarn_def slog_LevelError_def)

lemma check_writers_None:
  "check_writers path ws = None \<longleftrightarrow>
    set ws \<subseteq> {OutputConsole, OutputFile} \<and> (OutputFile \<in> set ws \<longrightarrow> path \<noteq> '''')"
  by (induction ws) auto

lemma WithDefaults_fields:
  "obs_AdminListen (WithDefaults c) = (if obs_AdminListen c = '''' then ''0.0.0.0'' else obs_AdminListen c)"
  "obs_AdminPort (WithDefaults c) = (if obs_AdminPort c = 0 then 9090 else obs_AdminPort c)"
  "obs_Enable (WithDefaults c) = obs_Enable c" "obs_Tracing (WithDefaults c) = obs_Tracing c"
  by (simp_all add: WithDefaults_def DefaultAdminListen_def DefaultAdminPort_def Let_def)

section \<open>Properties\<close>

text \<open>
  A configuration is accepted exactly when its struct tags hold, its request timeout is at
  least a second, every log writer is \<open>console\<close> or \<open>file\<close>, a file path is given when \<open>file\<close> is
  among them, and the format is \<open>text\<close> or \<open>json\<close>; and with the tag \<open>required\<close> on the pointer
  fields \<open>Validate\<close> never reads through a nil pointer.
\<close>

lemma Validate_spec:
  assumes "required_pointers Struct"
  shows "(Validate Struct c = Ret () \<longleftrightarrow>
      Struct c = None \<and> 1000000000 \<le> RequestTimeout c \<and>
      (\<exists>l. Log c = Some l \<and> set (log_Writers l) \<subseteq> {''console'', ''file''} \<and>
        (''file'' \<in> set (log_Writers l) \<longrightarrow> file_Filepath (log_FileConfig l) \<noteq> '''') \<and>
        log_Format l \<in> {''text'', ''json''})) \<and>
    Validate Struct c \<noteq> Panic m"
proof -
  have log: "Struct c = None \<Longrightarrow> \<exists>l. Log c = Some l" using assms by (auto simp: required_pointers_def)
  show ?thesis
  proof (cases "Struct c")
    case None
    then obtain l where "Log c = Some l" using log by blast
    with None show ?thesis
      using check_writers_None [of "file_Filepath (log_FileConfig l)" "log_Writers l"]
      by (auto simp: Validate_def Second_def OutputConsole_def OutputFile_def EncoderTypeText_def
          EncoderTypeJSON_def split: option.splits)
  qed (simp add: Validate_def)
qed

definition example_log_config :: LogConfig where
  "example_log_config = \<lparr>log_Writers = [''console''],
     log_FileConfig = \<lparr>file_Filepath = '''', file_MaxAge = 0, file_MaxBackups = 0, file_Compress = False,
       file_MaxSize = 0\<rparr>,
     log_Format = ''json'', log_AddSource = False, log_Level = ''info''\<rparr>"

definition example_local_config :: LocalCacheConfig where
  "example_local_config = \<lparr>local_TTL = 600 * Second, local_Capacity = 1000000, local_MaxMemory = 512\<rparr>"

definition example_config :: ServerConfig where
  "example_config =
     \<lparr>Listen = ''0.0.0.0'', Port = 8080, Debug = False, Domain = ''https://www.example.com'', Readonly = False,
      RequestTimeout = 5 * Second, GlobalRateLimitKey = ''turl_rate_limit'', GlobalWriteRate = 100,
      GlobalWriteBurst = 500, StandAloneReadRate = 100, StandAloneReadBurst = 500,
      Log = Some example_log_config,
      TDDL = Some \<lparr>tddl_Step = 1000, tddl_SeqName = ''tiny_url'', tddl_StartNum = 10000\<rparr>,
      MySQL = Some \<lparr>mysql_DSN = ''dsn'', mysql_MaxConn = 50\<rparr>,
      Cache = Some \<lparr>cache_Redis = None, cache_LocalCache = Some example_local_config\<rparr>,
      Observability = None\<rparr>"

lemma tag_check_required: "required_pointers (tag_check addr)"
  by (auto simp: required_pointers_def tag_check_def tag_defs split: option.splits if_splits)

lemmas [example_eval] = Validate_def tag_check_def tag_defs example_config_def example_log_config_def example_local_config_def
  Second_def OutputConsole_def OutputFile_def EncoderTypeJSON_def EncoderTypeText_def

text \<open>A reader that knows one file; a map overrides what was loaded.\<close>

definition one_file :: "ServerConfig \<Rightarrow> ServerConfig option koanf" where
  "one_file c =
     \<lparr>Load_file = (\<lambda>path k. if path = ''./config.yaml'' then (None, Some c) else (Some (OtherError ''no such file''), k)),
      Load_confmap = (\<lambda>mp k. (None, map_option (override mp) k)),
      UnmarshalWithConf = (\<lambda>k. case k of None \<Rightarrow> Inl (OtherError ''empty'') | Some c \<Rightarrow> Inr c)\<rparr>"

interpretation one_file: koanf_reader "one_file c" for c
  by unfold_locales (auto simp: one_file_def split: option.splits)

lemma Validate_spec_witness:
  "Validate (tag_check (\<lambda>_. True)) example_config = Ret () \<and>
   Validate (tag_check (\<lambda>_. True)) (example_config\<lparr>RequestTimeout := 999999999\<rparr>) \<noteq> Ret ()"
  using Validate_spec [OF tag_check_required [of "\<lambda>_. True"], of example_config "''''"]
    Validate_spec [OF tag_check_required [of "\<lambda>_. True"], of "example_config\<lparr>RequestTimeout := 999999999\<rparr>" "''''"]
  by (simp add: example_config_def example_log_config_def example_local_config_def tag_check_def tag_defs Second_def)

end
