(* ===== verification/Metrics.thy ===== *)
theory Metrics
  imports Complex_Main Turl_Prelude "HOL-Library.Multiset"
begin

text \<open>
  The package \<open>metrics\<close> (\<open>pkg/metrics/metrics.go\<close>). The components keep what they report as lists of reports; this
  theory says what a report does to the registry, what the registry then exposes, and that the order in which the
  reports of different goroutines arrive does not matter. Prometheus is library code: a counter is incremented, a
  histogram counts an observation in every bucket whose bound it does not exceed, a registry refuses a metric whose
  name is taken. The bounds of the buckets and the names of the runtime collectors are parameters.
\<close>

section \<open>Reports\<close>

datatype metric =
    CacheRequest string string
  | ShortenCreated
  | ExpiredReaped int
  | HTTPRequest string string string rat

definition CacheLayerLocal :: string where "CacheLayerLocal = ''local''"
definition CacheLayerDistributed :: string where "CacheLayerDistributed = ''distributed''"

definition ObserveHTTPRequest :: "string \<Rightarrow> string \<Rightarrow> string \<Rightarrow> rat \<Rightarrow> metric list \<Rightarrow> metric list" where
  "ObserveHTTPRequest verb path status seconds m = m @ [HTTPRequest verb path status seconds]"

definition RecordCacheResult :: "string \<Rightarrow> bool \<Rightarrow> metric list \<Rightarrow> metric list" where
  "RecordCacheResult layer hit m = m @ [CacheRequest layer (if hit then ''hit'' else ''miss'')]"

section \<open>The collectors and their registry\<close>

datatype metric_kind = Counter | CounterVec | HistogramVec

record collector =
  kind :: metric_kind
  Namespace :: string
  Subsystem :: string
  Name :: string
  label_names :: "string list"

definition namespace :: string where "namespace = ''turl''"

definition httpRequestsTotal :: collector where
  "httpRequestsTotal = \<lparr>kind = CounterVec, Namespace = namespace, Subsystem = ''http'', Name = ''requests_total'',
     label_names = [''method'', ''path'', ''status'']\<rparr>"

definition httpRequestDuration :: collector where
  "httpRequestDuration = \<lparr>kind = HistogramVec, Namespace = namespace, Subsystem = ''http'', Name = ''request_duration_seconds'',
     label_names = [''method'', ''path'']\<rparr>"

definition cacheRequestsTotal :: collector where
  "cacheRequestsTotal = \<lparr>kind = CounterVec, Namespace = namespace, Subsystem = ''cache'', Name = ''requests_total'',
     label_names = [''layer'', ''result'']\<rparr>"

definition shortenCreatedTotal :: collector where
  "shortenCreatedTotal = \<lparr>kind = Counter, Namespace = namespace, Subsystem = [], Name = ''shorten_created_total'', label_names = []\<rparr>"

definition expiredReapedTotal :: collector where
  "expiredReapedTotal = \<lparr>kind = Counter, Namespace = namespace, Subsystem = [], Name = ''expired_links_reaped_total'', label_names = []\<rparr>"

text \<open>The name a collector is registered under: its parts joined by underscores, without the empty ones.\<close>

definition BuildFQName :: "collector \<Rightarrow> string" where
  "BuildFQName c =
     (if Name c = [] then []
      else (if Namespace c = [] then [] else Namespace c @ ''_'') @ (if Subsystem c = [] then [] else Subsystem c @ ''_'') @ Name c)"

text \<open>Registering collectors, each given by the names of its metrics; a name that is taken makes it panic.\<close>

fun MustRegister :: "string list list \<Rightarrow> string list \<Rightarrow> string list outcome" where
  "MustRegister [] reg = Ret reg"
| "MustRegister (names # cs) reg =
     (if distinct names \<and> set names \<inter> set reg = {} then MustRegister cs (reg @ names)
      else Panic ''duplicate metrics collector registration attempted'')"

definition metrics_init :: "string list \<Rightarrow> string list \<Rightarrow> string list outcome" where
  "metrics_init go process =
     MustRegister ([go, process] @ map (\<lambda>c. [BuildFQName c])
       [httpRequestsTotal, httpRequestDuration, cacheRequestsTotal, shortenCreatedTotal, expiredReapedTotal]) []"

section \<open>What the registry exposes\<close>

text \<open>
  A model of the counters and histograms of Prometheus, which the package only calls: what each report of the functions above does to them.
\<close>

record histogram =
  le_counts :: "nat list"
  obs_count :: nat
  obs_sum :: rat

record exposition =
  http_requests_total :: "string \<times> string \<times> string \<Rightarrow> nat"
  http_request_duration :: "string \<times> string \<Rightarrow> histogram"
  cache_requests_total :: "string \<times> string \<Rightarrow> nat"
  shorten_created_total :: nat
  expired_links_reaped_total :: int

definition empty_exposition :: "rat list \<Rightarrow> exposition" where
  "empty_exposition bounds = \<lparr>http_requests_total = (\<lambda>_. 0),
     http_request_duration = (\<lambda>_. \<lparr>le_counts = map (\<lambda>_. 0) bounds, obs_count = 0, obs_sum = 0\<rparr>),
     cache_requests_total = (\<lambda>_. 0), shorten_created_total = 0, expired_links_reaped_total = 0\<rparr>"

definition Observe :: "rat list \<Rightarrow> rat \<Rightarrow> histogram \<Rightarrow> histogram" where
  "Observe bounds v h = \<lparr>le_counts = map2 (\<lambda>b n. if v \<le> b then n + 1 else n) bounds (le_counts h),
     obs_count = obs_count h + 1, obs_sum = obs_sum h + v\<rparr>"

fun report :: "rat list \<Rightarrow> metric \<Rightarrow> exposition \<Rightarrow> exposition" where
  "report bounds (HTTPRequest verb path status seconds) x =
     x\<lparr>http_requests_total := (http_requests_total x)((verb, path, status) := http_requests_total x (verb, path, status) + 1),
       http_request_duration := (http_request_duration x)((verb, path) := Observe bounds seconds (http_request_duration x (verb, path)))\<rparr>"
| "report bounds (CacheRequest layer result) x =
     x\<lparr>cache_requests_total := (cache_requests_total x)((layer, result) := cache_requests_total x (layer, result) + 1)\<rparr>"
| "report bounds ShortenCreated x = x\<lparr>shorten_created_total := shorten_created_total x + 1\<rparr>"
| "report bounds (ExpiredReaped n) x = x\<lparr>expired_links_reaped_total := expired_links_reaped_total x + n\<rparr>"

definition exposed :: "rat list \<Rightarrow> metric list \<Rightarrow> exposition" where
  "exposed bounds ms = fold (report bounds) ms (empty_exposition bounds)"

section \<open>Lemmas\<close>

lemma exposed_Nil [simp]: "exposed bounds [] = empty_exposition bounds"
  by (simp add: exposed_def)

lemma exposed_snoc [simp]: "exposed bounds (ms @ [m]) = report bounds m (exposed bounds ms)"
  by (simp add: exposed_def)

text \<open>Two reports commute.\<close>

lemma map2_map2:
  "map2 f xs (map2 g xs ys) = map2 (\<lambda>x y. f x (g x y)) xs ys"
  by (induction xs ys rule: list_induct2') auto

lemma Observe_commute: "Observe bounds v (Observe bounds u h) = Observe bounds u (Observe bounds v h)"
proof -
  have "(\<lambda>b n :: nat. if v \<le> b then (if u \<le> b then n + 1 else n) + 1 else (if u \<le> b then n + 1 else n)) =
      (\<lambda>b n. if u \<le> b then (if v \<le> b then n + 1 else n) + 1 else (if v \<le> b then n + 1 else n))"
    by (intro ext) auto
  then show ?thesis by (simp add: Observe_def map2_map2 del: map_map)
qed

lemma report_commute: "report bounds a \<circ> report bounds b = report bounds b \<circ> report bounds a"
  by (rule ext, cases a; cases b) (auto simp: fun_upd_twist Observe_commute)

lemma fold_mset:
  assumes "mset xs = mset ys" "\<And>a b. f a \<circ> f b = f b \<circ> f a"
  shows "fold f xs = fold f ys"
  using fold_multiset_equiv [of xs f ys] assms by (metis o_def)

text \<open>The latencies reported for a route.\<close>

fun latencies :: "string \<Rightarrow> string \<Rightarrow> metric list \<Rightarrow> rat list" where
  "latencies verb path [] = []"
| "latencies verb path (HTTPRequest v p s x # ms) =
     (if v = verb \<and> p = path then x # latencies verb path ms else latencies verb path ms)"
| "latencies verb path (_ # ms) = latencies verb path ms"

fun reaped :: "metric list \<Rightarrow> int" where
  "reaped [] = 0"
| "reaped (ExpiredReaped n # ms) = n + reaped ms"
| "reaped (_ # ms) = reaped ms"

lemma latencies_append: "latencies verb path (ms @ ms') = latencies verb path ms @ latencies verb path ms'"
  by (induction verb path ms rule: latencies.induct) auto

lemma reaped_append: "reaped (ms @ ms') = reaped ms + reaped ms'"
  by (induction ms rule: reaped.induct) auto

lemma le_counts_length [simp]: "length (le_counts (http_request_duration (exposed bounds ms) k)) = length bounds"
proof (induction ms rule: rev_induct)
  case (snoc m ms)
  then show ?case by (cases m) (auto simp: Observe_def)
qed (simp add: empty_exposition_def)

lemma exposed_http:
  "http_requests_total (exposed bounds ms) (v, p, s) = length (filter (\<lambda>m. \<exists>x. m = HTTPRequest v p s x) ms)"
proof (induction ms rule: rev_induct)
  case (snoc m ms)
  then show ?case by (cases m) auto
qed (simp add: empty_exposition_def)

lemma exposed_duration:
  "obs_count (http_request_duration (exposed bounds ms) (v, p)) = length (latencies v p ms)"
  "obs_sum (http_request_duration (exposed bounds ms) (v, p)) = sum_list (latencies v p ms)"
  "i < length bounds \<Longrightarrow>
    le_counts (http_request_duration (exposed bounds ms) (v, p)) ! i = length (filter (\<lambda>x. x \<le> bounds ! i) (latencies v p ms))"
proof (induction ms rule: rev_induct)
  case (snoc m ms)
  { case 1 then show ?case using snoc(1) by (cases m) (auto simp: Observe_def latencies_append) }
  { case 2 then show ?case using snoc(2) by (cases m) (auto simp: Observe_def latencies_append) }
  { case 3 then show ?case using snoc(3) by (cases m) (auto simp: Observe_def latencies_append) }
qed (simp_all add: empty_exposition_def)

lemma exposed_cache:
  "cache_requests_total (exposed bounds ms) (l, r) = length (filter (\<lambda>m. m = CacheRequest l r) ms)"
proof (induction ms rule: rev_induct)
  case (snoc m ms)
  then show ?case by (cases m) auto
qed (simp add: empty_exposition_def)

lemma exposed_links:
  "shorten_created_total (exposed bounds ms) = length (filter (\<lambda>m. m = ShortenCreated) ms)"
  "expired_links_reaped_total (exposed bounds ms) = reaped ms"
proof (induction ms rule: rev_induct)
  case (snoc m ms)
  { case 1 then show ?case using snoc(1) by (cases m) auto }
  { case 2 then show ?case using snoc(2) by (cases m) (auto simp: reaped_append) }
qed (simp_all add: empty_exposition_def)

section \<open>The history of the reports\<close>

text \<open>
  What the metrics endpoint shows is the history of the reports, whatever their order: each counter is the number
  of its reports (the sum, for reaped links), the histogram of a route counts its requests, sums their latencies and has in
  each bucket those that did not exceed its bound, and two histories with the same reports, as goroutines may interleave
  them, expose the same.
\<close>

lemma metrics_exposed:
  "http_requests_total (exposed bounds ms) (v, p, s) = length (filter (\<lambda>m. \<exists>x. m = HTTPRequest v p s x) ms) \<and>
   http_request_duration (exposed bounds ms) (v, p) =
     \<lparr>le_counts = map (\<lambda>b. length (filter (\<lambda>x. x \<le> b) (latencies v p ms))) bounds,
      obs_count = length (latencies v p ms), obs_sum = sum_list (latencies v p ms)\<rparr> \<and>
   cache_requests_total (exposed bounds ms) (l, r) = length (filter (\<lambda>m. m = CacheRequest l r) ms) \<and>
   shorten_created_total (exposed bounds ms) = length (filter (\<lambda>m. m = ShortenCreated) ms) \<and>
   expired_links_reaped_total (exposed bounds ms) = reaped ms \<and>
   (mset ms' = mset ms \<longrightarrow> exposed bounds ms' = exposed bounds ms)"
proof (intro conjI impI)
  show "http_request_duration (exposed bounds ms) (v, p) =
     \<lparr>le_counts = map (\<lambda>b. length (filter (\<lambda>x. x \<le> b) (latencies v p ms))) bounds,
      obs_count = length (latencies v p ms), obs_sum = sum_list (latencies v p ms)\<rparr>"
    by (rule histogram.equality) (auto simp: exposed_duration intro!: nth_equalityI)
  show "mset ms' = mset ms \<Longrightarrow> exposed bounds ms' = exposed bounds ms"
    unfolding exposed_def using fold_mset [of ms' ms "report bounds"] report_commute by metis
qed (simp_all add: exposed_http exposed_cache exposed_links)

lemma metrics_exposed_witness:
  "exposed [1, 5] [CacheRequest ''local'' ''hit'', HTTPRequest ''GET'' ''/:short'' ''302'' 2] =
     exposed [1, 5] [HTTPRequest ''GET'' ''/:short'' ''302'' 2, CacheRequest ''local'' ''hit''] \<and>
   le_counts (http_request_duration (exposed [1, 5] [HTTPRequest ''GET'' ''/:short'' ''302'' 2]) (''GET'', ''/:short'')) = [0, 1]"
  using metrics_exposed [of "[1, 5]" "[HTTPRequest ''GET'' ''/:short'' ''302'' 2, CacheRequest ''local'' ''hit'']" "''GET''" "''/:short''"
      "''302''" "''local''" "''hit''" "[CacheRequest ''local'' ''hit'', HTTPRequest ''GET'' ''/:short'' ''302'' 2]"]
    metrics_exposed [of "[1, 5]" "[HTTPRequest ''GET'' ''/:short'' ''302'' 2]" "''GET''" "''/:short''" "''302''" "''local''" "''hit''" "[]"]
  by simp

text \<open>
  The collectors of the service have different names, each in the namespace of the service, so that registering them
  beside the runtime collectors, whose names are outside that namespace, does not panic.
\<close>

lemma metrics_init_ok:
  assumes "distinct (go @ process)" "\<And>n. n \<in> set (go @ process) \<Longrightarrow> take 5 n \<noteq> ''turl_''"
  shows "metrics_init go process = Ret (go @ process @
    [''turl_http_requests_total'', ''turl_http_request_duration_seconds'', ''turl_cache_requests_total'',
     ''turl_shorten_created_total'', ''turl_expired_links_reaped_total''])"
proof -
  have new: "n \<notin> set go" "n \<notin> set process" if "take 5 n = ''turl_''" for n using assms(2) [of n] that by auto
  show ?thesis
    using assms(1) new
    by (auto simp: metrics_init_def BuildFQName_def httpRequestsTotal_def httpRequestDuration_def cacheRequestsTotal_def
        shortenCreatedTotal_def expiredReapedTotal_def namespace_def)
qed

end
