(* ===== verification/Logging.thy ===== *)
theory Logging
  imports Config
begin

text \<open>
  The package \<open>log\<close> (\<open>pkg/log\<close>): the writers, the handler a configuration asks for, and \<open>traceHandler\<close>, which
  decorates any \<open>slog.Handler\<close> with the identifiers of the active span. Of \<open>log/slog\<close> the theory has what the code
  relies on: a logger drops records below the level of its handler, a handler writes one line per record to its
  writer, \<open>io.MultiWriter\<close> writes to its writers in turn and stops at the first error. Rendering a line is left out; what a
  writer does with a line is a parameter. A context is the span it carries, when that span is valid.
\<close>

section \<open>Records and handlers\<close>

datatype attr_value = AString string | AInt int | ADuration duration

type_synonym attr = "string \<times> attr_value"

record log_record =
  lr_level :: int
  lr_msg :: string
  lr_attrs :: "attr list"

record SpanContext =
  TraceID :: string
  SpanID :: string

text \<open>The interface \<open>slog.Handler\<close> over handlers \<open>'h\<close> and an output \<open>'o\<close>.\<close>

record ('h, 'o) slog_handler =
  Enabled :: "'h \<Rightarrow> int \<Rightarrow> bool"
  Handle :: "'h \<Rightarrow> SpanContext option \<Rightarrow> log_record \<Rightarrow> 'o \<Rightarrow> goerr option \<times> 'o"
  WithAttrs :: "attr list \<Rightarrow> 'h \<Rightarrow> 'h"
  WithGroup :: "string \<Rightarrow> 'h \<Rightarrow> 'h"

section \<open>The decorator\<close>

datatype 'h traceHandler = traceHandler (Handler: 'h)

definition withTrace :: "'h \<Rightarrow> 'h traceHandler" where
  "withTrace h = traceHandler h"

definition AddAttrs :: "attr list \<Rightarrow> log_record \<Rightarrow> log_record" where
  "AddAttrs as r = r\<lparr>lr_attrs := lr_attrs r @ as\<rparr>"

definition trace_Handle ::
  "('h, 'o) slog_handler \<Rightarrow> 'h traceHandler \<Rightarrow> SpanContext option \<Rightarrow> log_record \<Rightarrow> 'o \<Rightarrow> goerr option \<times> 'o" where
  "trace_Handle I h ctx r o' =
     (let r' = (case ctx of
          Some sc \<Rightarrow> AddAttrs [(''trace_id'', AString (TraceID sc)), (''span_id'', AString (SpanID sc))] r
        | None \<Rightarrow> r)
      in Handle I (Handler h) ctx r' o')"

definition trace_WithAttrs :: "('h, 'o) slog_handler \<Rightarrow> attr list \<Rightarrow> 'h traceHandler \<Rightarrow> 'h traceHandler" where
  "trace_WithAttrs I attrs h = traceHandler (WithAttrs I attrs (Handler h))"

definition trace_WithGroup :: "('h, 'o) slog_handler \<Rightarrow> string \<Rightarrow> 'h traceHandler \<Rightarrow> 'h traceHandler" where
  "trace_WithGroup I name h = traceHandler (WithGroup I name (Handler h))"

text \<open>The methods of a \<open>traceHandler\<close>; \<open>Enabled\<close> is promoted from the embedded handler.\<close>

definition trace_methods :: "('h, 'o) slog_handler \<Rightarrow> ('h traceHandler, 'o) slog_handler" where
  "trace_methods I = \<lparr>Enabled = (\<lambda>h. Enabled I (Handler h)), Handle = trace_Handle I, WithAttrs = trace_WithAttrs I,
     WithGroup = trace_WithGroup I\<rparr>"

section \<open>Writers\<close>

record lumberjack =
  Filename :: string
  MaxSize :: int
  MaxAge :: int
  MaxBackups :: int
  Compress :: bool

datatype log_writer = Stdout | LogFile lumberjack

definition getConsoleWriter :: log_writer where
  "getConsoleWriter = Stdout"

definition getFileWriter :: "FileConfig \<Rightarrow> log_writer" where
  "getFileWriter c = LogFile \<lparr>Filename = file_Filepath c, MaxSize = file_MaxSize c, MaxAge = file_MaxAge c,
     MaxBackups = file_MaxBackups c, Compress = file_Compress c\<rparr>"

definition getWriters :: "LogConfig \<Rightarrow> log_writer list" where
  "getWriters c = map (\<lambda>w.
     if w = OutputFile then getFileWriter (log_FileConfig c)
     else if w = OutputConsole then getConsoleWriter
     else getConsoleWriter) (log_Writers c)"

section \<open>The handlers of the standard library\<close>

text \<open>What \<open>WithAttrs\<close> and \<open>WithGroup\<close> leave on a handler, and a line as it is written.\<close>

datatype derived = Attrs "attr list" | Group string

record std_handler =
  is_json :: bool
  AddSource :: bool
  Level :: int
  deriveds :: "derived list"
  outs :: "log_writer list"

record line =
  line_json :: bool
  line_source :: bool
  line_prefix :: "derived list"
  line_record :: log_record

fun MultiWriter_Write ::
  "(log_writer \<Rightarrow> line \<Rightarrow> 'o \<Rightarrow> goerr option \<times> 'o) \<Rightarrow> log_writer list \<Rightarrow> line \<Rightarrow> 'o \<Rightarrow> goerr option \<times> 'o" where
  "MultiWriter_Write wr [] l x = (None, x)"
| "MultiWriter_Write wr (w # ws) l x =
     (case wr w l x of
        (Some err, x') \<Rightarrow> (Some err, x')
      | (None, x') \<Rightarrow> MultiWriter_Write wr ws l x')"

definition std_methods :: "(log_writer \<Rightarrow> line \<Rightarrow> 'o \<Rightarrow> goerr option \<times> 'o) \<Rightarrow> (std_handler, 'o) slog_handler" where
  "std_methods wr =
     \<lparr>Enabled = (\<lambda>h l. Level h \<le> l),
      Handle = (\<lambda>h ctx r. MultiWriter_Write wr (outs h)
        \<lparr>line_json = is_json h, line_source = AddSource h, line_prefix = deriveds h, line_record = r\<rparr>),
      WithAttrs = (\<lambda>as h. h\<lparr>deriveds := deriveds h @ [Attrs as]\<rparr>),
      WithGroup = (\<lambda>n h. h\<lparr>deriveds := deriveds h @ [Group n]\<rparr>)\<rparr>"

section \<open>Building a logger\<close>

definition getLogHandler :: "log_writer list \<Rightarrow> LogConfig \<Rightarrow> std_handler traceHandler outcome" where
  "getLogHandler w c =
     (let opts = (\<lambda>json. \<lparr>is_json = json, AddSource = log_AddSource c, Level = Levels (log_Level c), deriveds = [], outs = w\<rparr>) in
      if log_Format c = EncoderTypeText then Ret (withTrace (opts False))
      else if log_Format c = EncoderTypeJSON then Ret (withTrace (opts True))
      else Err (OtherError (''unknown log format '' @ log_Format c)))"

definition NewLogger :: "LogConfig option \<Rightarrow> std_handler traceHandler outcome" where
  "NewLogger c =
     (case c of
        None \<Rightarrow> Panic ''nil pointer dereference''
      | Some c \<Rightarrow> getLogHandler (getWriters c) c)"

text \<open>The default logger of the process, when the code has set one.\<close>

definition SetDefaultLogger ::
  "LogConfig option \<Rightarrow> std_handler traceHandler option \<Rightarrow> unit outcome \<times> std_handler traceHandler option" where
  "SetDefaultLogger c d =
     (case NewLogger c of
        Ret l \<Rightarrow> (Ret (), Some l)
      | Err err \<Rightarrow> (Err err, d)
      | Panic p \<Rightarrow> (Panic p, d))"

text \<open>\<open>slog.LogAttrs\<close> on a logger: records below the level of the handler are dropped, errors are ignored.\<close>

definition LogAttrs :: "('h, 'o) slog_handler \<Rightarrow> 'h \<Rightarrow> SpanContext option \<Rightarrow> log_record \<Rightarrow> 'o \<Rightarrow> 'o" where
  "LogAttrs I h ctx r x = (if Enabled I h (lr_level r) then snd (Handle I h ctx r x) else x)"

section \<open>Lemmas\<close>

text \<open>Deriving a handler by any sequence of \<open>WithAttrs\<close> and \<open>WithGroup\<close>.\<close>

fun derive :: "('h, 'o) slog_handler \<Rightarrow> derived list \<Rightarrow> 'h \<Rightarrow> 'h" where
  "derive I [] h = h"
| "derive I (Attrs as # ds) h = derive I ds (WithAttrs I as h)"
| "derive I (Group n # ds) h = derive I ds (WithGroup I n h)"

lemma derive_trace: "derive (trace_methods I) ds (withTrace h) = withTrace (derive I ds h)"
  by (induction I ds h rule: derive.induct)
    (simp_all add: trace_methods_def trace_WithAttrs_def trace_WithGroup_def withTrace_def)

lemma derive_std:
  "derive (std_methods wr) ds h = h\<lparr>deriveds := deriveds h @ ds\<rparr>"
  by (induction "std_methods wr" ds h rule: derive.induct) (simp_all add: std_methods_def)

definition stamp :: "SpanContext option \<Rightarrow> log_record \<Rightarrow> log_record" where
  "stamp ctx r = (case ctx of None \<Rightarrow> r
     | Some sc \<Rightarrow> AddAttrs [(''trace_id'', AString (TraceID sc)), (''span_id'', AString (SpanID sc))] r)"

lemma trace_Handle_stamp: "Handle (trace_methods I) (withTrace h) ctx r x = Handle I h ctx (stamp ctx r) x"
  by (simp add: trace_methods_def trace_Handle_def withTrace_def stamp_def split: option.split)

lemma stamp_level [simp]: "lr_level (stamp ctx r) = lr_level r"
  by (simp add: stamp_def AddAttrs_def split: option.split)

text \<open>An output that keeps the lines each writer took, where the writers in \<open>F\<close> are broken.\<close>

definition keep :: "log_writer set \<Rightarrow> log_writer \<Rightarrow> line \<Rightarrow> (log_writer \<times> line) list \<Rightarrow> goerr option \<times> (log_writer \<times> line) list" where
  "keep F w l x = (if w \<in> F then (Some (OtherError ''write failed''), x) else (None, x @ [(w, l)]))"

lemma MultiWriter_keep:
  "snd (MultiWriter_Write (keep F) ws l x) = x @ map (\<lambda>w. (w, l)) (takeWhile (\<lambda>w. w \<notin> F) ws)"
  by (induction ws arbitrary: x) (auto simp: keep_def)

section \<open>Properties\<close>

text \<open>
  Every record of a traced request carries its trace, however the logger was derived: after any sequence of
  \<open>WithAttrs\<close> and \<open>WithGroup\<close>, the decorated handler does with a record exactly what the handler derived in the same way
  does with the record and, when the context has a valid span, the span's identifiers as two more attributes at its end; a record
  without a span passes unchanged.
\<close>

lemma trace_stamped:
  "Handle (trace_methods I) (derive (trace_methods I) ds (withTrace h)) ctx r x =
     Handle I (derive I ds h) ctx
       (case ctx of None \<Rightarrow> r
        | Some sc \<Rightarrow> r\<lparr>lr_attrs := lr_attrs r @ [(''trace_id'', AString (TraceID sc)), (''span_id'', AString (SpanID sc))]\<rparr>) x"
  unfolding derive_trace trace_Handle_stamp by (simp add: stamp_def AddAttrs_def split: option.split)

text \<open>
  C39. A configuration that is accepted can log, and where its lines go: \<open>SetDefaultLogger\<close> succeeds on it; a record at or above
  its level (info when the level is empty or unknown) is written as one line, stamped with its span, to each configured
  writer in turn, up to the first whose write fails; a record below the level is dropped.
\<close>

theorem log_delivered:
  assumes "required_pointers Struct" "Validate Struct c = Ret ()"
  shows "\<exists>l h. Log c = Some l \<and> SetDefaultLogger (Log c) d = (Ret (), Some h) \<and>
    LogAttrs (trace_methods (std_methods (keep F))) h ctx r x =
      (if Levels (log_Level l) \<le> lr_level r
       then x @ map (\<lambda>w. (w, \<lparr>line_json = (log_Format l = ''json''), line_source = log_AddSource l, line_prefix = [],
              line_record = stamp ctx r\<rparr>))
            (takeWhile (\<lambda>w. w \<notin> F) (map (\<lambda>w. if w = ''file'' then getFileWriter (log_FileConfig l) else Stdout) (log_Writers l)))
       else x)"
proof -
  obtain l where l: "Log c = Some l" "log_Format l = ''text'' \<or> log_Format l = ''json''"
    using assms
    by (auto simp: Validate_def EncoderTypeText_def EncoderTypeJSON_def split: option.splits if_splits)
  let ?h = "\<lparr>is_json = (log_Format l = ''json''), AddSource = log_AddSource l, Level = Levels (log_Level l), deriveds = [],
    outs = getWriters l\<rparr>"
  have "SetDefaultLogger (Log c) d = (Ret (), Some (withTrace ?h))"
    using l by (auto simp: SetDefaultLogger_def NewLogger_def getLogHandler_def EncoderTypeText_def EncoderTypeJSON_def Let_def)
  moreover have "LogAttrs (trace_methods (std_methods (keep F))) (withTrace ?h) ctx r x =
      (if Levels (log_Level l) \<le> lr_level r
       then x @ map (\<lambda>w. (w, \<lparr>line_json = (log_Format l = ''json''), line_source = log_AddSource l, line_prefix = [],
              line_record = stamp ctx r\<rparr>)) (takeWhile (\<lambda>w. w \<notin> F) (getWriters l))
       else x)"
    unfolding LogAttrs_def trace_Handle_stamp
    by (simp add: trace_methods_def withTrace_def std_methods_def MultiWriter_keep)
  moreover have "getWriters l = map (\<lambda>w. if w = ''file'' then getFileWriter (log_FileConfig l) else Stdout) (log_Writers l)"
    by (simp add: getWriters_def OutputFile_def getConsoleWriter_def)
  ultimately show ?thesis using l(1) by auto
qed

theorem log_delivered_witness:
  "\<exists>h. SetDefaultLogger (Log example_config) None = (Ret (), Some h) \<and>
    length (LogAttrs (trace_methods (std_methods (keep {}))) h None \<lparr>lr_level = 0, lr_msg = ''m'', lr_attrs = []\<rparr> []) = 1 \<and>
    LogAttrs (trace_methods (std_methods (keep {}))) h None \<lparr>lr_level = - 4, lr_msg = ''m'', lr_attrs = []\<rparr> [] = []"
proof -
  have v: "Validate (tag_check (\<lambda>_. True)) example_config = Ret ()"
    by (simp add: example_eval)
  show ?thesis
    using log_delivered [OF tag_check_required [of "\<lambda>_. True"] v, of None "{}" None "\<lparr>lr_level = 0, lr_msg = ''m'', lr_attrs = []\<rparr>" "[]"]
      log_delivered [OF tag_check_required [of "\<lambda>_. True"] v, of None "{}" None "\<lparr>lr_level = - 4, lr_msg = ''m'', lr_attrs = []\<rparr>" "[]"]
    by (auto simp: example_config_def example_log_config_def)
qed

end
