(* ===== verification/Cache.thy ===== *)
theory Cache
  imports Config Metrics
begin

text \<open>
  The package \<open>cache\<close>: the interface (\<open>interface.go\<close>) as a record of methods over a state, its
  implementations \<open>redisCache\<close>, \<open>localCache\<close>, the counting decorator \<open>metricsCache\<close> and the
  two-level \<open>proxy\<close>, and the contract every one of them keeps.

  The go-redis client and bigcache are parameters: records of the calls the code makes, over a
  state of any type. \<open>rand.IntN\<close> is the parameter \<open>intN\<close>.
\<close>

section \<open>The interface and the clients it is built on\<close>

record 's cache_iface =
  Set :: "string \<Rightarrow> bytes \<Rightarrow> duration \<Rightarrow> 's \<Rightarrow> unit outcome \<times> 's"
  Get :: "string \<Rightarrow> 's \<Rightarrow> bytes outcome \<times> 's"
  Del :: "string \<Rightarrow> 's \<Rightarrow> unit outcome \<times> 's"
  Ping :: "'s \<Rightarrow> unit outcome \<times> 's"
  Close :: "'s \<Rightarrow> unit outcome \<times> 's"

record 'r redis_client =
  rdb_Get :: "string \<Rightarrow> 'r \<Rightarrow> (goerr + bytes) \<times> 'r"
  rdb_SetEx :: "string \<Rightarrow> bytes \<Rightarrow> duration \<Rightarrow> 'r \<Rightarrow> goerr option \<times> 'r"
  rdb_Del :: "string \<Rightarrow> 'r \<Rightarrow> goerr option \<times> 'r"
  rdb_Ping :: "'r \<Rightarrow> goerr option \<times> 'r"
  rdb_Close :: "'r \<Rightarrow> goerr option \<times> 'r"

record 'l bigcache =
  big_Set :: "string \<Rightarrow> bytes \<Rightarrow> 'l \<Rightarrow> goerr option \<times> 'l"
  big_Get :: "string \<Rightarrow> 'l \<Rightarrow> (goerr + bytes) \<times> 'l"
  big_Delete :: "string \<Rightarrow> 'l \<Rightarrow> goerr option \<times> 'l"
  big_Close :: "'l \<Rightarrow> goerr option \<times> 'l"

text \<open>The settings \<open>newLocalCache\<close> hands to \<open>bigcache.New\<close>.\<close>

record big_config =
  LifeWindow :: duration
  MaxEntriesInWindow :: int
  HardMaxCacheSize :: int

section \<open>The redis layer\<close>

definition redisCache_Set ::
  "'r redis_client \<Rightarrow> (int \<Rightarrow> int) \<Rightarrow> string \<Rightarrow> bytes \<Rightarrow> duration \<Rightarrow> 'r \<Rightarrow> unit outcome \<times> 'r" where
  "redisCache_Set rdb intN k v ttl r =
     (let n = tdiv ttl 10 in
      if n \<le> 0 then (Panic ''invalid argument to IntN'', r)
      else apfst err_outcome (rdb_SetEx rdb k v (int64 (ttl + intN n)) r))"

definition redisCache_Get :: "'r redis_client \<Rightarrow> string \<Rightarrow> 'r \<Rightarrow> bytes outcome \<times> 'r" where
  "redisCache_Get rdb k r =
     (case rdb_Get rdb k r of
        (Inr value, r') \<Rightarrow> (Ret value, r')
      | (Inl err, r') \<Rightarrow> (if errors_Is err RedisNil then (Err ErrCacheMiss, r') else (Err err, r')))"

definition redisCache_Del :: "'r redis_client \<Rightarrow> string \<Rightarrow> 'r \<Rightarrow> unit outcome \<times> 'r" where
  "redisCache_Del rdb k r = apfst err_outcome (rdb_Del rdb k r)"

definition redisCache_Ping :: "'r redis_client \<Rightarrow> 'r \<Rightarrow> unit outcome \<times> 'r" where
  "redisCache_Ping rdb r = apfst err_outcome (rdb_Ping rdb r)"

definition redisCache_Close :: "'r redis_client \<Rightarrow> 'r \<Rightarrow> unit outcome \<times> 'r" where
  "redisCache_Close rdb r = apfst err_outcome (rdb_Close rdb r)"

definition redisCache :: "'r redis_client \<Rightarrow> (int \<Rightarrow> int) \<Rightarrow> 'r cache_iface" where
  "redisCache rdb intN =
     \<lparr>Set = redisCache_Set rdb intN, Get = redisCache_Get rdb, Del = redisCache_Del rdb,
      Ping = redisCache_Ping rdb, Close = redisCache_Close rdb\<rparr>"

section \<open>The local layer\<close>

definition localCache_Set :: "'l bigcache \<Rightarrow> string \<Rightarrow> bytes \<Rightarrow> duration \<Rightarrow> 'l \<Rightarrow> unit outcome \<times> 'l" where
  "localCache_Set cache k v ttl l = apfst err_outcome (big_Set cache k v l)"

definition localCache_Get :: "'l bigcache \<Rightarrow> string \<Rightarrow> 'l \<Rightarrow> bytes outcome \<times> 'l" where
  "localCache_Get cache k l =
     (case big_Get cache k l of
        (Inr v, l') \<Rightarrow> (Ret v, l')
      | (Inl err, l') \<Rightarrow> (if errors_Is err ErrEntryNotFound then (Err ErrCacheMiss, l') else (Err err, l')))"

definition localCache_Del :: "'l bigcache \<Rightarrow> string \<Rightarrow> 'l \<Rightarrow> unit outcome \<times> 'l" where
  "localCache_Del cache k l =
     (case big_Delete cache k l of
        (Some err, l') \<Rightarrow> (if errors_Is err ErrEntryNotFound then (Ret (), l') else (Err err, l'))
      | (None, l') \<Rightarrow> (Ret (), l'))"

definition localCache_Ping :: "'l \<Rightarrow> unit outcome \<times> 'l" where
  "localCache_Ping l = (Ret (), l)"

definition localCache_Close :: "'l bigcache \<Rightarrow> 'l \<Rightarrow> unit outcome \<times> 'l" where
  "localCache_Close cache l = apfst err_outcome (big_Close cache l)"

definition localCache :: "'l bigcache \<Rightarrow> 'l cache_iface" where
  "localCache cache =
     \<lparr>Set = localCache_Set cache, Get = localCache_Get cache, Del = localCache_Del cache,
      Ping = localCache_Ping, Close = localCache_Close cache\<rparr>"

text \<open>\<open>newLocalCache\<close>: \<open>new\<close> is \<open>bigcache.New\<close>, which gives a cache and its first state.\<close>

definition newLocalCache ::
  "(big_config \<Rightarrow> goerr + 'l bigcache \<times> 'l) \<Rightarrow> LocalCacheConfig \<Rightarrow> ('l cache_iface \<times> 'l) outcome" where
  "newLocalCache new c =
     (if local_Capacity c \<le> 0 then Err ErrInvalidCap
      else
        (case new \<lparr>LifeWindow = local_TTL c, MaxEntriesInWindow = local_Capacity c,
                   HardMaxCacheSize = local_MaxMemory c\<rparr> of
           Inl err \<Rightarrow> Err err
         | Inr (b, l) \<Rightarrow> Ret (localCache b, l)))"

section \<open>The counting decorator\<close>

text \<open>\<open>metricsCache\<close> adds the list of the reports to the state of the cache it wraps.\<close>

definition metricsCache_Get ::
  "string \<Rightarrow> 's cache_iface \<Rightarrow> string \<Rightarrow> 's \<times> metric list \<Rightarrow> bytes outcome \<times> 's \<times> metric list" where
  "metricsCache_Get layer c k = (\<lambda>(s, m).
     (case Get c k s of
        (Ret v, s') \<Rightarrow> (Ret v, s', RecordCacheResult layer True m)
      | (Err err, s') \<Rightarrow>
          (Err err, s', if errors_Is err ErrCacheMiss then RecordCacheResult layer False m else m)
      | (Panic p, s') \<Rightarrow> (Panic p, s', m)))"

text \<open>The methods of the embedded interface act on the wrapped cache only.\<close>

definition promoted :: "('s \<Rightarrow> 'a \<times> 's) \<Rightarrow> 's \<times> 'm \<Rightarrow> 'a \<times> 's \<times> 'm" where
  "promoted f = (\<lambda>(s, m). (case f s of (x, s') \<Rightarrow> (x, s', m)))"

definition metricsCache :: "string \<Rightarrow> 's cache_iface \<Rightarrow> ('s \<times> metric list) cache_iface" where
  "metricsCache layer c =
     \<lparr>Set = (\<lambda>k v ttl. promoted (Set c k v ttl)), Get = metricsCache_Get layer c,
      Del = (\<lambda>k. promoted (Del c k)), Ping = promoted (Ping c), Close = promoted (Close c)\<rparr>"

section \<open>The proxy\<close>

record ('d, 'l) proxy =
  distributedCache :: "'d cache_iface"
  localCacheOf :: "'l cache_iface"
  localCacheTTL :: duration
  remoteCacheTTL :: duration

text \<open>
  Running a call of one of the two caches on the pair of their states, and wrapping the error of
  an outcome in a message.
\<close>

definition on_dist :: "('d \<Rightarrow> 'a \<times> 'd) \<Rightarrow> 'd \<times> 'l \<Rightarrow> 'a \<times> 'd \<times> 'l" where
  "on_dist f = (\<lambda>(d, l). (case f d of (x, d') \<Rightarrow> (x, d', l)))"

definition on_local :: "('l \<Rightarrow> 'a \<times> 'l) \<Rightarrow> 'd \<times> 'l \<Rightarrow> 'a \<times> 'd \<times> 'l" where
  "on_local f = (\<lambda>(d, l). (case f l of (x, l') \<Rightarrow> (x, d, l')))"

definition proxy_Set ::
  "('d, 'l) proxy \<Rightarrow> string \<Rightarrow> bytes \<Rightarrow> duration \<Rightarrow> 'd \<times> 'l \<Rightarrow> unit outcome \<times> 'd \<times> 'l" where
  "proxy_Set p k v ttl s =
     (case on_dist (Set (distributedCache p) k v ttl) s of
        (Err err, s') \<Rightarrow> (Err (Wrapped ''failed to set distributed cache'' err), s')
      | (Panic m, s') \<Rightarrow> (Panic m, s')
      | (Ret _, s') \<Rightarrow>
          (case on_local (Set (localCacheOf p) k v ttl) s' of
             (Err err, s'') \<Rightarrow> (Err (Wrapped ''failed to set local cache'' err), s'')
           | (x, s'') \<Rightarrow> (x, s'')))"

text \<open>
  \<open>Get\<close>: the deferred function runs after the result of the distributed cache is fixed; it
  fills the local cache when the value is not empty, and an error of that write is only logged.
\<close>

definition proxy_Get ::
  "('d, 'l) proxy \<Rightarrow> string \<Rightarrow> 'd \<times> 'l \<Rightarrow> bytes outcome \<times> 'd \<times> 'l" where
  "proxy_Get p k s =
     (case on_local (Get (localCacheOf p) k) s of
        (Ret long, s') \<Rightarrow> (Ret long, s')
      | (Panic m, s') \<Rightarrow> (Panic m, s')
      | (Err err, s') \<Rightarrow>
          if \<not> errors_Is err ErrCacheMiss then (Err err, s')
          else
            (case on_dist (Get (distributedCache p) k) s' of
               (Ret long, s'') \<Rightarrow>
                 (if length long > 0 then
                    (case on_local (Set (localCacheOf p) k long (localCacheTTL p)) s'' of
                       (Panic m, s3) \<Rightarrow> (Panic m, s3)
                     | (_, s3) \<Rightarrow> (Ret long, s3))
                  else (Ret long, s''))
             | (x, s'') \<Rightarrow> (x, s'')))"

definition proxy_Del :: "('d, 'l) proxy \<Rightarrow> string \<Rightarrow> 'd \<times> 'l \<Rightarrow> unit outcome \<times> 'd \<times> 'l" where
  "proxy_Del p k s =
     (case on_dist (Del (distributedCache p) k) s of
        (Err err, s') \<Rightarrow> (Err (Wrapped ''failed to delete distributed cache'' err), s')
      | (Panic m, s') \<Rightarrow> (Panic m, s')
      | (Ret _, s') \<Rightarrow>
          (case on_local (Del (localCacheOf p) k) s' of
             (Err err, s'') \<Rightarrow> (Err (Wrapped ''failed to delete local cache'' err), s'')
           | (x, s'') \<Rightarrow> (x, s'')))"

definition proxy_Ping :: "('d, 'l) proxy \<Rightarrow> 'd \<times> 'l \<Rightarrow> unit outcome \<times> 'd \<times> 'l" where
  "proxy_Ping p s =
     (case on_dist (Ping (distributedCache p)) s of
        (Err err, s') \<Rightarrow> (Err (Wrapped ''distributed cache unreachable'' err), s')
      | (Panic m, s') \<Rightarrow> (Panic m, s')
      | (Ret _, s') \<Rightarrow>
          (case on_local (Ping (localCacheOf p)) s' of
             (Err err, s'') \<Rightarrow> (Err (Wrapped ''local cache unreachable'' err), s'')
           | (x, s'') \<Rightarrow> (x, s'')))"

definition proxy_Close :: "('d, 'l) proxy \<Rightarrow> 'd \<times> 'l \<Rightarrow> unit outcome \<times> 'd \<times> 'l" where
  "proxy_Close p s =
     (case on_dist (Close (distributedCache p)) s of
        (Ret _, s') \<Rightarrow> on_local (Close (localCacheOf p)) s'
      | (x, s') \<Rightarrow> (x, s'))"

definition proxy_iface :: "('d, 'l) proxy \<Rightarrow> ('d \<times> 'l) cache_iface" where
  "proxy_iface p =
     \<lparr>Set = proxy_Set p, Get = proxy_Get p, Del = proxy_Del p, Ping = proxy_Ping p, Close = proxy_Close p\<rparr>"

text \<open>
  \<open>newProxy\<close>: the two layers, each behind its counter. \<open>client\<close> is the redis client made for the
  configuration; a missing redis section is read through a nil pointer.
\<close>

definition newProxy ::
  "(RedisConfig \<Rightarrow> 'r redis_client) \<Rightarrow> (int \<Rightarrow> int) \<Rightarrow> (big_config \<Rightarrow> goerr + 'l bigcache \<times> 'l) \<Rightarrow>
   CacheConfig \<Rightarrow> (('r \<times> metric list, 'l \<times> metric list) proxy \<times> 'l) outcome" where
  "newProxy client intN new c =
     (case cache_LocalCache c of
        None \<Rightarrow> Panic ''nil pointer dereference''
      | Some lcfg \<Rightarrow>
          (case newLocalCache new lcfg of
             Err err \<Rightarrow> Err err
           | Panic m \<Rightarrow> Panic m
           | Ret (lc, l) \<Rightarrow>
               (case cache_Redis c of
                  None \<Rightarrow> Panic ''nil pointer dereference''
                | Some rcfg \<Rightarrow>
                    Ret (\<lparr>distributedCache = metricsCache CacheLayerDistributed (redisCache (client rcfg) intN),
                          localCacheOf = metricsCache CacheLayerLocal lc,
                          localCacheTTL = local_TTL lcfg, remoteCacheTTL = redis_TTL rcfg\<rparr>, l))))"

section \<open>The contract of a cache\<close>

text \<open>
  \<open>holds s k v\<close>: in state \<open>s\<close> the cache may answer \<open>v\<close> for the key \<open>k\<close>. A cache may forget at
  any time (lifetimes, eviction), so the contract bounds what it can answer: nothing but what was
  stored, only the newest value after a successful \<open>Set\<close>, nothing after a successful \<open>Del\<close>.
\<close>

locale cache_layer =
  fixes c :: "'s cache_iface"
    and holds :: "'s \<Rightarrow> string \<Rightarrow> bytes \<Rightarrow> bool"
  assumes get_sound: "fst (Get c k s) = Ret v \<Longrightarrow> holds s k v"
    and get_shrink: "holds (snd (Get c k s)) k' v' \<Longrightarrow> holds s k' v'"
    and set_sound: "holds (snd (Set c k v ttl s)) k' v' \<Longrightarrow> holds s k' v' \<or> k' = k \<and> v' = v"
    and set_exact: "fst (Set c k v ttl s) = Ret u \<Longrightarrow> holds (snd (Set c k v ttl s)) k v' \<Longrightarrow> v' = v"
    and del_shrink: "holds (snd (Del c k s)) k' v' \<Longrightarrow> holds s k' v'"
    and del_gone: "fst (Del c k s) = Ret u \<Longrightarrow> \<not> holds (snd (Del c k s)) k v'"
    and ping_shrink: "holds (snd (Ping c s)) k' v' \<Longrightarrow> holds s k' v'"
    and close_shrink: "holds (snd (Close c s)) k' v' \<Longrightarrow> holds s k' v'"
begin

text \<open>Lifting a property of stored values: what holds of all values held and of every value
  stored holds of every value answered.\<close>

definition all_held :: "(string \<Rightarrow> bytes \<Rightarrow> bool) \<Rightarrow> 's \<Rightarrow> bool" where
  "all_held P s \<longleftrightarrow> (\<forall>k v. holds s k v \<longrightarrow> P k v)"

lemma all_held_get: "all_held P s \<Longrightarrow> all_held P (snd (Get c k s))"
  by (auto simp: all_held_def dest: get_shrink)

lemma all_held_answer: "all_held P s \<Longrightarrow> fst (Get c k s) = Ret v \<Longrightarrow> P k v"
  by (auto simp: all_held_def dest: get_sound)

lemma all_held_set: "all_held P s \<Longrightarrow> P k v \<Longrightarrow> all_held P (snd (Set c k v ttl s))"
  by (auto simp: all_held_def dest: set_sound)

lemma all_held_del: "all_held P s \<Longrightarrow> all_held P (snd (Del c k s))"
  by (auto simp: all_held_def dest: del_shrink)

lemma get_after_del:
  "fst (Del c k s) = Ret u \<Longrightarrow> fst (Get c k (snd (Del c k s))) \<noteq> Ret v"
  using get_sound del_gone by blast

end

section \<open>What the clients promise\<close>

text \<open>
  Redis as the code uses it: \<open>stored r\<close> is the live keys. \<open>GET\<close> answers the stored value,
  \<open>SETEX\<close> replaces it, \<open>DEL\<close> removes it; keys may disappear at any call (they expire), and a
  failed write may or may not have taken effect. \<open>rand.IntN n\<close> lies below \<open>n\<close>.
\<close>

locale redis_server =
  fixes rdb :: "'r redis_client"
    and stored :: "'r \<Rightarrow> string \<rightharpoonup> bytes"
    and intN :: "int \<Rightarrow> int"
  assumes rget_sound: "fst (rdb_Get rdb k r) = Inr v \<Longrightarrow> stored r k = Some v"
    and rget_keeps: "stored (snd (rdb_Get rdb k r)) \<subseteq>\<^sub>m stored r"
    and rset_ok: "fst (rdb_SetEx rdb k v ttl r) = None \<Longrightarrow>
          stored (snd (rdb_SetEx rdb k v ttl r)) \<subseteq>\<^sub>m (stored r)(k \<mapsto> v)"
    and rset_err: "fst (rdb_SetEx rdb k v ttl r) = Some e \<Longrightarrow>
          stored (snd (rdb_SetEx rdb k v ttl r)) \<subseteq>\<^sub>m stored r \<or>
          stored (snd (rdb_SetEx rdb k v ttl r)) \<subseteq>\<^sub>m (stored r)(k \<mapsto> v)"
    and rdel_keeps: "stored (snd (rdb_Del rdb k r)) \<subseteq>\<^sub>m stored r"
    and rdel_ok: "fst (rdb_Del rdb k r) = None \<Longrightarrow> stored (snd (rdb_Del rdb k r)) k = None"
    and rping_keeps: "stored (snd (rdb_Ping rdb r)) \<subseteq>\<^sub>m stored r"
    and rclose_keeps: "stored (snd (rdb_Close rdb r)) \<subseteq>\<^sub>m stored r"
    and intN_range: "0 < n \<Longrightarrow> 0 \<le> intN n \<and> intN n < n"

text \<open>
  bigcache as the code uses it: the same, with \<open>ErrEntryNotFound\<close> from \<open>Delete\<close> for a key that is
  not there.
\<close>

locale local_store =
  fixes big :: "'l bigcache"
    and entries :: "'l \<Rightarrow> string \<rightharpoonup> bytes"
  assumes bget_sound: "fst (big_Get big k l) = Inr v \<Longrightarrow> entries l k = Some v"
    and bget_keeps: "entries (snd (big_Get big k l)) \<subseteq>\<^sub>m entries l"
    and bset_ok: "fst (big_Set big k v l) = None \<Longrightarrow>
          entries (snd (big_Set big k v l)) \<subseteq>\<^sub>m (entries l)(k \<mapsto> v)"
    and bset_err: "fst (big_Set big k v l) = Some e \<Longrightarrow>
          entries (snd (big_Set big k v l)) \<subseteq>\<^sub>m entries l \<or>
          entries (snd (big_Set big k v l)) \<subseteq>\<^sub>m (entries l)(k \<mapsto> v)"
    and bdel_keeps: "entries (snd (big_Delete big k l)) \<subseteq>\<^sub>m entries l"
    and bdel_ok: "fst (big_Delete big k l) = None \<or>
          (\<exists>e. fst (big_Delete big k l) = Some e \<and> errors_Is e ErrEntryNotFound) \<Longrightarrow>
          entries (snd (big_Delete big k l)) k = None"
    and bclose_keeps: "entries (snd (big_Close big l)) \<subseteq>\<^sub>m entries l"

section \<open>Every layer keeps the contract\<close>

lemmas iface_simps [simp] = redisCache_def localCache_def metricsCache_def proxy_iface_def

lemma map_le_SomeD: "m \<subseteq>\<^sub>m m' \<Longrightarrow> m k = Some v \<Longrightarrow> m' k = Some v"
  by (metis domI map_le_def)

lemma tdiv_10_pos: "tdiv x 10 \<le> 0 \<longleftrightarrow> x < 10"
  by (auto simp: tdiv_def sgn_if)

sublocale redis_server \<subseteq> remote: cache_layer "redisCache rdb intN" "\<lambda>r k v. stored r k = Some v"
proof
  show "fst (Get (redisCache rdb intN) k s) = Ret v \<Longrightarrow> stored s k = Some v" for k s v
    using rget_sound [of k s v]
    by (auto simp: redisCache_Get_def split: prod.splits sum.splits if_splits)
  show "stored (snd (Get (redisCache rdb intN) k s)) k' = Some v' \<Longrightarrow> stored s k' = Some v'" for k s k' v'
    using map_le_SomeD [OF rget_keeps [of k s], of k' v']
    by (auto simp: redisCache_Get_def split: prod.splits sum.splits if_splits)
  show "stored (snd (Set (redisCache rdb intN) k v ttl s)) k' = Some v' \<Longrightarrow>
      stored s k' = Some v' \<or> k' = k \<and> v' = v" for k v ttl s k' v'
    using rset_ok [of k v "int64 (ttl + intN (tdiv ttl 10))" s]
      rset_err [of k v "int64 (ttl + intN (tdiv ttl 10))" s]
    by (cases "fst (rdb_SetEx rdb k v (int64 (ttl + intN (tdiv ttl 10))) s)")
      (auto simp: redisCache_Set_def Let_def split: if_splits dest: map_le_SomeD)
  show "fst (Set (redisCache rdb intN) k v ttl s) = Ret u \<Longrightarrow>
      stored (snd (Set (redisCache rdb intN) k v ttl s)) k = Some v' \<Longrightarrow> v' = v" for k v ttl s u v'
    using rset_ok [of k v "int64 (ttl + intN (tdiv ttl 10))" s]
    by (auto simp: redisCache_Set_def Let_def split: if_splits dest: map_le_SomeD)
  show "stored (snd (Del (redisCache rdb intN) k s)) k' = Some v' \<Longrightarrow> stored s k' = Some v'" for k s k' v'
    using map_le_SomeD [OF rdel_keeps [of k s], of k' v'] by (simp add: redisCache_Del_def)
  show "fst (Del (redisCache rdb intN) k s) = Ret u \<Longrightarrow>
      stored (snd (Del (redisCache rdb intN) k s)) k \<noteq> Some v'" for k s u v'
    using rdel_ok [of k s] by (simp add: redisCache_Del_def)
  show "stored (snd (Ping (redisCache rdb intN) s)) k' = Some v' \<Longrightarrow> stored s k' = Some v'" for s k' v'
    using map_le_SomeD [OF rping_keeps [of s], of k' v'] by (simp add: redisCache_Ping_def)
  show "stored (snd (Close (redisCache rdb intN) s)) k' = Some v' \<Longrightarrow> stored s k' = Some v'" for s k' v'
    using map_le_SomeD [OF rclose_keeps [of s], of k' v'] by (simp add: redisCache_Close_def)
qed

sublocale local_store \<subseteq> near: cache_layer "localCache big" "\<lambda>l k v. entries l k = Some v"
proof
  show "fst (Get (localCache big) k s) = Ret v \<Longrightarrow> entries s k = Some v" for k s v
    using bget_sound [of k s v]
    by (auto simp: localCache_Get_def split: prod.splits sum.splits if_splits)
  show "entries (snd (Get (localCache big) k s)) k' = Some v' \<Longrightarrow> entries s k' = Some v'" for k s k' v'
    using map_le_SomeD [OF bget_keeps [of k s], of k' v']
    by (auto simp: localCache_Get_def split: prod.splits sum.splits if_splits)
  show "entries (snd (Set (localCache big) k v ttl s)) k' = Some v' \<Longrightarrow>
      entries s k' = Some v' \<or> k' = k \<and> v' = v" for k v ttl s k' v'
    using bset_ok [of k v s] bset_err [of k v s]
    by (cases "fst (big_Set big k v s)")
      (auto simp: localCache_Set_def split: if_splits dest: map_le_SomeD)
  show "fst (Set (localCache big) k v ttl s) = Ret u \<Longrightarrow>
      entries (snd (Set (localCache big) k v ttl s)) k = Some v' \<Longrightarrow> v' = v" for k v ttl s u v'
    using bset_ok [of k v s] by (auto simp: localCache_Set_def dest: map_le_SomeD)
  show "entries (snd (Del (localCache big) k s)) k' = Some v' \<Longrightarrow> entries s k' = Some v'" for k s k' v'
    using map_le_SomeD [OF bdel_keeps [of k s], of k' v']
    by (auto simp: localCache_Del_def split: prod.splits option.splits if_splits)
  show "fst (Del (localCache big) k s) = Ret u \<Longrightarrow>
      entries (snd (Del (localCache big) k s)) k \<noteq> Some v'" for k s u v'
    using bdel_ok [of k s] by (auto simp: localCache_Del_def split: prod.splits option.splits if_splits)
  show "entries (snd (Ping (localCache big) s)) k' = Some v' \<Longrightarrow> entries s k' = Some v'" for s k' v'
    by (simp add: localCache_Ping_def)
  show "entries (snd (Close (localCache big) s)) k' = Some v' \<Longrightarrow> entries s k' = Some v'" for s k' v'
    using map_le_SomeD [OF bclose_keeps [of s], of k' v'] by (simp add: localCache_Close_def)
qed

text \<open>The decorator changes no answer and no content.\<close>

lemma metricsCache_fst: "fst (Get (metricsCache layer c) k (s, m)) = fst (Get c k s)"
  by (auto simp: metricsCache_Get_def split: prod.splits outcome.splits)

lemma metricsCache_snd: "fst (snd (Get (metricsCache layer c) k (s, m))) = snd (Get c k s)"
  by (auto simp: metricsCache_Get_def split: prod.splits outcome.splits)

lemma promoted_simps [simp]:
  "fst (promoted f (s, m)) = fst (f s)"
  "fst (snd (promoted f (s, m))) = snd (f s)"
  "snd (snd (promoted f (s, m))) = m"
  by (simp_all add: promoted_def split: prod.split)

lemma metricsCache_layer:
  assumes c: "cache_layer c holds"
  shows "cache_layer (metricsCache layer c) (\<lambda>s. holds (fst s))"
proof
  have get: "fst (metricsCache_Get layer c k s) = fst (Get c k (fst s))"
    "fst (snd (metricsCache_Get layer c k s)) = snd (Get c k (fst s))" for k s
    using metricsCache_fst [of layer c k "fst s" "snd s"] metricsCache_snd [of layer c k "fst s" "snd s"]
    by simp_all
  have pr: "fst (promoted f s) = fst (f (fst s))" "fst (snd (promoted f s)) = snd (f (fst s))"
    for f :: "'a \<Rightarrow> 'x \<times> 'a" and s :: "'a \<times> metric list"
    by (cases s; simp)+
  let ?c = "metricsCache layer c"
  show "fst (Get ?c k s) = Ret v \<Longrightarrow> holds (fst s) k v" for k s v
    using cache_layer.get_sound [OF c] by (simp add: get)
  show "holds (fst (snd (Get ?c k s))) k' v' \<Longrightarrow> holds (fst s) k' v'" for k s k' v'
    using cache_layer.get_shrink [OF c] by (simp add: get)
  show "holds (fst (snd (Set ?c k v ttl s))) k' v' \<Longrightarrow> holds (fst s) k' v' \<or> k' = k \<and> v' = v"
    for k v ttl s k' v'
    using cache_layer.set_sound [OF c] by (simp add: pr)
  show "fst (Set ?c k v ttl s) = Ret u \<Longrightarrow> holds (fst (snd (Set ?c k v ttl s))) k v' \<Longrightarrow> v' = v"
    for k v ttl s u v'
    using cache_layer.set_exact [OF c] by (simp add: pr)
  show "holds (fst (snd (Del ?c k s))) k' v' \<Longrightarrow> holds (fst s) k' v'" for k s k' v'
    using cache_layer.del_shrink [OF c] by (simp add: pr)
  show "fst (Del ?c k s) = Ret u \<Longrightarrow> \<not> holds (fst (snd (Del ?c k s))) k v'" for k s u v'
    using cache_layer.del_gone [OF c] by (simp add: pr)
  show "holds (fst (snd (Ping ?c s))) k' v' \<Longrightarrow> holds (fst s) k' v'" for s k' v'
    using cache_layer.ping_shrink [OF c] by (simp add: pr)
  show "holds (fst (snd (Close ?c s))) k' v' \<Longrightarrow> holds (fst s) k' v'" for s k' v'
    using cache_layer.close_shrink [OF c] by (simp add: pr)
qed

lemma on_dist_simps [simp]:
  "fst (on_dist f s) = fst (f (fst s))"
  "snd (on_dist f s) = (snd (f (fst s)), snd s)"
  by (simp_all add: on_dist_def split: prod.split)

lemma on_local_simps [simp]:
  "fst (on_local f s) = fst (f (snd s))"
  "snd (on_local f s) = (fst s, snd (f (snd s)))"
  by (simp_all add: on_local_def split: prod.split)

lemma proxy_Get_answer:
  "fst (proxy_Get p k s) = Ret v \<Longrightarrow>
    fst (Get (localCacheOf p) k (snd s)) = Ret v \<or> fst (Get (distributedCache p) k (fst s)) = Ret v"
  by (auto simp: proxy_Get_def on_dist_def on_local_def split: outcome.splits if_splits prod.splits)

lemma proxy_Get_dist_state:
  "fst (snd (proxy_Get p k s)) = fst s \<or> fst (snd (proxy_Get p k s)) = snd (Get (distributedCache p) k (fst s))"
  by (auto simp: proxy_Get_def on_dist_def on_local_def split: outcome.splits if_splits prod.splits)

lemma proxy_Get_local_state:
  "snd (snd (proxy_Get p k s)) = snd (Get (localCacheOf p) k (snd s)) \<or>
   (\<exists>v. fst (Get (distributedCache p) k (fst s)) = Ret v \<and>
     snd (snd (proxy_Get p k s)) =
       snd (Set (localCacheOf p) k v (localCacheTTL p) (snd (Get (localCacheOf p) k (snd s)))))"
  by (auto simp: proxy_Get_def on_dist_def on_local_def split: outcome.splits if_splits prod.splits)

locale two_layers =
  d: cache_layer "distributedCache p" dholds + l: cache_layer "localCacheOf p" lholds
  for p :: "('d, 'l) proxy" and dholds and lholds

sublocale two_layers \<subseteq> both: cache_layer "proxy_iface p" "\<lambda>s k v. dholds (fst s) k v \<or> lholds (snd s) k v"
proof
  let ?c = "proxy_iface p"
  let ?h = "\<lambda>s k v. dholds (fst s) k v \<or> lholds (snd s) k v"
  show "fst (Get ?c k s) = Ret v \<Longrightarrow> ?h s k v" for k s v
    by (auto dest!: proxy_Get_answer dest: d.get_sound l.get_sound)
  show "?h (snd (Get ?c k s)) k' v' \<Longrightarrow> ?h s k' v'" for k s k' v'
    using proxy_Get_dist_state [of p k s] proxy_Get_local_state [of p k s]
      d.get_shrink [of k "fst s" k' v'] l.get_shrink [of k "snd s" k' v'] l.set_sound d.get_sound
    by (simp, metis)
  show "?h (snd (Set ?c k v ttl s)) k' v' \<Longrightarrow> ?h s k' v' \<or> k' = k \<and> v' = v" for k v ttl s k' v'
    using d.set_sound [of k v ttl "fst s" k' v'] l.set_sound [of k v ttl "snd s" k' v']
    by (auto simp: proxy_Set_def on_dist_def on_local_def split: prod.splits outcome.splits)
  show "fst (Set ?c k v ttl s) = Ret u \<Longrightarrow> ?h (snd (Set ?c k v ttl s)) k v' \<Longrightarrow> v' = v" for k v ttl s u v'
    using d.set_exact [of k v ttl "fst s" _ v'] l.set_exact [of k v ttl "snd s" _ v']
    by (auto simp: proxy_Set_def on_dist_def on_local_def split: prod.splits outcome.splits)
  show "?h (snd (Del ?c k s)) k' v' \<Longrightarrow> ?h s k' v'" for k s k' v'
    using d.del_shrink [of k "fst s" k' v'] l.del_shrink [of k "snd s" k' v']
    by (auto simp: proxy_Del_def on_dist_def on_local_def split: prod.splits outcome.splits)
  show "fst (Del ?c k s) = Ret u \<Longrightarrow> \<not> ?h (snd (Del ?c k s)) k v'" for k s u v'
    using d.del_gone [of k "fst s" _ v'] l.del_gone [of k "snd s" _ v']
    by (auto simp: proxy_Del_def on_dist_def on_local_def split: prod.splits outcome.splits)
  show "?h (snd (Ping ?c s)) k' v' \<Longrightarrow> ?h s k' v'" for s k' v'
    using d.ping_shrink [of "fst s" k' v'] l.ping_shrink [of "snd s" k' v']
    by (auto simp: proxy_Ping_def on_dist_def on_local_def split: prod.splits outcome.splits)
  show "?h (snd (Close ?c s)) k' v' \<Longrightarrow> ?h s k' v'" for s k' v'
    using d.close_shrink [of "fst s" k' v'] l.close_shrink [of "snd s" k' v']
    by (auto simp: proxy_Close_def on_dist_def on_local_def split: prod.splits outcome.splits)
qed

context two_layers begin

lemma proxy_contract:
  "cache_layer (proxy_iface p) (\<lambda>s k v. dholds (fst s) k v \<or> lholds (snd s) k v)"
  by unfold_locales

end

context redis_server begin

lemma redis_contract: "cache_layer (redisCache rdb intN) (\<lambda>r k v. stored r k = Some v)"
  by unfold_locales

end

context local_store begin

lemma local_contract: "cache_layer (localCache big) (\<lambda>l k v. entries l k = Some v)"
  by unfold_locales

end

section \<open>A model of the clients' contracts\<close>

text \<open>
  Both contracts can be met: maps that forget nothing and never fail. The witnesses of the
  properties below run on them.
\<close>

definition map_redis :: "(string \<rightharpoonup> bytes) redis_client" where
  "map_redis =
     \<lparr>rdb_Get = (\<lambda>k r. (case r k of None \<Rightarrow> Inl RedisNil | Some v \<Rightarrow> Inr v, r)),
      rdb_SetEx = (\<lambda>k v ttl r. (None, r(k \<mapsto> v))),
      rdb_Del = (\<lambda>k r. (None, r(k := None))),
      rdb_Ping = (\<lambda>r. (None, r)), rdb_Close = (\<lambda>r. (None, r))\<rparr>"

definition map_big :: "(string \<rightharpoonup> bytes) bigcache" where
  "map_big =
     \<lparr>big_Set = (\<lambda>k v l. (None, l(k \<mapsto> v))),
      big_Get = (\<lambda>k l. (case l k of None \<Rightarrow> Inl ErrEntryNotFound | Some v \<Rightarrow> Inr v, l)),
      big_Delete = (\<lambda>k l. (case l k of None \<Rightarrow> Some ErrEntryNotFound | Some v \<Rightarrow> None, l(k := None))),
      big_Close = (\<lambda>l. (None, l))\<rparr>"

definition half :: "int \<Rightarrow> int" where
  "half n = n div 2"

interpretation map_redis: redis_server map_redis "\<lambda>r. r" half
  by unfold_locales (auto simp: map_redis_def half_def map_le_def split: option.splits)

interpretation map_big: local_store map_big "\<lambda>l. l"
  by unfold_locales (auto simp: map_big_def map_le_def split: option.splits)

text \<open>
  The cache a node builds keeps the contract, when the client behind the configuration is a redis server
  and \<open>bigcache.New\<close> gives a bigcache.
\<close>

lemma newProxy_layer:
  assumes new: "newProxy client intN new c = Ret (p, l)"
    and redis: "\<And>rcfg. redis_server (client rcfg) stored intN"
    and big: "\<And>cfg b l. new cfg = Inr (b, l) \<Longrightarrow> local_store b entries"
  shows "cache_layer (proxy_iface p)
    (\<lambda>s k v. stored (fst (fst s)) k = Some v \<or> entries (fst (snd s)) k = Some v)"
proof -
  obtain rcfg b cfg where p: "distributedCache p = metricsCache CacheLayerDistributed (redisCache (client rcfg) intN)"
      "localCacheOf p = metricsCache CacheLayerLocal (localCache b)" and b: "new cfg = Inr (b, l)"
    using new by (auto simp: newProxy_def newLocalCache_def split: option.splits outcome.splits
        prod.splits sum.splits if_splits)
  have "cache_layer (distributedCache p) (\<lambda>s k v. stored (fst s) k = Some v)"
    unfolding p by (rule metricsCache_layer [OF redis_server.redis_contract [OF redis]])
  moreover have "cache_layer (localCacheOf p) (\<lambda>s k v. entries (fst s) k = Some v)"
    unfolding p by (rule metricsCache_layer [OF local_store.local_contract [OF big [OF b]]])
  ultimately have "two_layers p (\<lambda>s k v. stored (fst s) k = Some v) (\<lambda>s k v. entries (fst s) k = Some v)"
    by (rule two_layers.intro)
  then show ?thesis by (rule two_layers.proxy_contract)
qed

definition example_cache_config :: CacheConfig where
  "example_cache_config =
     \<lparr>cache_Redis = Some \<lparr>redis_Addr = [''redis:6379''], redis_DialTimeout = 5 * Second, redis_MaxConn = 25,
        redis_TTL = 1800 * Second\<rparr>,
      cache_LocalCache = Some \<lparr>local_TTL = 600 * Second, local_Capacity = 1000000, local_MaxMemory = 512\<rparr>\<rparr>"

declare example_cache_config_def [example_eval]

section \<open>Properties\<close>

text \<open>
  C16. After a successful \<open>Del\<close> of a key, a \<open>Get\<close> of that key through the same proxy answers no
  value, over any two caches that keep the contract.
\<close>

theorem proxy_get_after_del:
  assumes "cache_layer (distributedCache p) dholds" "cache_layer (localCacheOf p) lholds"
    and "fst (proxy_Del p k s) = Ret ()"
  shows "fst (proxy_Get p k (snd (proxy_Del p k s))) \<noteq> Ret v"
  using cache_layer.get_after_del [OF two_layers.proxy_contract [OF two_layers.intro [OF assms(1,2)]], of k s]
    assms(3) by simp

definition map_proxy :: "(string \<rightharpoonup> bytes, string \<rightharpoonup> bytes) proxy" where
  "map_proxy = \<lparr>distributedCache = redisCache map_redis half, localCacheOf = localCache map_big,
     localCacheTTL = 600 * Second, remoteCacheTTL = 1800 * Second\<rparr>"

theorem proxy_get_after_del_witness:
  "fst (proxy_Get map_proxy ''24rgcX'' ([''24rgcX'' \<mapsto> ''u''], [''24rgcX'' \<mapsto> ''u''])) = Ret ''u'' \<and>
   fst (proxy_Get map_proxy ''24rgcX''
     (snd (proxy_Del map_proxy ''24rgcX'' ([''24rgcX'' \<mapsto> ''u''], [''24rgcX'' \<mapsto> ''u''])))) \<noteq> Ret ''u''"
proof -
  let ?s = "([''24rgcX'' \<mapsto> ''u''], [''24rgcX'' \<mapsto> ''u''])"
  have "fst (proxy_Del map_proxy ''24rgcX'' ?s) = Ret ()"
    by (simp add: proxy_Del_def map_proxy_def on_dist_def on_local_def redisCache_Del_def
        localCache_Del_def map_redis_def map_big_def)
  moreover have "fst (proxy_Get map_proxy ''24rgcX'' ?s) = Ret ''u''"
    by (simp add: proxy_Get_def map_proxy_def on_local_def localCache_Get_def map_big_def)
  ultimately show ?thesis
    using proxy_get_after_del [of map_proxy "\<lambda>r k v. r k = Some v" "\<lambda>r k v. r k = Some v" "''24rgcX''" ?s "''u''"]
      map_redis.redis_contract map_big.local_contract
    by (simp add: map_proxy_def)
qed

text \<open>
  The jitter of the redis layer: \<open>Set\<close> panics exactly for a lifetime under ten nanoseconds
  (zero and negative ones included) and then writes nothing; otherwise the lifetime it hands to
  \<open>SETEX\<close> is the requested one plus less than a tenth of it.
\<close>

lemma redisCache_Set_jitter:
  assumes "\<And>n. 0 < n \<Longrightarrow> 0 \<le> intN n \<and> intN n < n"
  shows "((\<exists>m. fst (redisCache_Set rdb intN k v ttl r) = Panic m) \<longleftrightarrow> ttl < 10) \<and>
    (ttl < 10 \<longrightarrow> snd (redisCache_Set rdb intN k v ttl r) = r) \<and>
    (10 \<le> ttl \<and> ttl < 2 ^ 62 \<longrightarrow>
      (\<exists>t. ttl \<le> t \<and> t < ttl + ttl div 10 \<and>
        redisCache_Set rdb intN k v ttl r = apfst err_outcome (rdb_SetEx rdb k v t r)))"
proof (intro conjI impI)
  show "(\<exists>m. fst (redisCache_Set rdb intN k v ttl r) = Panic m) \<longleftrightarrow> ttl < 10"
    by (simp add: redisCache_Set_def Let_def tdiv_10_pos)
  show "ttl < 10 \<Longrightarrow> snd (redisCache_Set rdb intN k v ttl r) = r"
    by (simp add: redisCache_Set_def Let_def tdiv_10_pos)
  assume "10 \<le> ttl \<and> ttl < 2 ^ 62"
  then have ttl: "10 \<le> ttl" "ttl < 2 ^ 62" by simp_all
  have div: "tdiv ttl 10 = ttl div 10" using ttl by (simp add: tdiv_def)
  have "0 \<le> intN (ttl div 10) \<and> intN (ttl div 10) < ttl div 10" using assms ttl by simp
  moreover from this have "int64_range (ttl + intN (ttl div 10))"
    using ttl by (simp add: int64_range_def) presburger
  ultimately show "\<exists>t. ttl \<le> t \<and> t < ttl + ttl div 10 \<and>
      redisCache_Set rdb intN k v ttl r = apfst err_outcome (rdb_SetEx rdb k v t r)"
    using ttl by (intro exI [of _ "ttl + intN (ttl div 10)"]) (simp add: redisCache_Set_def Let_def div)
qed

lemma redisCache_Set_jitter_witness:
  "(\<exists>m. fst (redisCache_Set map_redis half ''k'' ''v'' (-5) Map.empty) = Panic m) \<and>
   (\<exists>t. 600 \<le> t \<and> t < 660 \<and>
     redisCache_Set map_redis half ''k'' ''v'' 600 Map.empty =
       apfst err_outcome (rdb_SetEx map_redis ''k'' ''v'' t Map.empty))"
  using redisCache_Set_jitter [OF map_redis.intN_range, of map_redis "''k''" "''v''" "-5" Map.empty]
    redisCache_Set_jitter [OF map_redis.intN_range, of map_redis "''k''" "''v''" 600 Map.empty]
  by simp

text \<open>
  The counters of a layer: a lookup through \<open>metricsCache\<close> has the result of the wrapped
  cache and reports exactly one outcome, a hit for a value, a miss for \<open>ErrCacheMiss\<close> (wrapped or
  not), and nothing when the backend fails; the other methods report nothing.
\<close>

lemma metricsCache_counts:
  "fst (Get (metricsCache layer c) k (s, m)) = fst (Get c k s) \<and>
   fst (snd (Get (metricsCache layer c) k (s, m))) = snd (Get c k s) \<and>
   snd (snd (Get (metricsCache layer c) k (s, m))) =
     m @ (case fst (Get c k s) of
            Ret v \<Rightarrow> [CacheRequest layer ''hit'']
          | Err e \<Rightarrow> if errors_Is e ErrCacheMiss then [CacheRequest layer ''miss''] else []
          | Panic _ \<Rightarrow> []) \<and>
   snd (snd (Set (metricsCache layer c) k v ttl (s, m))) = m \<and>
   snd (snd (Del (metricsCache layer c) k (s, m))) = m"
  by (simp add: metricsCache_Get_def RecordCacheResult_def split: prod.split outcome.split)

text \<open>
  Read-through: over a local cache that answers what it was given, a value the proxy answered
  is answered again by the next \<open>Get\<close> of that key, whatever the distributed cache does in between.
\<close>

lemma proxy_Get_fills_local:
  assumes keeps: "\<And>k v ttl s. fst (Set (localCacheOf p) k v ttl s) = Ret () \<and>
        fst (Get (localCacheOf p) k (snd (Set (localCacheOf p) k v ttl s))) = Ret v"
    and stable: "\<And>k v s. fst (Get (localCacheOf p) k s) = Ret v \<Longrightarrow>
        fst (Get (localCacheOf p) k (snd (Get (localCacheOf p) k s))) = Ret v"
    and answer: "fst (proxy_Get p k s) = Ret v" and "v \<noteq> []"
  shows "fst (proxy_Get p k (d', snd (snd (proxy_Get p k s)))) = Ret v"
proof -
  have "fst (Get (localCacheOf p) k (snd (snd (proxy_Get p k s)))) = Ret v"
  proof (cases "fst (Get (localCacheOf p) k (snd s)) = Ret v")
    case True
    then have "snd (snd (proxy_Get p k s)) = snd (Get (localCacheOf p) k (snd s))"
      by (auto simp: proxy_Get_def on_local_def split: prod.splits)
    then show ?thesis using stable [OF True] by simp
  next
    case False
    then have "snd (snd (proxy_Get p k s)) =
        snd (Set (localCacheOf p) k v (localCacheTTL p) (snd (Get (localCacheOf p) k (snd s))))"
      using answer \<open>v \<noteq> []\<close>
      by (auto simp: proxy_Get_def on_local_def on_dist_def split: prod.splits outcome.splits if_splits)
    then show ?thesis using keeps by simp
  qed
  then show ?thesis by (auto simp: proxy_Get_def on_local_def split: prod.splits)
qed

lemma proxy_Get_fills_local_witness:
  "fst (proxy_Get map_proxy ''k'' ([''k'' \<mapsto> ''v''], Map.empty)) = Ret ''v'' \<and>
   fst (proxy_Get map_proxy ''k'' (Map.empty, snd (snd (proxy_Get map_proxy ''k'' ([''k'' \<mapsto> ''v''], Map.empty))))) =
     Ret ''v''"
proof -
  have a: "fst (proxy_Get map_proxy ''k'' ([''k'' \<mapsto> ''v''], Map.empty)) = Ret ''v''"
    by (simp add: proxy_Get_def map_proxy_def on_local_def on_dist_def localCache_Get_def
        redisCache_Get_def localCache_Set_def map_redis_def map_big_def)
  have "fst (proxy_Get map_proxy ''k'' (Map.empty, snd (snd (proxy_Get map_proxy ''k'' ([''k'' \<mapsto> ''v''], Map.empty))))) =
     Ret ''v''"
    by (rule proxy_Get_fills_local [OF _ _ a])
      (auto simp: map_proxy_def localCache_Get_def localCache_Set_def map_big_def split: option.splits)
  with a show ?thesis by simp
qed

text \<open>
  The redis section is not optional although its field carries no \<open>required\<close> tag: for a
  configuration that \<open>Validate\<close> accepts, building the cache reads through a nil pointer exactly when
  the local cache could be made and the redis section is missing.
\<close>

lemma newProxy_missing_redis:
  assumes "required_pointers Struct" "Validate Struct c = Ret ()"
  shows "\<exists>k lcfg. Cache c = Some k \<and> cache_LocalCache k = Some lcfg \<and>
    ((\<exists>m. newProxy client intN new k = Panic m) \<longleftrightarrow>
      (\<exists>x. newLocalCache new lcfg = Ret x) \<and> cache_Redis k = None)"
proof -
  have "Struct c = None" using assms(2) by (auto simp: Validate_def split: option.splits)
  then obtain k lcfg where k: "Cache c = Some k" "cache_LocalCache k = Some lcfg"
    using assms(1) unfolding required_pointers_def by blast
  moreover have "newLocalCache new lcfg \<noteq> Panic m" for m
    by (auto simp: newLocalCache_def split: sum.splits)
  ultimately show ?thesis
    by (auto simp: newProxy_def split: outcome.splits option.splits)
qed

lemma newProxy_missing_redis_witness:
  "Validate (tag_check (\<lambda>_. True)) example_config = Ret () \<and>
   (\<exists>k m. Cache example_config = Some k \<and>
      newProxy (\<lambda>_. map_redis) half (\<lambda>_. Inr (map_big, Map.empty)) k = Panic m)"
proof -
  have ok: "Validate (tag_check (\<lambda>_. True)) example_config = Ret ()"
    by (simp add: example_eval)
  show ?thesis
    using ok newProxy_missing_redis [OF tag_check_required [of "\<lambda>_. True"] ok, of "\<lambda>_. map_redis" half "\<lambda>_. Inr (map_big, Map.empty)"]
    by (auto simp: newLocalCache_def example_config_def example_local_config_def)
qed

section \<open>What the counters of a proxy show\<close>

text \<open>Calls on a proxy one after the other, with the answers of those that are lookups.\<close>

datatype cache_call = GetCall string | SetCall string bytes duration | DelCall string | PingCall

fun proxy_calls :: "('d, 'l) proxy \<Rightarrow> cache_call list \<Rightarrow> 'd \<times> 'l \<Rightarrow> bytes outcome list \<times> 'd \<times> 'l" where
  "proxy_calls p [] s = ([], s)"
| "proxy_calls p (GetCall k # cs) s = (case proxy_Get p k s of (x, s') \<Rightarrow> apfst (Cons x) (proxy_calls p cs s'))"
| "proxy_calls p (SetCall k v ttl # cs) s = proxy_calls p cs (snd (proxy_Set p k v ttl s))"
| "proxy_calls p (DelCall k # cs) s = proxy_calls p cs (snd (proxy_Del p k s))"
| "proxy_calls p (PingCall # cs) s = proxy_calls p cs (snd (proxy_Ping p s))"

fun is_value :: "bytes outcome \<Rightarrow> bool" where
  "is_value (Ret _) = True"
| "is_value _ = False"

fun is_miss :: "bytes outcome \<Rightarrow> bool" where
  "is_miss (Err e) = errors_Is e ErrCacheMiss"
| "is_miss _ = False"

text \<open>The layers of a proxy as \<open>newProxy\<close> builds it, and what each method does to the two lists of reports.\<close>

lemma newProxy_layers:
  assumes "newProxy client intN new c = Ret (p, l)"
  obtains rcfg b where "distributedCache p = metricsCache CacheLayerDistributed (redisCache (client rcfg) intN)"
    "localCacheOf p = metricsCache CacheLayerLocal (localCache b)"
  using assms by (auto simp: newProxy_def newLocalCache_def split: option.splits outcome.splits prod.splits sum.splits if_splits)

lemma proxy_others_silent:
  assumes "distributedCache p = metricsCache ld dc" "localCacheOf p = metricsCache ll lc"
  shows "snd (fst (snd (proxy_Set p k v ttl s))) = snd (fst s)" "snd (snd (snd (proxy_Set p k v ttl s))) = snd (snd s)"
    "snd (fst (snd (proxy_Del p k s))) = snd (fst s)" "snd (snd (snd (proxy_Del p k s))) = snd (snd s)"
    "snd (fst (snd (proxy_Ping p s))) = snd (fst s)" "snd (snd (snd (proxy_Ping p s))) = snd (snd s)"
  using assms
  by (cases s; auto simp: proxy_Set_def proxy_Del_def proxy_Ping_def on_dist_def on_local_def promoted_def split: prod.splits outcome.splits)+

abbreviation local_report :: "string \<Rightarrow> metric" where
  "local_report \<equiv> CacheRequest ''local''"

abbreviation distributed_report :: "string \<Rightarrow> metric" where
  "distributed_report \<equiv> CacheRequest ''distributed''"

lemma proxy_Get_reports:
  assumes p: "distributedCache p = metricsCache CacheLayerDistributed (redisCache rdb intN)"
      "localCacheOf p = metricsCache CacheLayerLocal (localCache b)"
    and get: "proxy_Get p k ((r, md), (l, ml)) = (x, (r', md'), (l', ml'))"
  obtains (near) v where "x = Ret v" "md' = md" "ml' = ml @ [local_report ''hit'']"
    | (far) v where "x = Ret v" "md' = md @ [distributed_report ''hit'']" "ml' = ml @ [local_report ''miss'']"
    | (nowhere) e where "x = Err e" "errors_Is e ErrCacheMiss" "md' = md @ [distributed_report ''miss'']" "ml' = ml @ [local_report ''miss'']"
    | (failed) e where "x = Err e" "\<not> errors_Is e ErrCacheMiss" "md' = md" "ml' = ml \<or> ml' = ml @ [local_report ''miss'']"
proof -
  obtain y l1 where y: "big_Get b k l = (y, l1)" by (metis prod.exhaust)
  obtain z r1 where z: "rdb_Get rdb k r = (z, r1)" by (metis prod.exhaust)
  note defs = proxy_Get_def p on_dist_def on_local_def metricsCache_Get_def localCache_Get_def redisCache_Get_def RecordCacheResult_def
    CacheLayerLocal_def CacheLayerDistributed_def
  show ?thesis
  proof (cases "\<exists>e. y = Inl e \<and> (errors_Is e ErrEntryNotFound \<or> errors_Is e ErrCacheMiss)")
    case True
    then obtain e where e: "y = Inl e" "errors_Is e ErrEntryNotFound \<or> errors_Is e ErrCacheMiss" by blast
    show ?thesis
    proof (cases z)
      case (Inl f)
      then show ?thesis using get y e z nowhere failed by (auto simp: defs split: if_splits)
    next
      case (Inr v)
      obtain u l2 where "localCache_Set b k v (localCacheTTL p) l1 = (u, l2)" "\<And>m. u \<noteq> Panic m"
        by (cases "big_Set b k v l1") (simp add: localCache_Set_def)
      then show ?thesis using get y e z Inr far
        by (cases u) (auto simp: defs promoted_def split: if_splits)
    qed
  next
    case False
    then show ?thesis using get y near failed by (cases y) (auto simp: defs split: if_splits)
  qed
qed

text \<open>What the reports of the two layers say of the answers.\<close>

definition accounted :: "bytes outcome list \<Rightarrow> metric list \<Rightarrow> metric list \<Rightarrow> bool" where
  "accounted xs ds ls \<longleftrightarrow>
     set ls \<subseteq> {local_report ''hit'', local_report ''miss''} \<and> set ds \<subseteq> {distributed_report ''hit'', distributed_report ''miss''} \<and>
     length (filter is_value xs) = count_list ls (local_report ''hit'') + count_list ds (distributed_report ''hit'') \<and>
     length (filter is_miss xs) = count_list ds (distributed_report ''miss'') \<and>
     length ds \<le> count_list ls (local_report ''miss'') \<and>
     count_list ls (local_report ''miss'') \<le> length ds + length (filter (\<lambda>x. \<not> is_value x \<and> \<not> is_miss x) xs)"

lemma proxy_Get_accounted:
  assumes p: "distributedCache p = metricsCache CacheLayerDistributed (redisCache rdb intN)"
      "localCacheOf p = metricsCache CacheLayerLocal (localCache b)"
    and get: "proxy_Get p k ((r, md), (l, ml)) = (x, (r', md'), (l', ml'))" and rest: "accounted xs ds ls"
  shows "\<exists>d n. md' = md @ d \<and> ml' = ml @ n \<and> accounted (x # xs) (d @ ds) (n @ ls)"
  using p get
proof (cases rule: proxy_Get_reports)
  case (failed e)
  from failed(4) show ?thesis
  proof
    assume "ml' = ml"
    then show ?thesis using failed rest by (intro exI [of _ "[]"]) (simp add: accounted_def)
  next
    assume "ml' = ml @ [local_report ''miss'']"
    then show ?thesis using failed rest by (intro exI [of _ "[]"] exI [of _ "[local_report ''miss'']"]) (simp add: accounted_def)
  qed
qed (use rest in \<open>auto simp: accounted_def\<close>)

lemma proxy_calls_accounted:
  assumes p: "distributedCache p = metricsCache CacheLayerDistributed (redisCache rdb intN)"
      "localCacheOf p = metricsCache CacheLayerLocal (localCache b)"
    and run: "proxy_calls p calls s = (xs, s')"
  shows "\<exists>ds ls. snd (fst s') = snd (fst s) @ ds \<and> snd (snd s') = snd (snd s) @ ls \<and> accounted xs ds ls"
  using run
proof (induction calls arbitrary: s xs)
  case Nil
  then show ?case by (simp add: accounted_def)
next
  case (Cons call calls)
  show ?case
  proof (cases call)
    case (GetCall k)
    obtain x s1 where x: "proxy_Get p k s = (x, s1)" by (metis prod.exhaust)
    obtain ys where ys: "proxy_calls p calls s1 = (ys, s')" "xs = x # ys"
      using Cons.prems GetCall x by (cases "proxy_calls p calls s1") auto
    obtain ds ls where IH: "snd (fst s') = snd (fst s1) @ ds" "snd (snd s') = snd (snd s1) @ ls" "accounted ys ds ls"
      using Cons.IH [OF ys(1)] by blast
    have "\<exists>d n. snd (fst s1) = snd (fst s) @ d \<and> snd (snd s1) = snd (snd s) @ n \<and> accounted (x # ys) (d @ ds) (n @ ls)"
      using x by (intro proxy_Get_accounted [OF p _ IH(3), of k "fst (fst s)" _ "fst (snd s)" _ _ "fst (fst s1)" _ "fst (snd s1)"]) simp
    then show ?thesis using IH(1,2) ys(2) by auto
  next
    case (SetCall k v ttl)
    then show ?thesis using Cons.IH [of "snd (proxy_Set p k v ttl s)" xs] Cons.prems proxy_others_silent(1,2) [OF p] by simp
  next
    case (DelCall k)
    then show ?thesis using Cons.IH [of "snd (proxy_Del p k s)" xs] Cons.prems proxy_others_silent(3,4) [OF p] by simp
  next
    case PingCall
    then show ?thesis using Cons.IH [of "snd (proxy_Ping p s)" xs] Cons.prems proxy_others_silent(5,6) [OF p] by simp
  qed
qed

text \<open>
  C40. The cache counters account for every lookup: through a proxy as \<open>newProxy\<close> builds it, over any redis client and any bigcache and
  from any state, make any calls of \<open>Get\<close>, \<open>Set\<close>, \<open>Del\<close> and \<open>Ping\<close>. Only the lookups report, the local layer under the label \<open>local\<close> and redis under
  \<open>distributed\<close>, each with \<open>hit\<close> or \<open>miss\<close>. The lookups that were answered with a value are as many as the hits of the two layers together; those
  answered with \<open>ErrCacheMiss\<close> are the misses of redis; redis is asked at most once for each local miss, and it reports for
  each of them but those whose lookup failed with another error. A value found in redis does not count as a local hit when it is written to the local cache.
\<close>

theorem cache_lookups_counted:
  assumes "newProxy client intN new c = Ret (p, l0)"
    and "proxy_calls p calls ((r, md), (l, ml)) = (xs, (r', md'), (l', ml'))"
  shows "\<exists>ds ls. md' = md @ ds \<and> ml' = ml @ ls \<and>
    set ls \<subseteq> {CacheRequest ''local'' ''hit'', CacheRequest ''local'' ''miss''} \<and>
    set ds \<subseteq> {CacheRequest ''distributed'' ''hit'', CacheRequest ''distributed'' ''miss''} \<and>
    length (filter is_value xs) = count_list ls (CacheRequest ''local'' ''hit'') + count_list ds (CacheRequest ''distributed'' ''hit'') \<and>
    length (filter is_miss xs) = count_list ds (CacheRequest ''distributed'' ''miss'') \<and>
    length ds \<le> count_list ls (CacheRequest ''local'' ''miss'') \<and>
    count_list ls (CacheRequest ''local'' ''miss'') \<le> length ds + length (filter (\<lambda>x. \<not> is_value x \<and> \<not> is_miss x) xs)"
proof -
  obtain rcfg b where p: "distributedCache p = metricsCache CacheLayerDistributed (redisCache (client rcfg) intN)"
    "localCacheOf p = metricsCache CacheLayerLocal (localCache b)" by (rule newProxy_layers [OF assms(1)])
  show ?thesis using proxy_calls_accounted [OF p assms(2)] unfolding accounted_def by simp
qed

theorem cache_lookups_counted_witness:
  "\<exists>p l xs r' md' l' ml'. newProxy (\<lambda>_. map_redis) half (\<lambda>_. Inr (map_big, Map.empty)) example_cache_config = Ret (p, l) \<and>
    proxy_calls p [GetCall ''k'', SetCall ''k'' ''v'' Second, GetCall ''k''] ((Map.empty, []), (l, [])) = (xs, (r', md'), (l', ml')) \<and>
    length (filter is_value xs) = 1 \<and> count_list ml' (CacheRequest ''local'' ''hit'') + count_list md' (CacheRequest ''distributed'' ''hit'') = 1 \<and>
    count_list md' (CacheRequest ''distributed'' ''miss'') = 1"
proof -
  let ?calls = "[GetCall ''k'', SetCall ''k'' ''v'' Second, GetCall ''k'']"
  obtain p l where p: "newProxy (\<lambda>_. map_redis) half (\<lambda>_. Inr (map_big, Map.empty)) example_cache_config = Ret (p, l)"
    and q: "distributedCache p = metricsCache CacheLayerDistributed (redisCache map_redis half)"
      "localCacheOf p = metricsCache CacheLayerLocal (localCache map_big)" "l = Map.empty"
    by (simp add: newProxy_def newLocalCache_def example_cache_config_def)
  obtain xs r' md' l' ml' where run: "proxy_calls p ?calls ((Map.empty, []), (l, [])) = (xs, (r', md'), (l', ml'))" by (metis prod.exhaust)
  have "xs = [Err ErrCacheMiss, Ret ''v'']"
    using run
    by (simp add: q proxy_Get_def proxy_Set_def on_dist_def on_local_def metricsCache_Get_def promoted_def localCache_Get_def localCache_Set_def
        redisCache_Get_def redisCache_Set_def map_redis_def map_big_def tdiv_def Second_def Let_def)
  then show ?thesis using p run cache_lookups_counted [OF p run] by auto
qed

end
