(* ===== verification/Storage.thy ===== *)
theory Storage
  imports Turl_Prelude "HOL-Library.Sublist"
begin

text \<open>
  The package \<open>storage\<close> (\<open>pkg/storage/storage.go\<close>). The gorm handle on the table \<open>tiny_urls\<close> is
  a parameter: a record of the calls the code makes over a state of any type. The chains
  \<open>Unscoped().Where(...).Limit(n)\<close> are data (\<open>stmt\<close>), so a definition shows the very query the
  code sends. What gorm and MySQL promise about a table is the locale \<open>tiny_urls_table\<close>; what the
  package promises its clients is the locale \<open>link_store\<close>, and the first gives the second.
\<close>

section \<open>Records, statements and the database handle\<close>

record TinyURL =
  ID :: uint64
  CreatedAt :: time
  UpdatedAt :: time
  DeletedAt :: "time option"
  LongURL :: bytes
  Short :: uint64
  ExpiresAt :: "time option"

text \<open>
  The conditions of the package: \<open>short = ?\<close>, \<open>long_url = ?\<close>, and
  \<open>expires_at IS NOT NULL AND expires_at < ?\<close>.
\<close>

datatype cond = ShortIs uint64 | LongURLIs bytes | ExpiredBefore time

record stmt =
  stmt_unscoped :: bool
  stmt_conds :: "cond list"
  stmt_limit :: "int option"

definition WithContext :: stmt where
  "WithContext = \<lparr>stmt_unscoped = False, stmt_conds = [], stmt_limit = None\<rparr>"

definition Unscoped :: "stmt \<Rightarrow> stmt" where
  "Unscoped q = q\<lparr>stmt_unscoped := True\<rparr>"

definition Where :: "cond \<Rightarrow> stmt \<Rightarrow> stmt" where
  "Where c q = q\<lparr>stmt_conds := stmt_conds q @ [c]\<rparr>"

definition Limit :: "int \<Rightarrow> stmt \<Rightarrow> stmt" where
  "Limit n q = q\<lparr>stmt_limit := Some n\<rparr>"

record 'd gorm =
  gorm_Create :: "TinyURL \<Rightarrow> 'd \<Rightarrow> (goerr + TinyURL) \<times> 'd"
  gorm_Take :: "stmt \<Rightarrow> 'd \<Rightarrow> (goerr + TinyURL) \<times> 'd"
  gorm_Delete :: "stmt \<Rightarrow> 'd \<Rightarrow> (int \<times> goerr option) \<times> 'd"
  gorm_DB :: "'d \<Rightarrow> goerr option"
  gorm_PingContext :: "'d \<Rightarrow> goerr option \<times> 'd"

section \<open>Operations\<close>

definition zero_TinyURL :: TinyURL where
  "zero_TinyURL = \<lparr>ID = 0, CreatedAt = 0, UpdatedAt = 0, DeletedAt = None, LongURL = [], Short = 0,
     ExpiresAt = None\<rparr>"

definition storage_Insert ::
  "'d gorm \<Rightarrow> uint64 \<Rightarrow> bytes \<Rightarrow> time option \<Rightarrow> 'd \<Rightarrow> TinyURL outcome \<times> 'd" where
  "storage_Insert db short long expiresAt d =
     (let t = zero_TinyURL\<lparr>Short := short, LongURL := long, ExpiresAt := expiresAt\<rparr> in
      (case gorm_Create db t d of
         (Inl err, d') \<Rightarrow> (Err err, d')
       | (Inr t, d') \<Rightarrow> (Ret t, d')))"

definition storage_GetByShortID :: "'d gorm \<Rightarrow> uint64 \<Rightarrow> 'd \<Rightarrow> TinyURL outcome \<times> 'd" where
  "storage_GetByShortID db short d =
     (case gorm_Take db (Where (ShortIs short) WithContext) d of
        (Inl err, d') \<Rightarrow> (Err err, d')
      | (Inr t, d') \<Rightarrow> (Ret t, d'))"

definition storage_GetByLongURL :: "'d gorm \<Rightarrow> bytes \<Rightarrow> 'd \<Rightarrow> TinyURL outcome \<times> 'd" where
  "storage_GetByLongURL db long d =
     (case gorm_Take db (Where (LongURLIs long) WithContext) d of
        (Inl err, d') \<Rightarrow> (Err err, d')
      | (Inr t, d') \<Rightarrow> (Ret t, d'))"

definition storage_Delete :: "'d gorm \<Rightarrow> uint64 \<Rightarrow> 'd \<Rightarrow> unit outcome \<times> 'd" where
  "storage_Delete db short d =
     (case gorm_Delete db (Where (ShortIs short) WithContext) d of
        ((rowsAffected, Some err), d') \<Rightarrow> (Err err, d')
      | ((rowsAffected, None), d') \<Rightarrow>
          (if rowsAffected = 0 then (Err ErrRecordNotFound, d') else (Ret (), d')))"

definition storage_DeleteExpired ::
  "'d gorm \<Rightarrow> time \<Rightarrow> int \<Rightarrow> 'd \<Rightarrow> (int \<times> goerr option) \<times> 'd" where
  "storage_DeleteExpired db now limit d =
     gorm_Delete db (Limit limit (Where (ExpiredBefore now) (Unscoped WithContext))) d"

definition storage_Ping :: "'d gorm \<Rightarrow> 'd \<Rightarrow> unit outcome \<times> 'd" where
  "storage_Ping db d =
     (case gorm_DB db d of
        Some err \<Rightarrow> (Err err, d)
      | None \<Rightarrow> apfst err_outcome (gorm_PingContext db d))"

definition storage_Close :: "'d \<Rightarrow> unit outcome \<times> 'd" where
  "storage_Close d = (Ret (), d)"

text \<open>The interface \<open>Storage\<close>, as its clients hold it.\<close>

record 'd storage_iface =
  Insert :: "uint64 \<Rightarrow> bytes \<Rightarrow> time option \<Rightarrow> 'd \<Rightarrow> TinyURL outcome \<times> 'd"
  GetByLongURL :: "bytes \<Rightarrow> 'd \<Rightarrow> TinyURL outcome \<times> 'd"
  GetByShortID :: "uint64 \<Rightarrow> 'd \<Rightarrow> TinyURL outcome \<times> 'd"
  Delete :: "uint64 \<Rightarrow> 'd \<Rightarrow> unit outcome \<times> 'd"
  DeleteExpired :: "time \<Rightarrow> int \<Rightarrow> 'd \<Rightarrow> (int \<times> goerr option) \<times> 'd"
  PingDB :: "'d \<Rightarrow> unit outcome \<times> 'd"
  CloseDB :: "'d \<Rightarrow> unit outcome \<times> 'd"

definition TableName :: string where
  "TableName = ''tiny_urls''"

definition newStorage :: "'d gorm \<Rightarrow> 'd storage_iface" where
  "newStorage db =
     \<lparr>Insert = storage_Insert db, GetByLongURL = storage_GetByLongURL db,
      GetByShortID = storage_GetByShortID db, Delete = storage_Delete db,
      DeleteExpired = storage_DeleteExpired db, PingDB = storage_Ping db, CloseDB = storage_Close\<rparr>"

section \<open>The meaning of a statement\<close>

text \<open>
  \<open>coll\<close> is the equality of the column \<open>long_url\<close> (its collation), \<open>colt\<close> what a datetime column
  makes of a time (its precision). A statement that is not unscoped sees only rows that are not
  soft-deleted.
\<close>

primrec cond_holds :: "(bytes \<Rightarrow> bytes \<Rightarrow> bool) \<Rightarrow> cond \<Rightarrow> TinyURL \<Rightarrow> bool" where
  "cond_holds coll (ShortIs s) t \<longleftrightarrow> Short t = s"
| "cond_holds coll (LongURLIs l) t \<longleftrightarrow> coll (LongURL t) l"
| "cond_holds coll (ExpiredBefore now) t \<longleftrightarrow> (case ExpiresAt t of None \<Rightarrow> False | Some e \<Rightarrow> e < now)"

definition matches :: "(bytes \<Rightarrow> bytes \<Rightarrow> bool) \<Rightarrow> stmt \<Rightarrow> TinyURL \<Rightarrow> bool" where
  "matches coll q t \<longleftrightarrow>
     (stmt_unscoped q \<or> DeletedAt t = None) \<and> (\<forall>c\<in>set (stmt_conds q). cond_holds coll c t)"

definition column :: "(time \<Rightarrow> time) \<Rightarrow> TinyURL \<Rightarrow> TinyURL" where
  "column colt t = t\<lparr>ExpiresAt := map_option colt (ExpiresAt t)\<rparr>"

definition soft_delete :: "(TinyURL \<Rightarrow> bool) \<Rightarrow> time \<Rightarrow> TinyURL list \<Rightarrow> TinyURL list" where
  "soft_delete P w rs = map (\<lambda>t. if P t then t\<lparr>DeletedAt := Some w\<rparr> else t) rs"

text \<open>The two unique indexes: no two rows, deleted or not, share a short id or a long URL.\<close>

definition conflict :: "(bytes \<Rightarrow> bytes \<Rightarrow> bool) \<Rightarrow> TinyURL \<Rightarrow> TinyURL \<Rightarrow> bool" where
  "conflict coll t u \<longleftrightarrow> Short t = Short u \<or> coll (LongURL t) (LongURL u)"

definition unique_indexes :: "(bytes \<Rightarrow> bytes \<Rightarrow> bool) \<Rightarrow> TinyURL list \<Rightarrow> bool" where
  "unique_indexes coll rs \<longleftrightarrow> sorted_wrt (\<lambda>t u. \<not> conflict coll t u) rs"

text \<open>
  gorm on MySQL: \<open>Take\<close> returns a row that matches, and \<open>ErrRecordNotFound\<close> only when none does;
  \<open>Create\<close> adds a row in conflict with none, and reports \<open>ErrDuplicatedKey\<close> only for a conflict;
  \<open>Delete\<close> marks the matching rows, or removes at most \<open>limit\<close> of them when unscoped, and
  counts them. A call that fails otherwise may or may not have taken effect.
\<close>

locale tiny_urls_table =
  fixes db :: "'d gorm"
    and rows :: "'d \<Rightarrow> TinyURL list"
    and coll :: "bytes \<Rightarrow> bytes \<Rightarrow> bool"
    and colt :: "time \<Rightarrow> time"
  assumes coll_equiv: "equivp coll"
    and take_ok: "fst (gorm_Take db q d) = Inr t \<Longrightarrow> t \<in> set (rows d) \<and> matches coll q t"
    and take_none: "fst (gorm_Take db q d) = Inl e \<Longrightarrow> errors_Is e ErrRecordNotFound \<Longrightarrow>
          t \<in> set (rows d) \<Longrightarrow> \<not> matches coll q t"
    and take_rows: "rows (snd (gorm_Take db q d)) = rows d"
    and create_ok: "fst (gorm_Create db t d) = Inr t' \<Longrightarrow>
          Short t' = Short t \<and> LongURL t' = LongURL t \<and> ExpiresAt t' = ExpiresAt t \<and>
          DeletedAt t' = DeletedAt t \<and> (\<forall>u\<in>set (rows d). \<not> conflict coll u t) \<and>
          rows (snd (gorm_Create db t d)) = rows d @ [column colt t']"
    and create_dup: "fst (gorm_Create db t d) = Inl e \<Longrightarrow> errors_Is e ErrDuplicatedKey \<Longrightarrow>
          (\<exists>u\<in>set (rows d). conflict coll u t) \<and> rows (snd (gorm_Create db t d)) = rows d"
    and create_err: "fst (gorm_Create db t d) = Inl e \<Longrightarrow>
          rows (snd (gorm_Create db t d)) = rows d \<or>
          (\<exists>t'. Short t' = Short t \<and> LongURL t' = LongURL t \<and> ExpiresAt t' = ExpiresAt t \<and>
             DeletedAt t' = DeletedAt t \<and> (\<forall>u\<in>set (rows d). \<not> conflict coll u t) \<and>
             rows (snd (gorm_Create db t d)) = rows d @ [column colt t'])"
    and delete_soft: "\<not> stmt_unscoped q \<Longrightarrow> stmt_limit q = None \<Longrightarrow> gorm_Delete db q d = ((n, oe), d') \<Longrightarrow>
          (\<exists>w. rows d' = soft_delete (matches coll q) w (rows d)) \<and>
            (oe = None \<longrightarrow> n = int (length (filter (matches coll q) (rows d)))) \<or>
          oe \<noteq> None \<and> rows d' = rows d"
    and delete_hard: "stmt_unscoped q \<Longrightarrow> stmt_limit q = Some lim \<Longrightarrow> 0 \<le> lim \<Longrightarrow>
          gorm_Delete db q d = ((n, oe), d') \<Longrightarrow>
          subseq (rows d') (rows d) \<and> (\<forall>t\<in>set (rows d) - set (rows d'). matches coll q t) \<and>
          (oe = None \<longrightarrow> n = int (length (rows d)) - int (length (rows d')) \<and>
             n = min lim (int (length (filter (matches coll q) (rows d)))))"
    and ping_rows: "rows (snd (gorm_PingContext db d)) = rows d"

section \<open>The contract of the package\<close>

definition is_live :: "TinyURL \<Rightarrow> bool" where
  "is_live t \<longleftrightarrow> DeletedAt t = None"

definition new_row :: "(bytes \<Rightarrow> bytes \<Rightarrow> bool) \<Rightarrow> TinyURL list \<Rightarrow> uint64 \<Rightarrow> bytes \<Rightarrow> time option \<Rightarrow> TinyURL \<Rightarrow> bool" where
  "new_row coll rs short long e t \<longleftrightarrow>
     Short t = short \<and> LongURL t = long \<and> ExpiresAt t = e \<and> is_live t \<and> (\<forall>u\<in>set rs. \<not> conflict coll u t)"

definition expired_at :: "time \<Rightarrow> TinyURL \<Rightarrow> bool" where
  "expired_at now t \<longleftrightarrow> (case ExpiresAt t of None \<Rightarrow> False | Some e \<Rightarrow> e < now)"

locale link_store =
  fixes st :: "'d storage_iface"
    and rows :: "'d \<Rightarrow> TinyURL list"
    and coll :: "bytes \<Rightarrow> bytes \<Rightarrow> bool"
    and colt :: "time \<Rightarrow> time"
  assumes coll_eq: "equivp coll"
    and insert_ok: "fst (Insert st short long e d) = Ret t \<Longrightarrow>
          new_row coll (rows d) short long e t \<and>
          rows (snd (Insert st short long e d)) = rows d @ [column colt t]"
    and insert_dup: "fst (Insert st short long e d) = Err err \<Longrightarrow> errors_Is err ErrDuplicatedKey \<Longrightarrow>
          (\<exists>u\<in>set (rows d). Short u = short \<or> coll (LongURL u) long) \<and>
          rows (snd (Insert st short long e d)) = rows d"
    and insert_err: "fst (Insert st short long e d) = Err err \<Longrightarrow>
          rows (snd (Insert st short long e d)) = rows d \<or>
          (\<exists>t. new_row coll (rows d) short long e t \<and>
             rows (snd (Insert st short long e d)) = rows d @ [column colt t])"
    and insert_no_panic: "fst (Insert st short long e d) \<noteq> Panic m"
    and short_ok: "fst (GetByShortID st short d) = Ret t \<Longrightarrow> t \<in> set (rows d) \<and> is_live t \<and> Short t = short"
    and short_none: "fst (GetByShortID st short d) = Err err \<Longrightarrow> errors_Is err ErrRecordNotFound \<Longrightarrow>
          t \<in> set (rows d) \<Longrightarrow> is_live t \<Longrightarrow> Short t \<noteq> short"
    and short_rows: "rows (snd (GetByShortID st short d)) = rows d"
    and long_ok: "fst (GetByLongURL st long d) = Ret t \<Longrightarrow> t \<in> set (rows d) \<and> is_live t \<and> coll (LongURL t) long"
    and long_none: "fst (GetByLongURL st long d) = Err err \<Longrightarrow> errors_Is err ErrRecordNotFound \<Longrightarrow>
          t \<in> set (rows d) \<Longrightarrow> is_live t \<Longrightarrow> \<not> coll (LongURL t) long"
    and long_rows: "rows (snd (GetByLongURL st long d)) = rows d"
    and remove_ok: "fst (Delete st short d) = Ret u \<Longrightarrow>
          (\<exists>t\<in>set (rows d). is_live t \<and> Short t = short) \<and>
          (\<exists>w. rows (snd (Delete st short d)) = soft_delete (\<lambda>t. is_live t \<and> Short t = short) w (rows d))"
    and remove_any: "rows (snd (Delete st short d)) = rows d \<or>
          (\<exists>w. rows (snd (Delete st short d)) = soft_delete (\<lambda>t. is_live t \<and> Short t = short) w (rows d))"
    and reap: "0 \<le> limit \<Longrightarrow> DeleteExpired st now limit d = ((n, oe), d') \<Longrightarrow>
          subseq (rows d') (rows d) \<and>
          (\<forall>t\<in>set (rows d) - set (rows d'). expired_at now t) \<and>
          (oe = None \<longrightarrow> n = int (length (rows d)) - int (length (rows d')) \<and>
             n = min limit (int (length (filter (\<lambda>t. expired_at now t) (rows d)))))"
    and pingdb_rows: "rows (snd (PingDB st d)) = rows d"

section \<open>The package keeps its contract\<close>

lemmas stmt_simps [simp] = WithContext_def Where_def Unscoped_def Limit_def matches_def is_live_def

lemma coll_facts:
  assumes "equivp coll"
  shows "coll x x" and "coll x y \<Longrightarrow> coll y x" and "coll x y \<Longrightarrow> coll y z \<Longrightarrow> coll x z"
  using assms by (metis equivp_reflp equivp_symp equivp_transp)+

sublocale tiny_urls_table \<subseteq> store: link_store "newStorage db" rows coll colt
proof
  let ?st = "newStorage db"
  note defs = newStorage_def storage_Insert_def storage_GetByShortID_def storage_GetByLongURL_def
    storage_Delete_def storage_DeleteExpired_def storage_Ping_def Let_def
  let ?row = "\<lambda>short long e. zero_TinyURL\<lparr>Short := short, LongURL := long, ExpiresAt := e\<rparr>"
  have row: "Short (?row short long e) = short" "LongURL (?row short long e) = long"
    "ExpiresAt (?row short long e) = e" "DeletedAt (?row short long e) = None" for short long e
    by (simp_all add: zero_TinyURL_def)
  have conf: "conflict coll u t' = conflict coll u t" if "Short t' = Short t" "LongURL t' = LongURL t" for u t t'
    using that by (simp add: conflict_def)
  have m: "matches coll (Where (ShortIs short) WithContext) = (\<lambda>t. is_live t \<and> Short t = short)" for short
    by (rule ext) simp
  have mx: "matches coll (Limit limit (Where (ExpiredBefore now) (Unscoped WithContext))) = expired_at now"
    for limit now
    by (rule ext) (simp add: expired_at_def)
  have snd_insert: "snd (Insert ?st short long e d) = snd (gorm_Create db (?row short long e) d)" for short long e d
    by (simp add: defs split: prod.splits sum.splits)
  show "equivp coll" by (rule coll_equiv)
  show "new_row coll (rows d) short long e t \<and> rows (snd (Insert ?st short long e d)) = rows d @ [column colt t]"
    if "fst (Insert ?st short long e d) = Ret t" for short long e d t
    using create_ok [of "?row short long e" d t] that row conf [of t "?row short long e"]
    by (auto simp: defs new_row_def split: prod.splits sum.splits)
  show "(\<exists>u\<in>set (rows d). Short u = short \<or> coll (LongURL u) long) \<and>
      rows (snd (Insert ?st short long e d)) = rows d"
    if "fst (Insert ?st short long e d) = Err err" "errors_Is err ErrDuplicatedKey" for short long e d err
    using create_dup [of "?row short long e" d err] that row
    by (auto simp: defs conflict_def split: prod.splits sum.splits)
  show "rows (snd (Insert ?st short long e d)) = rows d \<or>
      (\<exists>t. new_row coll (rows d) short long e t \<and> rows (snd (Insert ?st short long e d)) = rows d @ [column colt t])"
    if "fst (Insert ?st short long e d) = Err err" for short long e d err
  proof -
    have "fst (gorm_Create db (?row short long e) d) = Inl err"
      using that by (auto simp: defs split: prod.splits sum.splits)
    from create_err [OF this] show ?thesis
    proof
      assume "\<exists>t'. Short t' = Short (?row short long e) \<and> LongURL t' = LongURL (?row short long e) \<and>
        ExpiresAt t' = ExpiresAt (?row short long e) \<and> DeletedAt t' = DeletedAt (?row short long e) \<and>
        (\<forall>u\<in>set (rows d). \<not> conflict coll u (?row short long e)) \<and>
        rows (snd (gorm_Create db (?row short long e) d)) = rows d @ [column colt t']"
      then obtain t' where t': "Short t' = short" "LongURL t' = long" "ExpiresAt t' = e" "DeletedAt t' = None"
        "\<forall>u\<in>set (rows d). \<not> conflict coll u (?row short long e)"
        "rows (snd (gorm_Create db (?row short long e) d)) = rows d @ [column colt t']"
        by (auto simp only: row)
      then have "new_row coll (rows d) short long e t'"
        using conf [of t' "?row short long e"] by (simp only: new_row_def is_live_def row)
      then show ?thesis using t'(6) by (simp only: snd_insert) blast
    qed (simp only: snd_insert, simp)
  qed
  show "fst (Insert ?st short long e d) \<noteq> Panic m" for short long e d m
    by (simp add: defs split: prod.splits sum.splits)
  show "t \<in> set (rows d) \<and> is_live t \<and> Short t = short"
    if "fst (GetByShortID ?st short d) = Ret t" for short d t
    using take_ok [of "Where (ShortIs short) WithContext" d t] that
    by (auto simp: defs split: prod.splits sum.splits)
  show "Short t \<noteq> short" if "fst (GetByShortID ?st short d) = Err err" "errors_Is err ErrRecordNotFound"
    "t \<in> set (rows d)" "is_live t" for short d err t
    using take_none [of "Where (ShortIs short) WithContext" d err t] that
    by (auto simp: defs split: prod.splits sum.splits)
  show "rows (snd (GetByShortID ?st short d)) = rows d" for short d
    using take_rows [of "Where (ShortIs short) WithContext" d] by (auto simp: defs split: prod.splits sum.splits)
  show "t \<in> set (rows d) \<and> is_live t \<and> coll (LongURL t) long"
    if "fst (GetByLongURL ?st long d) = Ret t" for long d t
    using take_ok [of "Where (LongURLIs long) WithContext" d t] that
    by (auto simp: defs split: prod.splits sum.splits)
  show "\<not> coll (LongURL t) long" if "fst (GetByLongURL ?st long d) = Err err" "errors_Is err ErrRecordNotFound"
    "t \<in> set (rows d)" "is_live t" for long d err t
    using take_none [of "Where (LongURLIs long) WithContext" d err t] that
    by (auto simp: defs split: prod.splits sum.splits)
  show "rows (snd (GetByLongURL ?st long d)) = rows d" for long d
    using take_rows [of "Where (LongURLIs long) WithContext" d] by (auto simp: defs split: prod.splits sum.splits)
  have del: "(\<exists>w. rows d' = soft_delete (\<lambda>t. is_live t \<and> Short t = short) w (rows d)) \<and>
        (oe = None \<longrightarrow> n = int (length (filter (\<lambda>t. is_live t \<and> Short t = short) (rows d)))) \<or>
      oe \<noteq> None \<and> rows d' = rows d"
    if "gorm_Delete db (Where (ShortIs short) WithContext) d = ((n, oe), d')" for short d n oe d'
    using delete_soft [OF _ _ that, unfolded m] by simp
  show "(\<exists>t\<in>set (rows d). is_live t \<and> Short t = short) \<and>
      (\<exists>w. rows (snd (Delete ?st short d)) = soft_delete (\<lambda>t. is_live t \<and> Short t = short) w (rows d))"
    if ret: "fst (Delete ?st short d) = Ret u" for short d u
  proof -
    obtain n d' where n: "gorm_Delete db (Where (ShortIs short) WithContext) d = ((n, None), d')" "n \<noteq> 0"
      using ret by (auto simp: defs split: prod.splits option.splits if_splits)
    with del [OF n(1)] have "filter (\<lambda>t. is_live t \<and> Short t = short) (rows d) \<noteq> []" by auto
    then show ?thesis using del [OF n(1)] n by (auto simp: defs filter_empty_conv)
  qed
  show "rows (snd (Delete ?st short d)) = rows d \<or>
      (\<exists>w. rows (snd (Delete ?st short d)) = soft_delete (\<lambda>t. is_live t \<and> Short t = short) w (rows d))"
    for short d
    using del [of short d] by (auto simp: defs split: prod.splits option.splits)
  show "subseq (rows d') (rows d) \<and>
      (\<forall>t\<in>set (rows d) - set (rows d'). expired_at now t) \<and>
      (oe = None \<longrightarrow> n = int (length (rows d)) - int (length (rows d')) \<and>
         n = min limit (int (length (filter (\<lambda>t. expired_at now t) (rows d)))))"
    if "0 \<le> limit" "DeleteExpired ?st now limit d = ((n, oe), d')" for limit now d n oe d'
    using delete_hard [of "Limit limit (Where (ExpiredBefore now) (Unscoped WithContext))" limit d n oe d', unfolded mx]
      that by (auto simp: defs)
  show "rows (snd (PingDB ?st d)) = rows d" for d
    using ping_rows [of d] by (simp add: defs split: option.splits)
qed

section \<open>What the contract gives its clients\<close>

lemma conflict_sym: "equivp coll \<Longrightarrow> conflict coll t u \<longleftrightarrow> conflict coll u t"
  unfolding conflict_def by (auto dest: coll_facts(2) [of coll])

lemma conflict_column [simp]:
  "conflict coll (column colt t) u = conflict coll t u"
  "conflict coll u (column colt t) = conflict coll u t"
  by (simp_all add: conflict_def column_def)

lemma column_fields [simp]:
  "Short (column colt t) = Short t" "LongURL (column colt t) = LongURL t"
  "DeletedAt (column colt t) = DeletedAt t" "ExpiresAt (column colt t) = map_option colt (ExpiresAt t)"
  by (simp_all add: column_def)

lemma unique_append:
  "unique_indexes coll rs \<Longrightarrow> \<forall>u\<in>set rs. \<not> conflict coll u t \<Longrightarrow> unique_indexes coll (rs @ [column colt t])"
  by (simp add: unique_indexes_def sorted_wrt_append)

lemma tombstone_fields [simp]:
  "Short (if b then t\<lparr>DeletedAt := w\<rparr> else t) = Short t"
  "LongURL (if b then t\<lparr>DeletedAt := w\<rparr> else t) = LongURL t"
  "ExpiresAt (if b then t\<lparr>DeletedAt := w\<rparr> else t) = ExpiresAt t"
  by simp_all

lemma unique_soft_delete: "unique_indexes coll (soft_delete P w rs) \<longleftrightarrow> unique_indexes coll rs"
  unfolding unique_indexes_def soft_delete_def sorted_wrt_map conflict_def tombstone_fields ..

lemma subseq_set_mono: "subseq xs ys \<Longrightarrow> set xs \<subseteq> set ys"
  by (metis subseq_conv_nths set_nths_subset)

lemma sorted_wrt_subseq: "subseq xs ys \<Longrightarrow> sorted_wrt P ys \<Longrightarrow> sorted_wrt P xs"
  by (induction rule: list_emb.induct) (auto dest: subseq_set_mono)

lemma set_soft_delete:
  "t \<in> set (soft_delete P w rs) \<longleftrightarrow> (\<exists>u\<in>set rs. t = (if P u then u\<lparr>DeletedAt := Some w\<rparr> else u))"
  by (auto simp: soft_delete_def)

lemma unique_eq:
  assumes "equivp coll" "unique_indexes coll rs" "t \<in> set rs" "u \<in> set rs" "conflict coll t u"
  shows "t = u"
proof (rule ccontr)
  assume "t \<noteq> u"
  obtain i j where ij: "i < length rs" "j < length rs" "t = rs ! i" "u = rs ! j"
    using assms(3,4) by (auto simp: in_set_conv_nth)
  then have "i < j \<or> j < i" using \<open>t \<noteq> u\<close> by (metis linorder_neqE_nat)
  then have "\<not> conflict coll t u \<or> \<not> conflict coll u t"
    using assms(2) ij by (auto simp: unique_indexes_def sorted_wrt_iff_nth_less)
  then show False using assms(1,5) conflict_sym by blast
qed

context link_store begin

lemma insert_rows:
  "rows (snd (Insert st short long e d)) = rows d \<or>
   (\<exists>t. new_row coll (rows d) short long e t \<and> rows (snd (Insert st short long e d)) = rows d @ [column colt t])"
  using insert_ok insert_err insert_no_panic by (cases "fst (Insert st short long e d)") blast+

lemma unique_insert:
  "unique_indexes coll (rows d) \<Longrightarrow> unique_indexes coll (rows (snd (Insert st short long e d)))"
  using insert_rows [of short long e d] by (auto simp: new_row_def intro: unique_append)

lemma unique_remove:
  "unique_indexes coll (rows d) \<Longrightarrow> unique_indexes coll (rows (snd (Delete st short d)))"
  using remove_any [of short d] unique_soft_delete by metis

lemma unique_reap:
  "unique_indexes coll (rows d) \<Longrightarrow> 0 \<le> limit \<Longrightarrow>
    unique_indexes coll (rows (snd (DeleteExpired st now limit d)))"
  using reap [of limit now d] by (cases "DeleteExpired st now limit d")
    (auto simp: unique_indexes_def intro: sorted_wrt_subseq)

lemma insert_lookup:
  assumes "unique_indexes coll (rows d)" "fst (Insert st short long e d) = Ret t"
  shows "fst (GetByShortID st short (snd (Insert st short long e d))) = Ret u \<Longrightarrow> u = column colt t"
    and "fst (GetByShortID st short (snd (Insert st short long e d))) = Err err \<Longrightarrow>
      \<not> errors_Is err ErrRecordNotFound"
    and "fst (GetByLongURL st long (snd (Insert st short long e d))) = Ret u \<Longrightarrow> u = column colt t"
    and "fst (GetByLongURL st long (snd (Insert st short long e d))) = Err err \<Longrightarrow>
      \<not> errors_Is err ErrRecordNotFound"
proof -
  let ?d = "snd (Insert st short long e d)"
  have new: "new_row coll (rows d) short long e t" and rows: "rows ?d = rows d @ [column colt t]"
    using insert_ok [OF assms(2)] by simp_all
  then have t: "column colt t \<in> set (rows ?d)" "is_live (column colt t)" "Short (column colt t) = short"
    "LongURL (column colt t) = long" by (simp_all add: new_row_def)
  have uniq: "unique_indexes coll (rows ?d)" using assms(1) by (rule unique_insert)
  note same = unique_eq [OF coll_eq uniq _ t(1)]
  show "fst (GetByShortID st short ?d) = Ret u \<Longrightarrow> u = column colt t"
    using short_ok [of short ?d u] same [of u] t(3) by (auto simp: conflict_def)
  show "fst (GetByShortID st short ?d) = Err err \<Longrightarrow> \<not> errors_Is err ErrRecordNotFound"
    using short_none t by blast
  show "fst (GetByLongURL st long ?d) = Ret u \<Longrightarrow> u = column colt t"
    using long_ok [of long ?d u] same [of u] t(4) by (auto simp: conflict_def)
  show "fst (GetByLongURL st long ?d) = Err err \<Longrightarrow> \<not> errors_Is err ErrRecordNotFound"
    using long_none [of long ?d err "column colt t"] t coll_facts(1) [OF coll_eq] by auto
qed

lemma remove_tombstone:
  assumes "unique_indexes coll (rows d)" "fst (Delete st short d) = Ret u"
    and "r \<in> set (rows d)" "Short r = short"
  shows "\<exists>r'\<in>set (rows (snd (Delete st short d))). \<not> is_live r' \<and> Short r' = short \<and> LongURL r' = LongURL r"
proof -
  obtain w where w: "rows (snd (Delete st short d)) = soft_delete (\<lambda>t. is_live t \<and> Short t = short) w (rows d)"
    using remove_ok [OF assms(2)] by blast
  obtain t where t: "t \<in> set (rows d)" "is_live t" "Short t = short" using remove_ok [OF assms(2)] by blast
  then have "t = r" using unique_eq [OF coll_eq assms(1) t(1) assms(3)] assms(4) by (simp add: conflict_def)
  then have "r\<lparr>DeletedAt := Some w\<rparr> \<in> set (rows (snd (Delete st short d)))"
    using t unfolding w set_soft_delete by (intro bexI [of _ t]) auto
  then show ?thesis using assms(4) by (intro bexI) auto
qed

lemma remove_lookup:
  assumes "unique_indexes coll (rows d)" "fst (Delete st short d) = Ret u"
  shows "fst (GetByShortID st short (snd (Delete st short d))) \<noteq> Ret t"
    and "r \<in> set (rows d) \<Longrightarrow> Short r = short \<Longrightarrow>
      fst (GetByLongURL st (LongURL r) (snd (Delete st short d))) \<noteq> Ret t \<and>
      fst (Insert st s (LongURL r) e (snd (Delete st short d))) \<noteq> Ret t"
    and "r \<in> set (rows d) \<Longrightarrow> Short r \<noteq> short \<Longrightarrow> r \<in> set (rows (snd (Delete st short d)))"
proof -
  let ?d = "snd (Delete st short d)"
  have uniq: "unique_indexes coll (rows ?d)" using assms(1) by (rule unique_remove)
  obtain r0 where r0: "r0 \<in> set (rows d)" "Short r0 = short" using remove_ok [OF assms(2)] by blast
  have gone: False if r: "r \<in> set (rows d)" "Short r = short" and t: "t \<in> set (rows ?d)" "is_live t"
    and eq: "Short t = short \<or> coll (LongURL t) (LongURL r)" for r t
  proof -
    obtain r' where r': "r' \<in> set (rows ?d)" "\<not> is_live r'" "Short r' = short" "LongURL r' = LongURL r"
      using remove_tombstone [OF assms r] by blast
    then have "conflict coll t r'" using eq by (auto simp: conflict_def)
    then have "t = r'" by (rule unique_eq [OF coll_eq uniq t(1) r'(1)])
    then show False using t(2) r'(2) by simp
  qed
  show "fst (GetByShortID st short ?d) \<noteq> Ret t"
    using short_ok [of short ?d t] gone [OF r0] by blast
  show "fst (GetByLongURL st (LongURL r) ?d) \<noteq> Ret t \<and> fst (Insert st s (LongURL r) e ?d) \<noteq> Ret t"
    if r: "r \<in> set (rows d)" "Short r = short"
  proof
    show "fst (GetByLongURL st (LongURL r) ?d) \<noteq> Ret t"
      using long_ok [of "LongURL r" ?d t] gone [OF r] by blast
    obtain r' where r': "r' \<in> set (rows ?d)" "LongURL r' = LongURL r" using remove_tombstone [OF assms r] by blast
    show "fst (Insert st s (LongURL r) e ?d) \<noteq> Ret t"
    proof
      assume "fst (Insert st s (LongURL r) e ?d) = Ret t"
      from insert_ok [OF this] r' have "\<not> conflict coll r' t" "LongURL t = LongURL r"
        by (auto simp: new_row_def)
      then show False using r' coll_facts(1) [OF coll_eq] by (simp add: conflict_def)
    qed
  qed
  show "r \<in> set (rows d) \<Longrightarrow> Short r \<noteq> short \<Longrightarrow> r \<in> set (rows ?d)"
    using remove_any [of short d] by (auto simp: soft_delete_def)
qed

lemma reap_live:
  assumes "0 \<le> limit" "t \<in> set (rows d)" "\<not> expired_at now t"
  shows "t \<in> set (rows (snd (DeleteExpired st now limit d)))"
  using reap [of limit now d] assms by (cases "DeleteExpired st now limit d") auto

end

section \<open>A model of the table contract\<close>

text \<open>
  The contract of the table can be met: a list of rows, an equality that is equality, columns that
  keep times exactly. The witnesses run on it.
\<close>

fun drop_matching :: "(TinyURL \<Rightarrow> bool) \<Rightarrow> nat \<Rightarrow> TinyURL list \<Rightarrow> TinyURL list" where
  "drop_matching P 0 rs = rs"
| "drop_matching P n [] = []"
| "drop_matching P (Suc n) (t # rs) = (if P t then drop_matching P n rs else t # drop_matching P (Suc n) rs)"

definition list_db :: "TinyURL list gorm" where
  "list_db =
     \<lparr>gorm_Create = (\<lambda>t rs. if \<exists>u\<in>set rs. conflict (=) u t then (Inl ErrDuplicatedKey, rs)
        else (Inr t, rs @ [t])),
      gorm_Take = (\<lambda>q rs. (case find (matches (=) q) rs of None \<Rightarrow> Inl ErrRecordNotFound | Some t \<Rightarrow> Inr t, rs)),
      gorm_Delete = (\<lambda>q rs.
        if stmt_unscoped q then
          (let rs' = drop_matching (matches (=) q) (case stmt_limit q of None \<Rightarrow> length rs | Some n \<Rightarrow> nat n) rs
           in ((int (length rs) - int (length rs'), None), rs'))
        else ((int (length (filter (matches (=) q) rs)), None), soft_delete (matches (=) q) 0 rs)),
      gorm_DB = (\<lambda>_. None),
      gorm_PingContext = (\<lambda>rs. (None, rs))\<rparr>"

lemma drop_matching_subseq: "subseq (drop_matching P n rs) rs"
  by (induction P n rs rule: drop_matching.induct) auto

lemma drop_matching_removed: "t \<in> set rs \<Longrightarrow> t \<notin> set (drop_matching P n rs) \<Longrightarrow> P t"
  by (induction P n rs rule: drop_matching.induct) (auto split: if_splits)

lemma drop_matching_length:
  "length rs = length (drop_matching P n rs) + min n (length (filter P rs))"
  by (induction P n rs rule: drop_matching.induct) auto

lemma column_id [simp]: "column (\<lambda>t. t) r = r"
  by (simp add: column_def option.map_ident)

interpretation list_db: tiny_urls_table list_db "\<lambda>rs. rs" "(=)" "\<lambda>t. t"
proof
  show "equivp ((=) :: bytes \<Rightarrow> bytes \<Rightarrow> bool)" by (rule identity_equivp)
  show "t \<in> set d \<and> matches (=) q t" if "fst (gorm_Take list_db q d) = Inr t" for q d t
    using that find_Some_iff [of "matches (=) q" d t]
    by (auto simp del: stmt_simps simp: list_db_def split: option.splits)
  show "\<not> matches (=) q t" if "fst (gorm_Take list_db q d) = Inl e" "errors_Is e ErrRecordNotFound" "t \<in> set d"
    for q d e t
    using that find_None_iff [of "matches (=) q" d]
    by (auto simp del: stmt_simps simp: list_db_def split: option.splits)
  show "snd (gorm_Take list_db q d) = d" for q d by (simp add: list_db_def)
  show "Short t' = Short t \<and> LongURL t' = LongURL t \<and> ExpiresAt t' = ExpiresAt t \<and> DeletedAt t' = DeletedAt t \<and>
      (\<forall>u\<in>set d. \<not> conflict (=) u t) \<and> snd (gorm_Create list_db t d) = d @ [column (\<lambda>t. t) t']"
    if "fst (gorm_Create list_db t d) = Inr t'" for t d t'
    using that by (auto simp: list_db_def split: if_splits)
  show "(\<exists>u\<in>set d. conflict (=) u t) \<and> snd (gorm_Create list_db t d) = d"
    if "fst (gorm_Create list_db t d) = Inl e" "errors_Is e ErrDuplicatedKey" for t d e
    using that by (auto simp: list_db_def split: if_splits)
  show "snd (gorm_Create list_db t d) = d \<or>
      (\<exists>t'. Short t' = Short t \<and> LongURL t' = LongURL t \<and> ExpiresAt t' = ExpiresAt t \<and> DeletedAt t' = DeletedAt t \<and>
        (\<forall>u\<in>set d. \<not> conflict (=) u t) \<and> snd (gorm_Create list_db t d) = d @ [column (\<lambda>t. t) t'])"
    if "fst (gorm_Create list_db t d) = Inl e" for t d e
    using that by (auto simp: list_db_def split: if_splits)
  show "(\<exists>w. d' = soft_delete (matches (=) q) w d) \<and>
        (oe = None \<longrightarrow> n = int (length (filter (matches (=) q) d))) \<or> oe \<noteq> None \<and> d' = d"
    if "\<not> stmt_unscoped q" "stmt_limit q = None" "gorm_Delete list_db q d = ((n, oe), d')" for q d n oe d'
    using that by (auto simp del: stmt_simps simp: list_db_def)
  show "subseq d' d \<and> (\<forall>t\<in>set d - set d'. matches (=) q t) \<and>
      (oe = None \<longrightarrow> n = int (length d) - int (length d') \<and> n = min lim (int (length (filter (matches (=) q) d))))"
    if "stmt_unscoped q" "stmt_limit q = Some lim" "0 \<le> lim" "gorm_Delete list_db q d = ((n, oe), d')"
    for q lim d n oe d'
    using that drop_matching_subseq [of "matches (=) q" "nat lim" d]
      drop_matching_removed [of _ d "matches (=) q" "nat lim"]
      drop_matching_length [of d "matches (=) q" "nat lim"]
    by (auto simp del: stmt_simps simp: list_db_def Let_def)
  show "snd (gorm_PingContext list_db d) = d" for d by (simp add: list_db_def)
qed

context tiny_urls_table begin

lemma store_contract: "link_store (newStorage db) rows coll colt"
  by unfold_locales

end

lemma newStorage_simps [simp]:
  "Insert (newStorage db) = storage_Insert db"
  "GetByLongURL (newStorage db) = storage_GetByLongURL db"
  "GetByShortID (newStorage db) = storage_GetByShortID db"
  "Delete (newStorage db) = storage_Delete db"
  "DeleteExpired (newStorage db) = storage_DeleteExpired db"
  "PingDB (newStorage db) = storage_Ping db"
  "CloseDB (newStorage db) = storage_Close"
  by (simp_all add: newStorage_def)

lemma storage_no_panic [simp]:
  "fst (storage_GetByShortID db short d) \<noteq> Panic m" "Panic m \<noteq> fst (storage_GetByShortID db short d)"
  "fst (storage_GetByLongURL db long d) \<noteq> Panic m" "Panic m \<noteq> fst (storage_GetByLongURL db long d)"
  by (simp_all add: storage_GetByShortID_def storage_GetByLongURL_def split: prod.split sum.split)

section \<open>Properties\<close>

text \<open>
  The unique indexes are an invariant of the package: on a table in which no two rows share a
  short id or a long URL, \<open>Insert\<close>, \<open>Delete\<close> and \<open>DeleteExpired\<close> leave such a table, whatever
  they return.
\<close>

lemma storage_unique_indexes:
  assumes "tiny_urls_table db rows coll colt" "unique_indexes coll (rows d)" "0 \<le> limit"
  shows "unique_indexes coll (rows (snd (storage_Insert db short long e d))) \<and>
    unique_indexes coll (rows (snd (storage_Delete db short' d))) \<and>
    unique_indexes coll (rows (snd (storage_DeleteExpired db now limit d)))"
proof -
  note st = tiny_urls_table.store_contract [OF assms(1)]
  show ?thesis
    using link_store.unique_insert [OF st assms(2), of short long e] link_store.unique_remove [OF st assms(2), of short']
      link_store.unique_reap [OF st assms(2,3), of now]
    by simp
qed

definition row1 :: TinyURL where
  "row1 = zero_TinyURL\<lparr>Short := 7, LongURL := ''https://a'', ExpiresAt := Some 100\<rparr>"

definition row2 :: TinyURL where
  "row2 = zero_TinyURL\<lparr>Short := 8, LongURL := ''https://b''\<rparr>"

lemma row_simps [simp]:
  "Short row1 = 7" "LongURL row1 = ''https://a''" "ExpiresAt row1 = Some 100" "DeletedAt row1 = None"
  "Short row2 = 8" "LongURL row2 = ''https://b''" "ExpiresAt row2 = None" "DeletedAt row2 = None"
  by (simp_all add: row1_def row2_def zero_TinyURL_def)

lemma unique_rows: "unique_indexes (=) [row1, row2]"
  by (simp add: unique_indexes_def conflict_def)

lemma storage_unique_indexes_witness:
  "unique_indexes (=) (snd (storage_Insert list_db 9 ''https://c'' None [row1, row2])) \<and>
   unique_indexes (=) (snd (storage_Delete list_db 7 [row1, row2])) \<and>
   unique_indexes (=) (snd (storage_DeleteExpired list_db 200 100 [row1, row2]))"
  using storage_unique_indexes [OF list_db.tiny_urls_table_axioms unique_rows, where limit = 100]
  by simp

text \<open>
  What was inserted is what is found: after an \<open>Insert\<close> that returned a record, a lookup by its
  short id and a lookup by its long URL return that record (with its expiry as the column keeps it) or
  a failure of the database, never another record and never \<open>ErrRecordNotFound\<close>.
\<close>

lemma storage_insert_lookup:
  assumes "tiny_urls_table db rows coll colt" "unique_indexes coll (rows d)"
    and "storage_Insert db short long e d = (Ret t, d')"
    and "r = fst (storage_GetByShortID db short d') \<or> r = fst (storage_GetByLongURL db long d')"
  shows "Short t = short \<and> LongURL t = long \<and> ExpiresAt t = e \<and>
    (r = Ret (column colt t) \<or> (\<exists>err. r = Err err \<and> \<not> errors_Is err ErrRecordNotFound))"
proof -
  note st = tiny_urls_table.store_contract [OF assms(1)]
  have ret: "fst (Insert (newStorage db) short long e d) = Ret t" "snd (Insert (newStorage db) short long e d) = d'"
    using assms(3) by simp_all
  note look = link_store.insert_lookup [OF st assms(2) ret(1), unfolded ret(2), simplified]
  have "new_row coll (rows d) short long e t" using link_store.insert_ok [OF st ret(1)] by simp
  then show ?thesis
    using assms(4) look by (cases r) (auto simp: new_row_def)
qed

lemma storage_insert_lookup_witness:
  "\<exists>t d'. storage_Insert list_db 9 ''https://c'' (Some 300) [row1, row2] = (Ret t, d') \<and>
    fst (storage_GetByShortID list_db 9 d') = Ret t"
proof -
  obtain t d' where ins: "storage_Insert list_db 9 ''https://c'' (Some 300) [row1, row2] = (Ret t, d')"
    by (simp add: storage_Insert_def list_db_def conflict_def zero_TinyURL_def Let_def)
  have "fst (storage_GetByShortID list_db 9 d') \<noteq> Err err" if "\<not> errors_Is err ErrRecordNotFound" for err
    using that by (auto simp: storage_GetByShortID_def list_db_def split: option.splits)
  then show ?thesis
    using storage_insert_lookup [OF list_db.tiny_urls_table_axioms unique_rows ins disjI1 [OF refl]] ins by auto
qed

text \<open>
  Deletion: after a \<open>Delete\<close> that reports success no lookup of that short id returns a record,
  every row with another short id is untouched, and the id did name a live record. For an id that
  names no live record \<open>Delete\<close> never reports success.
\<close>

lemma storage_delete_lookup:
  assumes "tiny_urls_table db rows coll colt" "unique_indexes coll (rows d)"
    and "storage_Delete db short d = (Ret (), d')"
  shows "(\<exists>r\<in>set (rows d). is_live r \<and> Short r = short) \<and>
    (\<forall>t. fst (storage_GetByShortID db short d') \<noteq> Ret t) \<and>
    filter (\<lambda>r. Short r \<noteq> short) (rows d') = filter (\<lambda>r. Short r \<noteq> short) (rows d)"
proof -
  note st = tiny_urls_table.store_contract [OF assms(1)]
  have ret: "fst (Delete (newStorage db) short d) = Ret ()" "snd (Delete (newStorage db) short d) = d'"
    using assms(3) by simp_all
  obtain w where w: "rows d' = soft_delete (\<lambda>t. is_live t \<and> Short t = short) w (rows d)"
    using link_store.remove_ok [OF st ret(1)] ret(2) by auto
  have "filter (\<lambda>r. Short r \<noteq> short) (soft_delete (\<lambda>t. is_live t \<and> Short t = short) w rs) =
      filter (\<lambda>r. Short r \<noteq> short) rs" for rs
    by (induction rs) (auto simp: soft_delete_def)
  then show ?thesis
    using link_store.remove_ok [OF st ret(1)] link_store.remove_lookup(1) [OF st assms(2) ret(1)] ret(2) w by simp
qed

lemma storage_delete_lookup_witness:
  "\<exists>d'. storage_Delete list_db 7 [row1, row2] = (Ret (), d') \<and>
    (\<forall>t. fst (storage_GetByShortID list_db 7 d') \<noteq> Ret t) \<and> filter (\<lambda>r. Short r \<noteq> 7) d' = [row2]"
proof -
  obtain d' where del: "storage_Delete list_db 7 [row1, row2] = (Ret (), d')"
    by (simp add: storage_Delete_def list_db_def)
  then show ?thesis
    using storage_delete_lookup [OF list_db.tiny_urls_table_axioms unique_rows del] by simp
qed

text \<open>
  The reaper removes what has expired and nothing else: \<open>DeleteExpired\<close> keeps the order of the
  rows, keeps every row whose expiry is unset or not before \<open>now\<close>, removes at most \<open>limit\<close> rows, and
  on success the number it reports is the number of rows removed, which is \<open>limit\<close> or all that had
  expired.
\<close>

lemma storage_reap:
  assumes "tiny_urls_table db rows coll colt" "0 \<le> limit"
    and "storage_DeleteExpired db now limit d = ((n, oe), d')"
  shows "subseq (rows d') (rows d) \<and>
    (\<forall>t\<in>set (rows d). \<not> expired_at now t \<longrightarrow> t \<in> set (rows d')) \<and>
    (oe = None \<longrightarrow> int (length (rows d)) = int (length (rows d')) + n \<and>
       n = min limit (int (length (filter (expired_at now) (rows d)))))"
proof -
  note st = tiny_urls_table.store_contract [OF assms(1)]
  show ?thesis using link_store.reap [OF st assms(2), of now d n oe d'] assms(3) by auto
qed

lemma storage_reap_witness:
  "\<exists>d'. storage_DeleteExpired list_db 200 100 [row1, row2] = ((1, None), d') \<and> row2 \<in> set d' \<and> length d' = 1"
proof -
  obtain n d' where del: "storage_DeleteExpired list_db 200 100 [row1, row2] = ((n, None), d')"
    by (simp add: storage_DeleteExpired_def list_db_def Let_def)
  have "length (filter (expired_at 200) [row1, row2]) = 1" by (simp add: expired_at_def)
  then show ?thesis
    using storage_reap [OF list_db.tiny_urls_table_axioms _ del] del by (auto simp: expired_at_def)
qed

end
