(* ===== verification/Rate_Limiter.thy ===== *)
theory Rate_Limiter
  imports Complex_Main Turl_Prelude
begin

text \<open>
  The package \<open>workqueue\<close> (\<open>pkg/workqueue/rate_limiters.go\<close>, \<open>token_script.go\<close>): the interface
  \<open>RateLimiter\<close> as a record of methods over a state, its five implementations, and the Lua
  script of the redis token bucket.

  The limiter of \<open>golang.org/x/time/rate\<close> and the redis client are parameters. A call of a method
  is atomic: each one holds its mutex from the first to the last access. Go's floating point
  arithmetic in \<open>When\<close> is modelled exactly: every value there is an integral \<open>float64\<close>. Lua
  numbers are rationals.
\<close>

section \<open>The interface\<close>

record ('k, 's) rate_limiter =
  Take :: "'k \<Rightarrow> 's \<Rightarrow> bool \<times> 's"
  When :: "'k \<Rightarrow> 's \<Rightarrow> duration \<times> 's"
  Forget :: "'k \<Rightarrow> 's \<Rightarrow> 's"
  Retries :: "'k \<Rightarrow> 's \<Rightarrow> nat"

section \<open>The bucket\<close>

record 'b std_limiter =
  Allow :: "'b \<Rightarrow> bool \<times> 'b"
  Reserve_Delay :: "'b \<Rightarrow> duration \<times> 'b"

definition BucketRateLimiter :: "'b std_limiter \<Rightarrow> ('k, 'b) rate_limiter" where
  "BucketRateLimiter l =
     \<lparr>Take = (\<lambda>_. Allow l), When = (\<lambda>_. Reserve_Delay l), Forget = (\<lambda>_ b. b), Retries = (\<lambda>_ _. 0)\<rparr>"

section \<open>Floating point\<close>

text \<open>
  The \<open>float64\<close> values of \<open>When\<close>: an integer that 53 significant bits can carry, an infinity or
  NaN. \<open>round53\<close> is the conversion of an integer, to the nearest such value, ties to even.
\<close>

datatype f64 = Fin int | PInf | NInf | NaN

fun halvings :: "nat \<Rightarrow> nat" where
  "halvings n = (if n < 2 ^ 53 then 0 else Suc (halvings (n div 2)))"

declare halvings.simps [simp del]

definition round53 :: "int \<Rightarrow> int" where
  "round53 x =
     (let n = nat \<bar>x\<bar>; u = 2 ^ halvings n; q = n div u; r = n mod u;
          q' = (if 2 * r > u \<or> 2 * r = u \<and> odd q then q + 1 else q)
      in sgn x * int (q' * u))"

definition float64 :: "int \<Rightarrow> f64" where
  "float64 x = Fin (round53 x)"

definition finite_f64 :: "int \<Rightarrow> f64" where
  "finite_f64 x = (if 2 ^ 1024 \<le> x then PInf else if x \<le> - (2 ^ 1024) then NInf else Fin x)"

text \<open>\<open>math.Pow(2, float64(exp))\<close> for a count \<open>exp\<close>.\<close>

definition pow2 :: "nat \<Rightarrow> f64" where
  "pow2 e = (if 1024 \<le> e then PInf else Fin (2 ^ e))"

fun mult_f64 :: "f64 \<Rightarrow> f64 \<Rightarrow> f64" where
  "mult_f64 (Fin a) (Fin b) = finite_f64 (a * b)"
| "mult_f64 (Fin a) PInf = (if a > 0 then PInf else if a < 0 then NInf else NaN)"
| "mult_f64 _ _ = NaN"

text \<open>The comparison with \<open>math.MaxInt64\<close>, a constant that is \<open>2 ^ 63\<close> as a \<open>float64\<close>.\<close>

fun gt_MaxInt64 :: "f64 \<Rightarrow> bool" where
  "gt_MaxInt64 (Fin x) \<longleftrightarrow> x > 2 ^ 63"
| "gt_MaxInt64 PInf \<longleftrightarrow> True"
| "gt_MaxInt64 _ \<longleftrightarrow> False"

text \<open>
  \<open>time.Duration(backoff)\<close>: what Go gives for a value that an \<open>int64\<close> cannot hold depends on the
  machine and is the parameter \<open>oor\<close>.
\<close>

fun Duration_f64 :: "int \<Rightarrow> f64 \<Rightarrow> duration" where
  "Duration_f64 oor (Fin x) = (if int64_range x then x else oor)"
| "Duration_f64 oor _ = oor"

section \<open>Exponential backoff\<close>

record 'k ItemExponentialFailureRateLimiter =
  exp_failures :: "'k \<rightharpoonup> nat"
  exp_baseDelay :: duration
  exp_maxDelay :: duration

definition NewItemExponentialFailureRateLimiter :: "duration \<Rightarrow> duration \<Rightarrow> 'k ItemExponentialFailureRateLimiter" where
  "NewItemExponentialFailureRateLimiter baseDelay maxDelay =
     \<lparr>exp_failures = Map.empty, exp_baseDelay = baseDelay, exp_maxDelay = maxDelay\<rparr>"

text \<open>A Go map read: the zero value for a missing key.\<close>

definition lookup :: "('k \<rightharpoonup> nat) \<Rightarrow> 'k \<Rightarrow> nat" where
  "lookup m k = (case m k of None \<Rightarrow> 0 | Some n \<Rightarrow> n)"

definition exp_Take :: "'k \<Rightarrow> 'k ItemExponentialFailureRateLimiter \<Rightarrow> bool \<times> 'k ItemExponentialFailureRateLimiter" where
  "exp_Take item r = (exp_failures r item = None, r)"

definition exp_When ::
  "int \<Rightarrow> 'k \<Rightarrow> 'k ItemExponentialFailureRateLimiter \<Rightarrow> duration \<times> 'k ItemExponentialFailureRateLimiter" where
  "exp_When oor item r =
     (let exp = lookup (exp_failures r) item;
          r' = r\<lparr>exp_failures := (exp_failures r)(item \<mapsto> exp + 1)\<rparr>;
          backoff = mult_f64 (float64 (exp_baseDelay r)) (pow2 exp)
      in if gt_MaxInt64 backoff then (exp_maxDelay r, r')
         else
           (let calculated = Duration_f64 oor backoff
            in if calculated > exp_maxDelay r then (exp_maxDelay r, r') else (calculated, r')))"

definition exp_Retries :: "'k \<Rightarrow> 'k ItemExponentialFailureRateLimiter \<Rightarrow> nat" where
  "exp_Retries item r = lookup (exp_failures r) item"

definition exp_Forget :: "'k \<Rightarrow> 'k ItemExponentialFailureRateLimiter \<Rightarrow> 'k ItemExponentialFailureRateLimiter" where
  "exp_Forget item r = r\<lparr>exp_failures := (exp_failures r)(item := None)\<rparr>"

definition exp_iface :: "int \<Rightarrow> ('k, 'k ItemExponentialFailureRateLimiter) rate_limiter" where
  "exp_iface oor = \<lparr>Take = exp_Take, When = exp_When oor, Forget = exp_Forget, Retries = exp_Retries\<rparr>"

section \<open>Fast and slow retries\<close>

record 'k ItemFastSlowRateLimiter =
  fs_failures :: "'k \<rightharpoonup> nat"
  maxFastAttempts :: int
  fastDelay :: duration
  slowDelay :: duration

definition NewItemFastSlowRateLimiter :: "duration \<Rightarrow> duration \<Rightarrow> int \<Rightarrow> 'k ItemFastSlowRateLimiter" where
  "NewItemFastSlowRateLimiter fast slow attempts =
     \<lparr>fs_failures = Map.empty, maxFastAttempts = attempts, fastDelay = fast, slowDelay = slow\<rparr>"

definition fs_Take :: "'k \<Rightarrow> 'k ItemFastSlowRateLimiter \<Rightarrow> bool \<times> 'k ItemFastSlowRateLimiter" where
  "fs_Take item r = (fs_failures r item = None, r)"

definition fs_When :: "'k \<Rightarrow> 'k ItemFastSlowRateLimiter \<Rightarrow> duration \<times> 'k ItemFastSlowRateLimiter" where
  "fs_When item r =
     (let r' = r\<lparr>fs_failures := (fs_failures r)(item \<mapsto> lookup (fs_failures r) item + 1)\<rparr>
      in if int (lookup (fs_failures r') item) \<le> maxFastAttempts r' then (fastDelay r', r') else (slowDelay r', r'))"

definition fs_Retries :: "'k \<Rightarrow> 'k ItemFastSlowRateLimiter \<Rightarrow> nat" where
  "fs_Retries item r = lookup (fs_failures r) item"

definition fs_Forget :: "'k \<Rightarrow> 'k ItemFastSlowRateLimiter \<Rightarrow> 'k ItemFastSlowRateLimiter" where
  "fs_Forget item r = r\<lparr>fs_failures := (fs_failures r)(item := None)\<rparr>"

definition fs_iface :: "('k, 'k ItemFastSlowRateLimiter) rate_limiter" where
  "fs_iface = \<lparr>Take = fs_Take, When = fs_When, Forget = fs_Forget, Retries = fs_Retries\<rparr>"

section \<open>The worst of several\<close>

text \<open>The limiters act on one state, the product of theirs; the loops run over the list.\<close>

fun max_Take :: "('k, 's) rate_limiter list \<Rightarrow> 'k \<Rightarrow> 's \<Rightarrow> bool \<times> 's" where
  "max_Take [] item s = (True, s)"
| "max_Take (l # ls) item s =
     (case Take l item s of (ok, s') \<Rightarrow> if \<not> ok then (False, s') else max_Take ls item s')"

fun max_When_loop :: "('k, 's) rate_limiter list \<Rightarrow> 'k \<Rightarrow> duration \<Rightarrow> 's \<Rightarrow> duration \<times> 's" where
  "max_When_loop [] item ret s = (ret, s)"
| "max_When_loop (l # ls) item ret s =
     (case When l item s of (cur, s') \<Rightarrow> max_When_loop ls item (if cur > ret then cur else ret) s')"

definition max_When :: "('k, 's) rate_limiter list \<Rightarrow> 'k \<Rightarrow> 's \<Rightarrow> duration \<times> 's" where
  "max_When ls item s = max_When_loop ls item 0 s"

fun max_Retries_loop :: "('k, 's) rate_limiter list \<Rightarrow> 'k \<Rightarrow> nat \<Rightarrow> 's \<Rightarrow> nat" where
  "max_Retries_loop [] item ret s = ret"
| "max_Retries_loop (l # ls) item ret s =
     (let cur = Retries l item s in max_Retries_loop ls item (if cur > ret then cur else ret) s)"

definition max_Retries :: "('k, 's) rate_limiter list \<Rightarrow> 'k \<Rightarrow> 's \<Rightarrow> nat" where
  "max_Retries ls item s = max_Retries_loop ls item 0 s"

fun max_Forget :: "('k, 's) rate_limiter list \<Rightarrow> 'k \<Rightarrow> 's \<Rightarrow> 's" where
  "max_Forget [] item s = s"
| "max_Forget (l # ls) item s = max_Forget ls item (Forget l item s)"

definition MaxOfRateLimiter :: "('k, 's) rate_limiter list \<Rightarrow> ('k, 's) rate_limiter" where
  "MaxOfRateLimiter ls = \<lparr>Take = max_Take ls, When = max_When ls, Forget = max_Forget ls, Retries = max_Retries ls\<rparr>"

section \<open>The token bucket in redis\<close>

text \<open>
  The Lua script \<open>allowN\<close>. What it calls on redis is a parameter: \<open>redis.call("get", k)\<close> read as a
  number (nil for a missing key) and \<open>redis.call("PSETEX", k, ttl, v)\<close>, which can fail.
\<close>

record 'r script_redis =
  call_get :: "string \<Rightarrow> 'r \<Rightarrow> rat option"
  call_PSETEX :: "string \<Rightarrow> int \<Rightarrow> rat \<Rightarrow> 'r \<Rightarrow> goerr + 'r"

definition allowN_script ::
  "'r script_redis \<Rightarrow> string \<Rightarrow> string \<Rightarrow> int \<Rightarrow> int \<Rightarrow> int \<Rightarrow> int \<Rightarrow> 'r \<Rightarrow> (goerr + bool) \<times> 'r" where
  "allowN_script redis key1 key2 rate capacity now consumed r =
     (let fill_time = 1000 * rat_of_int capacity / rat_of_int rate;
          ttl = \<lfloor>fill_time * 2\<rfloor>;
          current_tokens = (case call_get redis key1 r of None \<Rightarrow> rat_of_int capacity | Some n \<Rightarrow> n);
          last_refreshed = (case call_get redis key2 r of None \<Rightarrow> 0 | Some n \<Rightarrow> n);
          delta = max 0 (rat_of_int now - last_refreshed);
          filled_tokens = min (rat_of_int capacity) (current_tokens + delta * rat_of_int rate / 1000);
          allowed = (filled_tokens \<ge> rat_of_int consumed);
          new_tokens = (if allowed then filled_tokens - rat_of_int consumed else filled_tokens)
      in (case call_PSETEX redis key1 ttl new_tokens r of
            Inl err \<Rightarrow> (Inl err, r)
          | Inr r1 \<Rightarrow>
              (case call_PSETEX redis key2 ttl (rat_of_int now) r1 of
                 Inl err \<Rightarrow> (Inl err, r1)
               | Inr r2 \<Rightarrow> (Inr allowed, r2))))"

text \<open>
  The client: \<open>Run\<close> executes a script (or fails to reach the server), \<open>Del\<close> removes keys, and
  \<open>Ping(ctx).String()\<close> is the text of a ping command with its reply.
\<close>

record 'r token_client =
  script_calls :: "'r script_redis"
  run_fails :: "'r \<Rightarrow> goerr option"
  tok_Del :: "string list \<Rightarrow> 'r \<Rightarrow> 'r"

text \<open>\<open>Run(...).Bool()\<close>: Lua's \<open>false\<close> reaches the client as a nil reply, the error \<open>redis.Nil\<close>.\<close>

definition allowN_Run ::
  "'r token_client \<Rightarrow> string \<Rightarrow> string \<Rightarrow> int \<Rightarrow> int \<Rightarrow> int \<Rightarrow> int \<Rightarrow> 'r \<Rightarrow> (bool \<times> goerr option) \<times> 'r" where
  "allowN_Run rdb key1 key2 rate capacity now n r =
     (case run_fails rdb r of
        Some err \<Rightarrow> ((False, Some err), r)
      | None \<Rightarrow>
          (case allowN_script (script_calls rdb) key1 key2 rate capacity now n r of
             (Inl err, r') \<Rightarrow> ((False, Some err), r')
           | (Inr True, r') \<Rightarrow> ((True, None), r')
           | (Inr False, r') \<Rightarrow> ((False, Some RedisNil), r')))"

text \<open>
  The limiter's fields; \<open>waiters\<close> counts the goroutines \<open>waitForRedis\<close> that were started and have
  not run yet, \<open>rescueLock\<close> tells that one of them is in its loop.
\<close>

record ItemRedisTokenRateLimiter =
  tok_rate :: int
  tok_capacity :: int
  tokenKey :: string
  tsKey :: string
  tok_maxDelay :: duration

record ('r, 'b) token_state =
  tok_redis :: 'r
  redisAlive :: bool
  rescueLock :: bool
  waiters :: nat
  rescue :: 'b

text \<open>The keys of a bucket; their braces make redis keep both in one slot.\<close>

definition tokenFormat :: "string \<Rightarrow> string" where "tokenFormat key = ''{'' @ key @ ''}.tokens''"
definition timestampFormat :: "string \<Rightarrow> string" where "timestampFormat key = ''{'' @ key @ ''}.ts''"

definition NewItemRedisTokenRateLimiter :: "string \<Rightarrow> int \<Rightarrow> int \<Rightarrow> duration \<Rightarrow> ItemRedisTokenRateLimiter" where
  "NewItemRedisTokenRateLimiter key r b maxDelay =
     \<lparr>tok_rate = r, tok_capacity = b, tokenKey = tokenFormat key, tsKey = timestampFormat key,
      tok_maxDelay = maxDelay\<rparr>"

definition token_init :: "'r \<Rightarrow> 'b \<Rightarrow> ('r, 'b) token_state" where
  "token_init r b = \<lparr>tok_redis = r, redisAlive = True, rescueLock = False, waiters = 0, rescue = b\<rparr>"

definition rescue_Take :: "(unit, 'b) rate_limiter \<Rightarrow> ('r, 'b) token_state \<Rightarrow> bool \<times> ('r, 'b) token_state" where
  "rescue_Take resc s = (case Take resc () (rescue s) of (ok, b) \<Rightarrow> (ok, s\<lparr>rescue := b\<rparr>))"

definition reserveN ::
  "'r token_client \<Rightarrow> (unit, 'b) rate_limiter \<Rightarrow> ItemRedisTokenRateLimiter \<Rightarrow> int \<Rightarrow> ('r, 'b) token_state \<Rightarrow>
   bool \<times> ('r, 'b) token_state" where
  "reserveN rdb resc c nowMilli s =
     (if \<not> redisAlive s then rescue_Take resc s
      else
        (case allowN_Run rdb (tokenKey c) (tsKey c) (tok_rate c) (tok_capacity c) nowMilli 1 (tok_redis s) of
           ((ok, err), r') \<Rightarrow>
             (let s' = s\<lparr>tok_redis := r'\<rparr> in
              (case err of
                 None \<Rightarrow> (ok, s')
               | Some e \<Rightarrow>
                   if errors_Is e DeadlineExceeded \<or> errors_Is e Canceled then (False, s')
                   else if \<not> errors_Is e RedisNil then rescue_Take resc (s'\<lparr>waiters := waiters s' + 1\<rparr>)
                   else (ok, s')))))"

definition tok_Take ::
  "'r token_client \<Rightarrow> (unit, 'b) rate_limiter \<Rightarrow> ItemRedisTokenRateLimiter \<Rightarrow> int \<Rightarrow> 'k \<Rightarrow> ('r, 'b) token_state \<Rightarrow>
   bool \<times> ('r, 'b) token_state" where
  "tok_Take rdb resc c nowMilli item s = reserveN rdb resc c nowMilli s"

definition tok_When ::
  "'r token_client \<Rightarrow> (unit, 'b) rate_limiter \<Rightarrow> ItemRedisTokenRateLimiter \<Rightarrow> int \<Rightarrow> 'k \<Rightarrow> ('r, 'b) token_state \<Rightarrow>
   duration \<times> ('r, 'b) token_state" where
  "tok_When rdb resc c nowMilli item s =
     (case reserveN rdb resc c nowMilli s of (ok, s') \<Rightarrow> (if ok then 0 else tok_maxDelay c, s'))"

definition tok_Forget ::
  "'r token_client \<Rightarrow> ItemRedisTokenRateLimiter \<Rightarrow> 'k \<Rightarrow> ('r, 'b) token_state \<Rightarrow> ('r, 'b) token_state" where
  "tok_Forget rdb c item s = s\<lparr>tok_redis := tok_Del rdb [tokenKey c, tsKey c] (tok_redis s)\<rparr>"

definition tok_iface ::
  "'r token_client \<Rightarrow> (unit, 'b) rate_limiter \<Rightarrow> ItemRedisTokenRateLimiter \<Rightarrow> int \<Rightarrow>
   ('k, ('r, 'b) token_state) rate_limiter" where
  "tok_iface rdb resc c nowMilli =
     \<lparr>Take = tok_Take rdb resc c nowMilli, When = tok_When rdb resc c nowMilli, Forget = tok_Forget rdb c,
      Retries = (\<lambda>_ _. 0)\<rparr>"

text \<open>
  \<open>waitForRedis\<close>: its start (the \<open>TryLock\<close>, then the flag), and one tick of its ticker, given the
  text of the ping.
\<close>

definition waitForRedis_start :: "('r, 'b) token_state \<Rightarrow> ('r, 'b) token_state" where
  "waitForRedis_start s =
     (let s' = s\<lparr>waiters := waiters s - 1\<rparr> in
      if rescueLock s' then s' else s'\<lparr>rescueLock := True, redisAlive := False\<rparr>)"

definition waitForRedis_tick :: "string \<Rightarrow> ('r, 'b) token_state \<Rightarrow> ('r, 'b) token_state" where
  "waitForRedis_tick ping s =
     (if ping = ''pong'' then s\<lparr>redisAlive := True, rescueLock := False\<rparr> else s)"

text \<open>
  The limiter in use: requests at any time, the goroutines starting, and ticks of the one in its
  loop, with \<open>pings\<close> the texts a ping command can have.
\<close>

inductive token_step ::
  "'r token_client \<Rightarrow> (unit, 'b) rate_limiter \<Rightarrow> ItemRedisTokenRateLimiter \<Rightarrow> (string \<Rightarrow> bool) \<Rightarrow>
   ('r, 'b) token_state \<Rightarrow> ('r, 'b) token_state \<Rightarrow> bool"
  for rdb resc c pings where
  request: "token_step rdb resc c pings s (snd (reserveN rdb resc c now s))"
| forget: "token_step rdb resc c pings s (tok_Forget rdb c () s)"
| start: "0 < waiters s \<Longrightarrow> token_step rdb resc c pings s (waitForRedis_start s)"
| tick: "rescueLock s \<Longrightarrow> pings p \<Longrightarrow> token_step rdb resc c pings s (waitForRedis_tick p s)"

inductive_cases token_stepE: "token_step rdb resc c pings s s'"

section \<open>Backoff arithmetic\<close>

lemma round53_id: "0 \<le> x \<Longrightarrow> x < 2 ^ 53 \<Longrightarrow> round53 x = x"
proof -
  assume x: "0 \<le> x" "x < 2 ^ 53"
  then have "nat \<bar>x\<bar> < 2 ^ 53" by (simp add: nat_less_iff)
  then have "halvings (nat \<bar>x\<bar>) = 0" by (subst halvings.simps) simp
  then show ?thesis using x by (cases "x = 0") (simp_all add: round53_def Let_def)
qed

definition backoff_delay :: "int \<Rightarrow> duration \<Rightarrow> duration \<Rightarrow> nat \<Rightarrow> duration" where
  "backoff_delay oor base maxDelay n =
     min maxDelay (if base * 2 ^ n = 2 ^ 63 then oor else base * 2 ^ n)"

lemma backoff_f64:
  fixes base :: int
  assumes "0 < base" "base < 2 ^ 53"
  shows "mult_f64 (float64 base) (pow2 n) = (if 2 ^ 1024 \<le> base * 2 ^ n then PInf else Fin (base * 2 ^ n))"
proof -
  have "(2 :: int) ^ 1024 \<le> base * 2 ^ n" if "1024 \<le> n"
  proof -
    have "(2 :: int) ^ 1024 \<le> 2 ^ n" using that by (intro power_increasing) auto
    also have "\<dots> \<le> base * 2 ^ n" using assms by simp
    finally show ?thesis .
  qed
  moreover have "\<not> base * 2 ^ n \<le> - (2 ^ 1024)" using assms by (smt (verit) zero_less_mult_iff zero_less_power)
  ultimately show ?thesis using assms by (simp add: float64_def round53_id pow2_def finite_f64_def)
qed

lemma exp_When_delay:
  assumes "0 < exp_baseDelay r" "exp_baseDelay r < 2 ^ 53" "exp_maxDelay r < 2 ^ 63"
  shows "fst (exp_When oor item r) =
    backoff_delay oor (exp_baseDelay r) (exp_maxDelay r) (exp_Retries item r)"
proof -
  let ?n = "lookup (exp_failures r) item" and ?b = "exp_baseDelay r"
  have pos: "0 < ?b * 2 ^ ?n" using assms(1) by simp
  have big: "(2 :: int) ^ 63 < 2 ^ 1024" by simp
  show ?thesis
  proof (cases "2 ^ 63 < ?b * 2 ^ ?n")
    case True
    then show ?thesis
      using assms(3) by (simp add: exp_When_def Let_def backoff_f64 [OF assms(1,2)] backoff_delay_def exp_Retries_def)
  next
    case False
    then have "\<not> 2 ^ 1024 \<le> ?b * 2 ^ ?n" using big by linarith
    moreover have "int64_range (?b * 2 ^ ?n) \<longleftrightarrow> ?b * 2 ^ ?n \<noteq> 2 ^ 63"
      using False pos by (auto simp: int64_range_def)
    ultimately show ?thesis
      using False by (simp add: exp_When_def Let_def backoff_f64 [OF assms(1,2)] backoff_delay_def exp_Retries_def)
  qed
qed

section \<open>Limiters that count failures\<close>

text \<open>
  What the two failure-counting limiters promise: \<open>When\<close> answers the delay of the current count and
  counts one failure more of that item, \<open>Forget\<close> starts the item afresh, \<open>Take\<close> lets exactly the
  items pass that have no failure.
\<close>

datatype 'k event = Failed 'k | Forgotten 'k

text \<open>The reference: how many failures of an item came after it was last forgotten.\<close>

fun since_forgotten :: "'k \<Rightarrow> 'k event list \<Rightarrow> nat \<Rightarrow> nat" where
  "since_forgotten k [] n = n"
| "since_forgotten k (Failed j # es) n = since_forgotten k es (if j = k then n + 1 else n)"
| "since_forgotten k (Forgotten j # es) n = since_forgotten k es (if j = k then 0 else n)"

fun run_events :: "('k, 's) rate_limiter \<Rightarrow> 'k event list \<Rightarrow> 's \<Rightarrow> 's" where
  "run_events L [] s = s"
| "run_events L (Failed k # es) s = run_events L es (snd (When L k s))"
| "run_events L (Forgotten k # es) s = run_events L es (Forget L k s)"

locale failure_limiter =
  fixes L :: "('k, 's) rate_limiter"
    and delay :: "'s \<Rightarrow> nat \<Rightarrow> duration"
    and wf :: "'s \<Rightarrow> bool"
  assumes when_delay: "wf s \<Longrightarrow> fst (When L k s) = delay s (Retries L k s)"
    and when_count: "Retries L j (snd (When L k s)) = (if j = k then Retries L k s + 1 else Retries L j s)"
    and when_delays: "delay (snd (When L k s)) = delay s"
    and when_wf: "wf s \<Longrightarrow> wf (snd (When L k s))"
    and forget_count: "Retries L j (Forget L k s) = (if j = k then 0 else Retries L j s)"
    and forget_delays: "delay (Forget L k s) = delay s"
    and forget_wf: "wf s \<Longrightarrow> wf (Forget L k s)"
    and take_first: "wf s \<Longrightarrow> Take L k s = (Retries L k s = 0, s)"
begin

lemma run_wf: "wf s \<Longrightarrow> wf (run_events L es s)"
proof (induction es arbitrary: s)
  case (Cons e es)
  then show ?case by (cases e) (auto intro: when_wf forget_wf)
qed simp

lemma run_delays: "delay (run_events L es s) = delay s"
proof (induction es arbitrary: s)
  case (Cons e es)
  then show ?case by (cases e) (auto simp: when_delays forget_delays)
qed simp

lemma run_count: "Retries L k (run_events L es s) = since_forgotten k es (Retries L k s)"
proof (induction es arbitrary: s)
  case (Cons e es)
  then show ?case by (cases e) (auto simp: when_count forget_count)
qed simp

lemma run_when:
  assumes "wf s"
  shows "fst (When L k (run_events L es s)) = delay s (since_forgotten k es (Retries L k s))"
  by (simp add: when_delay [OF run_wf [OF assms]] run_delays run_count)

lemma run_take:
  assumes "wf s"
  shows "Take L k (run_events L es s) = (since_forgotten k es (Retries L k s) = 0, run_events L es s)"
  by (simp add: take_first [OF run_wf [OF assms]] run_count)

end

definition exp_wf :: "'k ItemExponentialFailureRateLimiter \<Rightarrow> bool" where
  "exp_wf r \<longleftrightarrow> 0 < exp_baseDelay r \<and> exp_baseDelay r < 2 ^ 53 \<and> exp_maxDelay r < 2 ^ 63 \<and>
     (\<forall>k. exp_failures r k \<noteq> Some 0)"

definition fs_wf :: "'k ItemFastSlowRateLimiter \<Rightarrow> bool" where
  "fs_wf r \<longleftrightarrow> (\<forall>k. fs_failures r k \<noteq> Some 0)"

lemma lookup_upd: "lookup (m(k := v)) j = (if j = k then (case v of None \<Rightarrow> 0 | Some n \<Rightarrow> n) else lookup m j)"
  by (simp add: lookup_def)

lemma exp_When_state:
  "snd (exp_When oor k r) = r\<lparr>exp_failures := (exp_failures r)(k \<mapsto> lookup (exp_failures r) k + 1)\<rparr>"
  by (simp add: exp_When_def Let_def)

lemma fs_When_state:
  "snd (fs_When k r) = r\<lparr>fs_failures := (fs_failures r)(k \<mapsto> lookup (fs_failures r) k + 1)\<rparr>"
  by (simp add: fs_When_def Let_def)

lemma lookup_0: "m k \<noteq> Some 0 \<Longrightarrow> (m k = None) = (lookup m k = 0)"
  by (auto simp: lookup_def split: option.splits)

interpretation exp: failure_limiter "exp_iface oor" "\<lambda>r. backoff_delay oor (exp_baseDelay r) (exp_maxDelay r)" exp_wf
  for oor
proof
  fix k j :: 'a and s :: "'a ItemExponentialFailureRateLimiter"
  show "exp_wf s \<Longrightarrow> fst (When (exp_iface oor) k s) =
      backoff_delay oor (exp_baseDelay s) (exp_maxDelay s) (Retries (exp_iface oor) k s)"
    by (simp add: exp_iface_def exp_wf_def exp_When_delay)
  show "exp_wf s \<Longrightarrow> Take (exp_iface oor) k s = (Retries (exp_iface oor) k s = 0, s)"
    using lookup_0 [of "exp_failures s" k] by (simp add: exp_iface_def exp_wf_def exp_Take_def exp_Retries_def)
qed (auto simp: exp_iface_def exp_wf_def exp_When_state exp_Forget_def exp_Retries_def lookup_upd)

interpretation fs: failure_limiter fs_iface
  "\<lambda>r n. if int n < maxFastAttempts r then fastDelay r else slowDelay r" fs_wf
proof
  fix k j :: 'a and s :: "'a ItemFastSlowRateLimiter"
  show "fs_wf s \<Longrightarrow> fst (When fs_iface k s) =
      (if int (Retries fs_iface k s) < maxFastAttempts s then fastDelay s else slowDelay s)"
    by (simp add: fs_iface_def fs_When_def Let_def fs_Retries_def lookup_upd)
  show "fs_wf s \<Longrightarrow> Take fs_iface k s = (Retries fs_iface k s = 0, s)"
    using lookup_0 [of "fs_failures s" k] by (simp add: fs_iface_def fs_wf_def fs_Take_def fs_Retries_def)
qed (auto simp: fs_iface_def fs_wf_def fs_When_state fs_Forget_def fs_Retries_def lookup_upd)

section \<open>The token bucket bound\<close>

text \<open>
  Redis as the script uses it: \<open>cell r k\<close> is a key's value and its deadline, \<open>clk r\<close> the clock of the
  server in milliseconds. A key is visible before its deadline; \<open>PSETEX\<close> wants a positive lifetime.
  \<open>clock_at t r\<close> is the state \<open>r\<close> when the clock shows \<open>t\<close>.
\<close>

locale token_store =
  fixes redis :: "'r script_redis"
    and cell :: "'r \<Rightarrow> string \<rightharpoonup> rat \<times> int"
    and clk :: "'r \<Rightarrow> int"
    and clock_at :: "int \<Rightarrow> 'r \<Rightarrow> 'r"
  assumes get_cell: "call_get redis k r =
        (case cell r k of None \<Rightarrow> None | Some (v, dl) \<Rightarrow> if clk r < dl then Some v else None)"
    and psetex_ok: "0 < ttl \<Longrightarrow> \<exists>r'. call_PSETEX redis k ttl v r = Inr r' \<and>
        cell r' = (cell r)(k \<mapsto> (v, clk r + ttl)) \<and> clk r' = clk r"
    and psetex_bad: "ttl \<le> 0 \<Longrightarrow> \<exists>e. call_PSETEX redis k ttl v r = Inl e"
    and at_cell: "cell (clock_at t r) = cell r"
    and at_clk: "clk (clock_at t r) = t"

text \<open>Requests for one token at the given times; how many of them are let through.\<close>

fun granted ::
  "'r script_redis \<Rightarrow> (int \<Rightarrow> 'r \<Rightarrow> 'r) \<Rightarrow> string \<Rightarrow> string \<Rightarrow> int \<Rightarrow> int \<Rightarrow> int list \<Rightarrow> 'r \<Rightarrow> nat" where
  "granted redis clock_at key1 key2 rate capacity [] r = 0"
| "granted redis clock_at key1 key2 rate capacity (t # ts) r =
     (case allowN_script redis key1 key2 rate capacity t 1 (clock_at t r) of
        (res, r') \<Rightarrow> (if res = Inr True then 1 else 0) + granted redis clock_at key1 key2 rate capacity ts r')"

context token_store begin

text \<open>The tokens a request at time \<open>t\<close> finds.\<close>

definition tokens_at :: "string \<Rightarrow> string \<Rightarrow> int \<Rightarrow> int \<Rightarrow> int \<Rightarrow> 'r \<Rightarrow> rat" where
  "tokens_at key1 key2 rate capacity t r =
     (let c = (case call_get redis key1 (clock_at t r) of None \<Rightarrow> rat_of_int capacity | Some n \<Rightarrow> n);
          l = (case call_get redis key2 (clock_at t r) of None \<Rightarrow> 0 | Some n \<Rightarrow> n)
      in min (rat_of_int capacity) (c + max 0 (rat_of_int t - l) * rat_of_int rate / 1000))"

lemma tokens_le: "tokens_at key1 key2 rate capacity t r \<le> rat_of_int capacity"
  by (simp add: tokens_at_def Let_def)

text \<open>The lifetime of the keys covers the time in which an empty bucket fills.\<close>

lemma ttl_fills:
  assumes "0 < rate" "0 < \<lfloor>1000 * rat_of_int capacity / rat_of_int rate * 2\<rfloor>"
    and "\<lfloor>1000 * rat_of_int capacity / rat_of_int rate * 2\<rfloor> \<le> d"
  shows "rat_of_int capacity \<le> rat_of_int d * rat_of_int rate / 1000"
proof -
  let ?f = "1000 * rat_of_int capacity / rat_of_int rate"
  have "?f * 2 < of_int \<lfloor>?f * 2\<rfloor> + 1" by (simp add: less_floor_iff) linarith
  moreover have "(1 :: rat) \<le> of_int \<lfloor>?f * 2\<rfloor>" using assms(2) by linarith
  ultimately have "?f \<le> of_int \<lfloor>?f * 2\<rfloor>" by linarith
  also have "\<dots> \<le> of_int d" using assms(3) by simp
  finally show ?thesis using assms(1) by (simp add: field_simps)
qed

lemma script_ok:
  fixes rate capacity :: int
  defines "ttl \<equiv> \<lfloor>1000 * rat_of_int capacity / rat_of_int rate * 2\<rfloor>"
  assumes "0 < ttl" "key1 \<noteq> key2"
  obtains r' where
    "allowN_script redis key1 key2 rate capacity t 1 (clock_at t r) =
       (Inr (1 \<le> tokens_at key1 key2 rate capacity t r), r')"
    "cell r' key1 = Some (tokens_at key1 key2 rate capacity t r -
       (if 1 \<le> tokens_at key1 key2 rate capacity t r then 1 else 0), t + ttl)"
    "cell r' key2 = Some (rat_of_int t, t + ttl)"
proof -
  let ?T = "tokens_at key1 key2 rate capacity t r"
  let ?n = "if 1 \<le> ?T then ?T - 1 else ?T"
  obtain r1 where r1: "call_PSETEX redis key1 ttl ?n (clock_at t r) = Inr r1"
    "cell r1 = (cell (clock_at t r))(key1 \<mapsto> (?n, clk (clock_at t r) + ttl))" "clk r1 = clk (clock_at t r)"
    using psetex_ok [OF assms(2)] by blast
  obtain r2 where r2: "call_PSETEX redis key2 ttl (rat_of_int t) r1 = Inr r2"
    "cell r2 = (cell r1)(key2 \<mapsto> (rat_of_int t, clk r1 + ttl))"
    using psetex_ok [OF assms(2)] by blast
  have "allowN_script redis key1 key2 rate capacity t 1 (clock_at t r) = (Inr (1 \<le> ?T), r2)"
    using r1(1) r2(1) by (simp only: allowN_script_def tokens_at_def ttl_def Let_def of_int_1 sum.case)
  then show ?thesis using that r1 r2 assms(3) by (simp add: at_clk)
qed

lemma granted_bound:
  fixes rate capacity :: int
  assumes rate: "0 < rate" and ttl: "0 < \<lfloor>1000 * rat_of_int capacity / rat_of_int rate * 2\<rfloor>"
    and keys: "key1 \<noteq> key2" and cap: "0 \<le> capacity"
  shows "sorted (t # ts) \<Longrightarrow> 0 \<le> tokens_at key1 key2 rate capacity t r \<Longrightarrow>
    rat_of_nat (granted redis clock_at key1 key2 rate capacity (t # ts) r) \<le>
      tokens_at key1 key2 rate capacity t r + rat_of_int (last (t # ts) - t) * rat_of_int rate / 1000"
proof (induction ts arbitrary: t r)
  case Nil
  obtain r' where "allowN_script redis key1 key2 rate capacity t 1 (clock_at t r) =
      (Inr (1 \<le> tokens_at key1 key2 rate capacity t r), r')"
    using script_ok [OF ttl keys] by metis
  then show ?case using Nil.prems by simp
next
  case (Cons u ts)
  let ?T = "tokens_at key1 key2 rate capacity t r"
  let ?ttl = "\<lfloor>1000 * rat_of_int capacity / rat_of_int rate * 2\<rfloor>"
  obtain r' where r': "allowN_script redis key1 key2 rate capacity t 1 (clock_at t r) = (Inr (1 \<le> ?T), r')"
    "cell r' key1 = Some (?T - (if 1 \<le> ?T then 1 else 0), t + ?ttl)"
    "cell r' key2 = Some (rat_of_int t, t + ?ttl)"
    using script_ok [OF ttl keys] by metis
  let ?U = "tokens_at key1 key2 rate capacity u r'"
  have tu: "t \<le> u" using Cons.prems by simp
  have kept: "0 \<le> ?T - (if 1 \<le> ?T then 1 else 0)" using Cons.prems by simp
  have flow: "0 \<le> rat_of_int (u - t) * rat_of_int rate / 1000" using rate tu by simp
  have "0 \<le> ?U \<and> ?U \<le> ?T - (if 1 \<le> ?T then 1 else 0) + rat_of_int (u - t) * rat_of_int rate / 1000"
  proof (cases "u < t + ?ttl")
    case True
    then show ?thesis using r' tu kept flow cap
      by (simp add: tokens_at_def get_cell at_cell at_clk max_def)
  next
    case False
    then have "?U = rat_of_int capacity"
      using r' cap rate by (simp add: tokens_at_def get_cell at_cell at_clk)
    moreover have "rat_of_int capacity \<le> rat_of_int (u - t) * rat_of_int rate / 1000"
      using ttl_fills [OF rate ttl, of "u - t"] False by simp
    ultimately show ?thesis using kept cap by linarith
  qed
  note U = this
  have IH: "rat_of_nat (granted redis clock_at key1 key2 rate capacity (u # ts) r') \<le>
      ?U + rat_of_int (last (u # ts) - u) * rat_of_int rate / 1000"
    using Cons.IH [of u r'] Cons.prems U by simp
  have sum: "rat_of_int (last (u # ts) - u) * rat_of_int rate / 1000 + rat_of_int (u - t) * rat_of_int rate / 1000 =
      rat_of_int (last (u # ts) - t) * rat_of_int rate / 1000"
    by (simp add: field_simps)
  have g: "rat_of_nat (granted redis clock_at key1 key2 rate capacity (t # u # ts) r) =
      (if 1 \<le> ?T then 1 else 0) + rat_of_nat (granted redis clock_at key1 key2 rate capacity (u # ts) r')"
    using r'(1) by (simp del: granted.simps add: granted.simps(2) [of redis clock_at key1 key2 rate capacity t])
  have l: "last (t # u # ts) = last (u # ts)" by simp
  have arith: "b + g \<le> T + z" if "g \<le> V + x" "V \<le> T - b + y" "x + y = z" for g V x T b y z :: rat
    using that by linarith
  show ?case unfolding g l by (rule arith [OF IH conjunct2 [OF U] sum])
qed

end

text \<open>A model of the store: the cells and the clock.\<close>

definition kv_redis :: "((string \<rightharpoonup> rat \<times> int) \<times> int) script_redis" where
  "kv_redis =
     \<lparr>call_get = (\<lambda>k (m, now). case m k of None \<Rightarrow> None | Some (v, dl) \<Rightarrow> if now < dl then Some v else None),
      call_PSETEX = (\<lambda>k ttl v (m, now).
        if ttl \<le> 0 then Inl (OtherError ''ERR invalid expire time in 'psetex' command'')
        else Inr (m(k \<mapsto> (v, now + ttl)), now))\<rparr>"

definition kv_at :: "int \<Rightarrow> (string \<rightharpoonup> rat \<times> int) \<times> int \<Rightarrow> (string \<rightharpoonup> rat \<times> int) \<times> int" where
  "kv_at t r = (fst r, t)"

interpretation kv: token_store kv_redis fst snd kv_at
  by unfold_locales (auto simp: kv_redis_def kv_at_def split: prod.splits option.splits)

section \<open>When redis is lost\<close>

lemma rescue_Take_frame [simp]:
  "redisAlive (snd (rescue_Take resc s)) = redisAlive s" "rescueLock (snd (rescue_Take resc s)) = rescueLock s"
  "waiters (snd (rescue_Take resc s)) = waiters s" "tok_redis (snd (rescue_Take resc s)) = tok_redis s"
  by (simp_all add: rescue_Take_def split: prod.split)

lemma reserveN_frame [simp]:
  "redisAlive (snd (reserveN rdb resc c now s)) = redisAlive s"
  "rescueLock (snd (reserveN rdb resc c now s)) = rescueLock s"
  by (simp_all add: reserveN_def Let_def split: prod.split option.split)

text \<open>The flag is down only while a goroutine holds the lock.\<close>

lemma token_step_lock:
  "token_step rdb resc c pings s s' \<Longrightarrow> (\<not> redisAlive s \<longrightarrow> rescueLock s) \<Longrightarrow> \<not> redisAlive s' \<longrightarrow> rescueLock s'"
  by (induction rule: token_step.induct)
    (auto simp: tok_Forget_def waitForRedis_start_def waitForRedis_tick_def Let_def)

lemma token_step_down:
  "token_step rdb resc c pings s s' \<Longrightarrow> \<not> pings ''pong'' \<Longrightarrow> \<not> redisAlive s \<Longrightarrow> \<not> redisAlive s'"
  by (induction rule: token_step.induct)
    (auto simp: tok_Forget_def waitForRedis_start_def waitForRedis_tick_def Let_def)

section \<open>Properties\<close>

text \<open>
  C25. Exponential backoff: for a base delay under 53 bits, the delay after \<open>n\<close> failures is
  \<open>base * 2 ^ n\<close> capped at the maximal delay, for every \<open>n\<close>, so neither the multiplication nor the
  conversion overflows; the one exception is \<open>base * 2 ^ n = 2 ^ 63\<close>, which slips through the guard
  \<open>backoff > math.MaxInt64\<close> and gives whatever the machine makes of an out-of-range conversion.
\<close>

theorem exp_backoff:
  assumes "0 < exp_baseDelay r" "exp_baseDelay r < 2 ^ 53" "exp_maxDelay r < 2 ^ 63"
  shows "fst (exp_When oor item r) =
    min (exp_maxDelay r)
      (if exp_baseDelay r * 2 ^ exp_Retries item r = 2 ^ 63 then oor
       else exp_baseDelay r * 2 ^ exp_Retries item r)"
  using exp_When_delay [OF assms] by (simp add: backoff_delay_def)

theorem exp_backoff_witness:
  "fst (exp_When 0 ''id'' (NewItemExponentialFailureRateLimiter 10000000 60000000000)) = 10000000 \<and>
   fst (exp_When (- (2 ^ 63)) ''id'' \<lparr>exp_failures = [''id'' \<mapsto> 63], exp_baseDelay = 1, exp_maxDelay = 1000\<rparr>) = - (2 ^ 63)"
  using exp_backoff [of "NewItemExponentialFailureRateLimiter 10000000 60000000000" 0 "''id''"]
    exp_backoff [of "\<lparr>exp_failures = [''id'' \<mapsto> 63], exp_baseDelay = 1, exp_maxDelay = 1000\<rparr>" "- (2 ^ 63)" "''id''"]
  by (simp add: NewItemExponentialFailureRateLimiter_def exp_Retries_def lookup_def)

text \<open>
  C26. Failure counts: after any sequence of \<open>When\<close> and \<open>Forget\<close> calls on any items, starting from a
  new limiter, both failure limiters report for an item the number of its failures since it was last
  forgotten, let the item pass \<open>Take\<close> exactly when that number is zero, and answer the next
  \<open>When\<close> with the delay for that number.
\<close>

theorem failure_counts:
  assumes "0 < base" "base < 2 ^ 53" "cap < 2 ^ 63"
    and "r = run_events (exp_iface oor) es (NewItemExponentialFailureRateLimiter base cap)"
    and "q = run_events fs_iface es (NewItemFastSlowRateLimiter fast slow attempts)"
    and "n = since_forgotten k es 0"
  shows "exp_Retries k r = n \<and> fst (exp_Take k r) = (n = 0) \<and> fst (exp_When oor k r) = backoff_delay oor base cap n \<and>
    fs_Retries k q = n \<and> fst (fs_Take k q) = (n = 0) \<and> fst (fs_When k q) = (if int n < attempts then fast else slow)"
proof -
  let ?r = "NewItemExponentialFailureRateLimiter base cap" and ?q = "NewItemFastSlowRateLimiter fast slow attempts"
  have r: "exp_wf ?r" "Retries (exp_iface oor) k ?r = 0"
    using assms(1-3)
    by (simp_all add: exp_wf_def NewItemExponentialFailureRateLimiter_def exp_iface_def exp_Retries_def lookup_def)
  have q: "fs_wf ?q" "Retries fs_iface k ?q = 0"
    by (simp_all add: fs_wf_def NewItemFastSlowRateLimiter_def fs_iface_def fs_Retries_def lookup_def)
  show ?thesis
    using exp.run_count [of oor k es ?r] exp.run_take [OF r(1), of oor k es] exp.run_when [OF r(1), of oor k es]
      fs.run_count [of k es ?q] fs.run_take [OF q(1), of k es] fs.run_when [OF q(1), of k es] r(2) q(2) assms(4-6)
    by (simp add: exp_iface_def fs_iface_def NewItemExponentialFailureRateLimiter_def NewItemFastSlowRateLimiter_def)
qed

theorem failure_counts_witness:
  "exp_Retries ''a'' (run_events (exp_iface 0) [Failed ''a'', Forgotten ''a'', Failed ''b'', Failed ''a'']
     (NewItemExponentialFailureRateLimiter 10000000 60000000000)) = 1 \<and>
   fst (fs_When ''a'' (run_events fs_iface [Failed ''a'', Failed ''a''] (NewItemFastSlowRateLimiter 5 10 2))) = 10"
  using failure_counts [of 10000000 60000000000 _ 0 "[Failed ''a'', Forgotten ''a'', Failed ''b'', Failed ''a'']" _ 5 10 2,
      OF _ _ _ refl refl refl, of "''a''"]
    failure_counts [of 10000000 60000000000 _ 0 "[Failed ''a'', Failed ''a'']" _ 5 10 2, OF _ _ _ refl refl refl, of "''a''"]
  by simp

text \<open>
  C12. The redis bucket keeps its rate: for requests at non-decreasing times, on a store with any
  content that is not in debt, the script lets through at most \<open>capacity\<close> requests plus \<open>rate\<close> per
  second of the time between the first and the last, although its keys expire and a missing key
  counts as a full bucket. Hypotheses: the keys live at least a millisecond, and the clock the clients
  send is the clock of the server.
\<close>

theorem token_bucket_bound:
  assumes "token_store redis cell clk clock_at"
    and "0 < rate" "0 \<le> capacity" "0 < \<lfloor>1000 * rat_of_int capacity / rat_of_int rate * 2\<rfloor>" "key1 \<noteq> key2"
    and "sorted (t # ts)" "\<And>k v dl. cell r k = Some (v, dl) \<Longrightarrow> 0 \<le> v"
  shows "rat_of_nat (granted redis clock_at key1 key2 rate capacity (t # ts) r) \<le>
    rat_of_int capacity + rat_of_int (last (t # ts) - t) * rat_of_int rate / 1000"
proof -
  have "0 \<le> token_store.tokens_at redis clock_at key1 key2 rate capacity t r"
    using assms(2,3,7)
    by (auto simp: token_store.tokens_at_def [OF assms(1)] Let_def token_store.get_cell [OF assms(1)]
        token_store.at_cell [OF assms(1)] split: option.split prod.split)
  from token_store.granted_bound [OF assms(1,2,4,5,3,6) this]
  show ?thesis using token_store.tokens_le [OF assms(1), of key1 key2 rate capacity t r] by linarith
qed

theorem token_bucket_bound_witness:
  "rat_of_nat (granted kv_redis kv_at ''t'' ''s'' 100 500 [0, 10, 2000] (Map.empty, 0)) \<le> 500 + 200"
proof -
  have "0 < \<lfloor>1000 * rat_of_int 500 / rat_of_int 100 * 2\<rfloor>" by simp
  from token_bucket_bound [OF kv.token_store_axioms _ _ this, of "''t''" "''s''" 0 "[10, 2000]" "(Map.empty, 0)"]
  show ?thesis by (simp del: granted.simps)
qed

text \<open>
  A rate above two thousand times the burst disables the bucket: the lifetime the script computes
  is then zero, redis refuses it, and every run of the script fails without letting a request through
  or storing anything.
\<close>

lemma token_script_rejects:
  assumes "token_store redis cell clk clock_at" "0 \<le> capacity" "2000 * capacity < rate"
  shows "\<exists>e. allowN_script redis key1 key2 rate capacity now n r = (Inl e, r)"
proof -
  have "1000 * rat_of_int capacity / rat_of_int rate * 2 < 1"
  proof -
    have "2000 * rat_of_int capacity < rat_of_int rate" using assms(3) of_int_less_iff [of "2000 * capacity" rate, where 'a = rat] by simp
    then show ?thesis using assms(2,3) by (simp add: divide_less_eq)
  qed
  then have ttl: "\<lfloor>1000 * rat_of_int capacity / rat_of_int rate * 2\<rfloor> \<le> 0" by linarith
  show ?thesis
    using token_store.psetex_bad [OF assms(1) ttl] unfolding allowN_script_def Let_def by (metis (no_types, lifting) sum.case(1))
qed

lemma token_script_rejects_witness:
  "\<exists>e. allowN_script kv_redis ''t'' ''s'' 5000 1 1720451186434 1 (Map.empty, 0) = (Inl e, (Map.empty, 0))"
  by (rule token_script_rejects [OF kv.token_store_axioms]) simp_all

text \<open>
  How a request is decided while redis is believed alive: a verdict of the script stands and
  starts no goroutine, whether it is yes or no; a request whose context ended is refused; any other
  error, of the connection or of the script, lets the in-process limiter decide and starts one
  \<open>waitForRedis\<close>. In every case at most one goroutine is started and the flag is untouched.
\<close>

lemma reserveN_decides:
  assumes "redisAlive s"
    and "allowN_Run rdb (tokenKey c) (tsKey c) (tok_rate c) (tok_capacity c) now 1 (tok_redis s) = ((ok, err), r')"
    and "res = fst (reserveN rdb resc c now s)" "s' = snd (reserveN rdb resc c now s)"
  shows "tok_redis s' = r' \<and> redisAlive s' \<and> rescueLock s' = rescueLock s \<and>
    (case err of
       None \<Rightarrow> res \<and> waiters s' = waiters s \<and> rescue s' = rescue s
     | Some RedisNil \<Rightarrow> \<not> res \<and> waiters s' = waiters s \<and> rescue s' = rescue s
     | Some e \<Rightarrow>
         if errors_Is e DeadlineExceeded \<or> errors_Is e Canceled
         then \<not> res \<and> waiters s' = waiters s \<and> rescue s' = rescue s
         else \<not> errors_Is e RedisNil \<longrightarrow>
           res = fst (Take resc () (rescue s)) \<and> rescue s' = snd (Take resc () (rescue s)) \<and>
           waiters s' = waiters s + 1)"
proof -
  have nil: "\<not> ok" if "err = Some e" for e
    using assms(2) that by (auto simp: allowN_Run_def split: option.splits prod.splits sum.splits bool.splits)
  have yes: "ok" if "err = None"
    using assms(2) that by (auto simp: allowN_Run_def split: option.splits prod.splits sum.splits bool.splits)
  show ?thesis
    using assms nil yes
    by (cases err) (auto simp: reserveN_def Let_def rescue_Take_def split: prod.splits goerr.splits)
qed

definition dead_client :: "unit token_client" where
  "dead_client = \<lparr>script_calls = \<lparr>call_get = (\<lambda>_ _. None), call_PSETEX = (\<lambda>_ _ _ r. Inr r)\<rparr>,
     run_fails = (\<lambda>_. Some (OtherError ''dial tcp: connection refused'')), tok_Del = (\<lambda>_ r. r)\<rparr>"

definition counter_limiter :: "(unit, nat) rate_limiter" where
  "counter_limiter = BucketRateLimiter \<lparr>Allow = (\<lambda>n. (0 < n, n - 1)), Reserve_Delay = (\<lambda>n. (0, n - 1))\<rparr>"

definition example_token_limiter :: ItemRedisTokenRateLimiter where
  "example_token_limiter = NewItemRedisTokenRateLimiter ''turl_rate_limit'' 100 500 1000000000"

lemma reserveN_decides_witness:
  "fst (reserveN dead_client counter_limiter example_token_limiter 0 (token_init () 3)) \<and>
   waiters (snd (reserveN dead_client counter_limiter example_token_limiter 0 (token_init () 3))) = 1"
  using reserveN_decides [of "token_init () (3 :: nat)" dead_client example_token_limiter 0 False
      "Some (OtherError ''dial tcp: connection refused'')" "()", OF _ _ refl refl, of counter_limiter]
  by (simp add: token_init_def allowN_Run_def dead_client_def counter_limiter_def BucketRateLimiter_def)

text \<open>
  C27. A lost redis is never found again: go-redis prints a ping command as \<open>ping: <reply>\<close>, which is
  never \<open>pong\<close>, so once the flag is down it stays down however long the limiter runs, and every later
  request is decided by the in-process limiter alone.
\<close>

theorem redis_never_back:
  assumes printed: "\<And>p. pings p \<Longrightarrow> \<exists>reply. p = ''ping: '' @ reply"
    and run: "(token_step rdb resc c pings)\<^sup>*\<^sup>* s s'" and down: "\<not> redisAlive s"
  shows "\<not> redisAlive s' \<and> reserveN rdb resc c now s' = rescue_Take resc s'"
proof -
  have "\<not> pings ''pong''" using printed by fastforce
  with run down have "\<not> redisAlive s'" by (induction rule: rtranclp_induct) (auto dest: token_step_down)
  then show ?thesis by (simp add: reserveN_def)
qed

theorem redis_never_back_witness:
  "\<not> redisAlive (waitForRedis_tick ''ping: PONG'' (token_init () (3 :: nat)\<lparr>redisAlive := False, rescueLock := True\<rparr>))"
proof -
  let ?s = "token_init () (3 :: nat)\<lparr>redisAlive := False, rescueLock := True\<rparr>"
  let ?P = "\<lambda>p. p = ''ping: PONG''"
  have "token_step dead_client counter_limiter example_token_limiter ?P ?s (waitForRedis_tick ''ping: PONG'' ?s)"
    by (rule token_step.tick) (simp_all add: token_init_def)
  then have run: "(token_step dead_client counter_limiter example_token_limiter ?P)\<^sup>*\<^sup>* ?s (waitForRedis_tick ''ping: PONG'' ?s)"
    by (rule r_into_rtranclp)
  show ?thesis
    by (rule redis_never_back [OF _ run, THEN conjunct1]) simp_all
qed

fun when_each :: "('k, 's) rate_limiter list \<Rightarrow> 'k \<Rightarrow> 's \<Rightarrow> duration list \<times> 's" where
  "when_each [] item s = ([], s)"
| "when_each (l # ls) item s =
     (case When l item s of (d, s') \<Rightarrow> (case when_each ls item s' of (ds, s'') \<Rightarrow> (d # ds, s'')))"

fun take_each :: "('k, 's) rate_limiter list \<Rightarrow> 'k \<Rightarrow> 's \<Rightarrow> bool list \<times> 's" where
  "take_each [] item s = ([], s)"
| "take_each (l # ls) item s =
     (case Take l item s of (b, s') \<Rightarrow>
        if b then (case take_each ls item s' of (bs, s'') \<Rightarrow> (b # bs, s'')) else ([b], s'))"

lemma max_When_loop_each:
  "max_When_loop ls item ret s = (fold max (fst (when_each ls item s)) ret, snd (when_each ls item s))"
proof (induction ls arbitrary: ret s)
  case (Cons l ls)
  have "(if d > ret then d else ret) = max d ret" for d by (simp add: max_def)
  then show ?case by (simp add: Cons.IH split: prod.split)
qed simp

text \<open>
  \<open>MaxOfRateLimiter\<close> answers the worst case: the item passes exactly when every limiter lets it
  pass, asked in order and no further than the first refusal; and it waits as long as the longest of
  the delays the limiters give when each is asked once.
\<close>

lemma max_of_worst:
  "max_When ls item s = (Max (set (0 # fst (when_each ls item s))), snd (when_each ls item s)) \<and>
   max_Take ls item s = ((\<forall>b\<in>set (fst (take_each ls item s)). b), snd (take_each ls item s))"
proof
  have "fold max ds x = Max (set (x # ds))" for ds and x :: int
    by (simp only: Max.set_eq_fold [symmetric])
  then show "max_When ls item s = (Max (set (0 # fst (when_each ls item s))), snd (when_each ls item s))"
    by (simp only: max_When_def max_When_loop_each)
  show "max_Take ls item s = ((\<forall>b\<in>set (fst (take_each ls item s)). b), snd (take_each ls item s))"
    by (induction ls arbitrary: s) (auto split: prod.split)
qed

end
