(* ===== verification/Tddl.thy ===== *)
theory Tddl
  imports Rate_Limiter Config
begin

text \<open>
  The package \<open>tddl\<close> (\<open>pkg/tddl/tddl.go\<close>): a client leases blocks of sequence numbers from one row
  of the table \<open>sequences\<close> by compare-and-swap and hands them out one by one through a channel.

  The gorm handle is a parameter. A client is its fields (\<open>tddlSequence\<close>) with the position of its
  worker goroutine; the calls on the database are separate steps, so the steps of different clients
  interleave between the read and the update of a lease. \<open>sys_step\<close> is the system of all clients
  of one row.
\<close>

section \<open>The table and the client\<close>

record Sequence =
  seq_ID :: nat
  seq_Name :: string
  seq_Sequence :: uint64
  seq_Version :: int

text \<open>
  The gorm calls: \<open>Where("name = ?").Take\<close>, \<open>Where("id = ?").Take\<close>, \<open>Create\<close> and
  \<open>Model(&seq).Update("sequence", v)\<close>, each with its error, its number of affected rows and the
  struct as gorm leaves it.
\<close>

record 'd seq_db =
  take_name :: "string \<Rightarrow> 'd \<Rightarrow> (goerr option \<times> int \<times> Sequence) \<times> 'd"
  take_id :: "nat \<Rightarrow> 'd \<Rightarrow> (goerr option \<times> int \<times> Sequence) \<times> 'd"
  create_seq :: "Sequence \<Rightarrow> 'd \<Rightarrow> (goerr option \<times> Sequence) \<times> 'd"
  update_seq :: "Sequence \<Rightarrow> uint64 \<Rightarrow> 'd \<Rightarrow> (goerr option \<times> int \<times> Sequence) \<times> 'd"

definition zero_Sequence :: Sequence where
  "zero_Sequence = \<lparr>seq_ID = 0, seq_Name = [], seq_Sequence = 0, seq_Version = 0\<rparr>"

record tddlSequence =
  clientID :: string
  rowID :: nat
  tddl_step :: uint64
  tddl_max :: uint64
  tddl_curr :: uint64
  tddl_stop :: bool
  rateLimiter :: "string ItemExponentialFailureRateLimiter"

definition retryInterval :: duration where
  "retryInterval = 10 * 1000000"

definition createRecord :: "'d seq_db \<Rightarrow> string \<Rightarrow> uint64 \<Rightarrow> 'd \<Rightarrow> (goerr + nat) \<times> 'd" where
  "createRecord db seqName startNum d =
     (let seq = zero_Sequence\<lparr>seq_Name := seqName, seq_Sequence := startNum\<rparr> in
      (case create_seq db seq d of
         ((Some err, seq), d') \<Rightarrow> (Inl err, d')
       | ((None, seq), d') \<Rightarrow> (Inr (seq_ID seq), d')))"

definition getRowID :: "'d seq_db \<Rightarrow> string \<Rightarrow> uint64 \<Rightarrow> 'd \<Rightarrow> (goerr + nat) \<times> 'd" where
  "getRowID db seqName startNum d =
     (case take_name db seqName d of
        ((err, rowsAffected, seq), d') \<Rightarrow>
          if err \<noteq> None \<and> \<not> errors_Is (the err) ErrRecordNotFound then (Inl (the err), d')
          else if rowsAffected = 1 then (Inr (seq_ID seq), d')
          else createRecord db seqName startNum d')"

section \<open>Renewing a lease\<close>

text \<open>
  Where the loop of \<open>renew\<close> stands: before its \<open>select\<close>, holding the row it took, asleep after a
  failed attempt, past the \<open>break\<close> with the updated row, or returned.
\<close>

datatype renew_pc = RTop | RTaken Sequence | RSleep duration | RBreak Sequence | RReturn

definition renew_backoff :: "int \<Rightarrow> tddlSequence \<Rightarrow> renew_pc \<times> tddlSequence" where
  "renew_backoff oor s =
     (case exp_When oor (clientID s) (rateLimiter s) of
        (delay, rl) \<Rightarrow> (RSleep delay, s\<lparr>rateLimiter := rl\<rparr>))"

text \<open>The deferred \<open>Forget\<close>, run on every return.\<close>

definition renew_return :: "tddlSequence \<Rightarrow> renew_pc \<times> tddlSequence" where
  "renew_return s = (RReturn, s\<lparr>rateLimiter := exp_Forget (clientID s) (rateLimiter s)\<rparr>)"

fun renew_step :: "'d seq_db \<Rightarrow> int \<Rightarrow> renew_pc \<Rightarrow> tddlSequence \<Rightarrow> 'd \<Rightarrow> (renew_pc \<times> tddlSequence) \<times> 'd" where
  "renew_step db oor RTop s d =
     (if tddl_stop s then (renew_return s, d)
      else
        (case take_id db (rowID s) d of
           ((None, _, seq), d') \<Rightarrow> ((RTaken seq, s), d')
         | ((Some err, _, _), d') \<Rightarrow> (renew_backoff oor s, d')))"
| "renew_step db oor (RTaken seq) s d =
     (case update_seq db seq (seq_Sequence seq + tddl_step s) d of
        ((err, rowsAffected, seq'), d') \<Rightarrow>
          if err = None \<and> rowsAffected = 1 then ((RBreak seq', s), d') else (renew_backoff oor s, d'))"
| "renew_step db oor (RSleep delay) s d = ((RTop, s), d)"
| "renew_step db oor (RBreak seq) s d =
     (renew_return (s\<lparr>tddl_curr := seq_Sequence seq - tddl_step s, tddl_max := seq_Sequence seq\<rparr>), d)"
| "renew_step db oor RReturn s d = ((RReturn, s), d)"

text \<open>A whole call of \<open>renew\<close>, which need not end: \<open>None\<close> is a call that never returns.\<close>

partial_function (option) renew_from ::
  "'d seq_db \<Rightarrow> int \<Rightarrow> renew_pc \<Rightarrow> tddlSequence \<Rightarrow> 'd \<Rightarrow> (tddlSequence \<times> 'd) option" where
  "renew_from db oor pc s d =
     (if pc = RReturn then Some (s, d)
      else (case renew_step db oor pc s d of ((pc', s'), d') \<Rightarrow> renew_from db oor pc' s' d'))"

definition renew :: "'d seq_db \<Rightarrow> int \<Rightarrow> tddlSequence \<Rightarrow> 'd \<Rightarrow> (tddlSequence \<times> 'd) option" where
  "renew db oor s d = renew_from db oor RTop s d"

section \<open>The worker\<close>

text \<open>
  A client before its worker runs (\<open>newSequence\<close> is in its first \<open>renew\<close>), offering a number on the
  channel, renewing, or ended.
\<close>

datatype worker_pc = Starting renew_pc | Offering uint64 | Renewing renew_pc | Exited

record client =
  self :: tddlSequence
  pc :: worker_pc

text \<open>\<open>for next >= s.max { s.renew(); next = s.curr.Load() }\<close>\<close>

definition worker_loop :: "uint64 \<Rightarrow> tddlSequence \<Rightarrow> client" where
  "worker_loop next s =
     (if next \<ge> tddl_max s then \<lparr>self = s, pc = Renewing RTop\<rparr> else \<lparr>self = s, pc = Offering next\<rparr>)"

text \<open>A step the client makes by itself; an offer waits for a receiver or for the stop signal.\<close>

definition internal_step :: "'d seq_db \<Rightarrow> int \<Rightarrow> client \<Rightarrow> 'd \<Rightarrow> client \<times> 'd" where
  "internal_step db oor c d =
     (let s = self c in
      case pc c of
        Starting RReturn \<Rightarrow> (\<lparr>self = s, pc = Offering (tddl_curr s)\<rparr>, d)
      | Starting r \<Rightarrow>
          (case renew_step db oor r s d of ((r', s'), d') \<Rightarrow> (\<lparr>self = s', pc = Starting r'\<rparr>, d'))
      | Renewing RReturn \<Rightarrow> (worker_loop (tddl_curr s) s, d)
      | Renewing r \<Rightarrow>
          (case renew_step db oor r s d of ((r', s'), d') \<Rightarrow> (\<lparr>self = s', pc = Renewing r'\<rparr>, d'))
      | Offering n \<Rightarrow> (if tddl_stop s then \<lparr>self = s, pc = Exited\<rparr> else c, d)
      | Exited \<Rightarrow> (c, d))"

text \<open>The send on the channel meets a receive: the number goes out, the worker goes on.\<close>

definition deliver :: "tddlSequence \<Rightarrow> client" where
  "deliver s = (let next = tddl_curr s + 1 in worker_loop next (s\<lparr>tddl_curr := next\<rparr>))"

text \<open>
  \<open>newSequence\<close> up to its first \<open>renew\<close>: the client it builds, with the identity uuid gave it.
\<close>

definition newSequence :: "'d seq_db \<Rightarrow> string \<Rightarrow> TDDLConfig \<Rightarrow> 'd \<Rightarrow> client outcome \<times> 'd" where
  "newSequence db uuid c d =
     (if tddl_Step c < 1 then (Err ErrStepTooSmall, d)
      else
        (case getRowID db (tddl_SeqName c) (tddl_StartNum c) d of
           (Inl err, d') \<Rightarrow> (Err err, d')
         | (Inr row, d') \<Rightarrow>
             (Ret \<lparr>self = \<lparr>clientID = uuid, rowID = row, tddl_step = tddl_Step c, tddl_max = 0, tddl_curr = 0,
                     tddl_stop = False,
                     rateLimiter = NewItemExponentialFailureRateLimiter retryInterval (60 * Second)\<rparr>,
                   pc = Starting RTop\<rparr>, d')))"

text \<open>
  \<open>Next\<close>: a context is the number of worker steps until it is done, with its error. The worker runs
  until it offers a number or the context is done.
\<close>

datatype ctx = Ctx nat goerr

fun Next_loop :: "'d seq_db \<Rightarrow> int \<Rightarrow> nat \<Rightarrow> goerr \<Rightarrow> client \<times> 'd \<Rightarrow> uint64 outcome \<times> client \<times> 'd" where
  "Next_loop db oor n e (c, d) =
     (case pc c of
        Offering v \<Rightarrow> (Ret v, deliver (self c), d)
      | _ \<Rightarrow>
          (case n of
             0 \<Rightarrow> (Err e, c, d)
           | Suc m \<Rightarrow> Next_loop db oor m e (internal_step db oor c d)))"

fun Next :: "'d seq_db \<Rightarrow> int \<Rightarrow> ctx \<Rightarrow> client \<times> 'd \<Rightarrow> uint64 outcome \<times> client \<times> 'd" where
  "Next db oor (Ctx 0 e) cd = (Err e, cd)"
| "Next db oor (Ctx (Suc n) e) cd = Next_loop db oor n e cd"

text \<open>
  \<open>Close\<close> raises the signal and then waits for the worker, which goes on by itself, to end;
  \<open>None\<close> is a wait that never ends. The wait is the one in which no caller of \<open>Next\<close> takes a number any more; in \<open>sys_step\<close>, below, numbers
  may be handed out after the signal. The program closes a client once; a second \<open>Close\<close> would close the channel again, which panics, and is
  not modelled.
\<close>

definition Close_signal :: "client \<Rightarrow> client" where
  "Close_signal c = c\<lparr>self := (self c)\<lparr>tddl_stop := True\<rparr>\<rparr>"

partial_function (option) Close_wait :: "'d seq_db \<Rightarrow> int \<Rightarrow> client \<Rightarrow> 'd \<Rightarrow> (client \<times> 'd) option" where
  "Close_wait db oor c d =
     (if pc c = Exited then Some (c, d)
      else (case internal_step db oor c d of (c', d') \<Rightarrow> Close_wait db oor c' d'))"

definition tddl_Close :: "'d seq_db \<Rightarrow> int \<Rightarrow> client \<times> 'd \<Rightarrow> (client \<times> 'd) option" where
  "tddl_Close db oor cd = Close_wait db oor (Close_signal (fst cd)) (snd cd)"

declare Next_loop.simps [simp del]

section \<open>The system of clients\<close>

text \<open>
  All the clients of one row, in one process or in many: a client joins (with a step of at most
  \<open>2 ^ 63\<close>), a worker makes a step of its own, a number is handed to a caller of \<open>Next\<close>, or a client is
  closed, which its owner can do once \<open>newSequence\<close> has returned. \<open>handed\<close> is the history of the numbers
  handed out.
\<close>

record 'd sys =
  clients :: "client list"
  table :: 'd
  handed :: "uint64 list"

inductive sys_step :: "'d seq_db \<Rightarrow> int \<Rightarrow> nat \<Rightarrow> 'd sys \<Rightarrow> 'd sys \<Rightarrow> bool"
  for db oor row where
  join: "newSequence db uuid cfg (table S) = (Ret c, d') \<Longrightarrow> rowID (self c) = row \<Longrightarrow> tddl_Step cfg \<le> 2 ^ 63 \<Longrightarrow>
    sys_step db oor row S (S\<lparr>clients := clients S @ [c], table := d'\<rparr>)"
| work: "i < length (clients S) \<Longrightarrow> internal_step db oor (clients S ! i) (table S) = (c, d') \<Longrightarrow>
    sys_step db oor row S (S\<lparr>clients := (clients S)[i := c], table := d'\<rparr>)"
| hand: "i < length (clients S) \<Longrightarrow> pc (clients S ! i) = Offering v \<Longrightarrow>
    sys_step db oor row S (S\<lparr>clients := (clients S)[i := deliver (self (clients S ! i))], handed := handed S @ [v]\<rparr>)"
| close: "i < length (clients S) \<Longrightarrow> (\<And>r. pc (clients S ! i) \<noteq> Starting r) \<Longrightarrow>
    sys_step db oor row S (S\<lparr>clients := (clients S)[i := Close_signal (clients S ! i)]\<rparr>)"

inductive_cases sys_stepE: "sys_step db oor row S S'"

section \<open>What the table promises\<close>

text \<open>
  \<open>cell d i\<close> is the value and the version of row \<open>i\<close>. Reads change nothing, \<open>Create\<close> touches no
  existing row, and \<open>Update\<close> on a model with the optimistic lock is a compare-and-swap on the
  version: it changes the row only when the version is still the one that was read, and then raises
  it. A call that failed may have taken effect. The column is a signed \<open>bigint\<close>.
\<close>

locale sequence_table =
  fixes db :: "'d seq_db"
    and cell :: "'d \<Rightarrow> nat \<rightharpoonup> uint64 \<times> int"
  assumes take_id_ok: "take_id db i d = ((None, n, seq), d') \<Longrightarrow>
        seq_ID seq = i \<and> cell d i = Some (seq_Sequence seq, seq_Version seq)"
    and take_id_keeps: "cell (snd (take_id db i d)) = cell d"
    and take_name_keeps: "cell (snd (take_name db nm d)) = cell d"
    and create_keeps: "cell d i = Some x \<Longrightarrow> cell (snd (create_seq db q d)) i = Some x"
    and update_ok: "update_seq db seq v d = ((None, 1, seq'), d') \<Longrightarrow>
        seq_Sequence seq' = v \<and> (\<exists>x. cell d (seq_ID seq) = Some (x, seq_Version seq)) \<and>
        cell d' = (cell d)(seq_ID seq \<mapsto> (v, seq_Version seq + 1))"
    and update_any: "cell (snd (update_seq db seq v d)) = cell d \<or>
        (\<exists>x. cell d (seq_ID seq) = Some (x, seq_Version seq)) \<and>
        cell (snd (update_seq db seq v d)) = (cell d)(seq_ID seq \<mapsto> (v, seq_Version seq + 1))"
    and bigint: "cell d i = Some (v, k) \<Longrightarrow> unat v < 2 ^ 63"

section \<open>No number is handed out twice\<close>

text \<open>The numbers a client still has to hand out.\<close>

fun renew_lease :: "uint64 \<Rightarrow> renew_pc \<Rightarrow> tddlSequence \<Rightarrow> nat set" where
  "renew_lease st (RBreak seq) s = {unat (seq_Sequence seq - st)..<unat (seq_Sequence seq)}"
| "renew_lease st RReturn s = {unat (tddl_curr s)..<unat (tddl_max s)}"
| "renew_lease st _ s = {}"

fun lease :: "client \<Rightarrow> nat set" where
  "lease c = (case pc c of
     Starting r \<Rightarrow> renew_lease (tddl_step (self c)) r (self c)
   | Renewing r \<Rightarrow> renew_lease (tddl_step (self c)) r (self c)
   | Offering n \<Rightarrow> {unat (tddl_curr (self c))..<unat (tddl_max (self c))}
   | Exited \<Rightarrow> {})"

declare lease.simps [simp del]

lemma renew_lease_stop: "renew_lease st r (s\<lparr>tddl_stop := b\<rparr>) = renew_lease st r s"
  by (cases r) auto

text \<open>The steps the no-repeat theorem speaks of: at least one, and no more than half the range.\<close>

definition step_ok :: "uint64 \<Rightarrow> bool" where
  "step_ok st \<longleftrightarrow> st \<noteq> 0 \<and> st \<le> 2 ^ 63"

context sequence_table begin

definition bound :: "nat \<Rightarrow> 'd \<Rightarrow> nat" where
  "bound row d = (case cell d row of None \<Rightarrow> 0 | Some (v, k) \<Rightarrow> unat v)"

text \<open>How the row evolves.\<close>

definition grows :: "nat \<Rightarrow> 'd \<Rightarrow> 'd \<Rightarrow> bool" where
  "grows row d d' \<longleftrightarrow> (\<forall>v k. cell d row = Some (v, k) \<longrightarrow>
     (\<exists>v' k'. cell d' row = Some (v', k') \<and> unat v \<le> unat v' \<and> k \<le> k' \<and> (k = k' \<longrightarrow> v = v')))"

text \<open>A row that was read is current or outdated.\<close>

definition read_ok :: "nat \<Rightarrow> 'd \<Rightarrow> Sequence \<Rightarrow> bool" where
  "read_ok row d seq \<longleftrightarrow> seq_ID seq = row \<and> (\<exists>v k. cell d row = Some (v, k) \<and> seq_Version seq \<le> k \<and>
     (seq_Version seq = k \<longrightarrow> seq_Sequence seq = v))"

fun renew_ok :: "nat \<Rightarrow> 'd \<Rightarrow> tddlSequence \<Rightarrow> renew_pc \<Rightarrow> bool" where
  "renew_ok row d s (RTaken seq) \<longleftrightarrow> read_ok row d seq"
| "renew_ok row d s (RBreak seq) \<longleftrightarrow> seq_Sequence seq - tddl_step s < seq_Sequence seq"
| "renew_ok row d s _ \<longleftrightarrow> True"

definition client_ok :: "nat \<Rightarrow> 'd \<Rightarrow> client \<Rightarrow> bool" where
  "client_ok row d c \<longleftrightarrow> rowID (self c) = row \<and> step_ok (tddl_step (self c)) \<and>
     (case pc c of
        Starting r \<Rightarrow> renew_ok row d (self c) r \<and> \<not> tddl_stop (self c) \<and>
          (r = RReturn \<longrightarrow> tddl_curr (self c) < tddl_max (self c))
      | Renewing r \<Rightarrow> renew_ok row d (self c) r \<and> (r \<noteq> RReturn \<longrightarrow> tddl_max (self c) \<le> tddl_curr (self c))
      | Offering n \<Rightarrow> n = tddl_curr (self c) \<and> n < tddl_max (self c)
      | Exited \<Rightarrow> True)"

lemma grows_refl [simp]: "cell d' = cell d \<Longrightarrow> grows row d d'"
  by (auto simp: grows_def)

lemma grows_bound: "grows row d d' \<Longrightarrow> bound row d \<le> bound row d'"
  by (auto simp: grows_def bound_def split: option.splits)

lemma read_ok_grows:
  assumes "grows row d d'" "read_ok row d seq"
  shows "read_ok row d' seq"
proof -
  obtain v k where c: "seq_ID seq = row" "cell d row = Some (v, k)" "seq_Version seq \<le> k"
    "seq_Version seq = k \<longrightarrow> seq_Sequence seq = v" using assms(2) by (auto simp: read_ok_def)
  obtain v' k' where "cell d' row = Some (v', k')" "k \<le> k'" "k = k' \<longrightarrow> v = v'"
    using assms(1) c(2) by (auto simp: grows_def)
  then show ?thesis using c by (auto simp: read_ok_def)
qed

lemma renew_ok_grows: "grows row d d' \<Longrightarrow> renew_ok row d s r \<Longrightarrow> renew_ok row d' s r"
  by (cases r) (auto intro: read_ok_grows)

lemma client_ok_grows: "grows row d d' \<Longrightarrow> client_ok row d c \<Longrightarrow> client_ok row d' c"
  by (auto simp: client_ok_def split: worker_pc.splits intro: renew_ok_grows)

lemma cas:
  assumes "read_ok row d seq" "step_ok st"
    and "cell d row = Some (x, seq_Version seq)" "cell d' = (cell d)(row \<mapsto> (seq_Sequence seq + st, seq_Version seq + 1))"
  shows "grows row d d'" and "bound row d = unat (seq_Sequence seq)"
    and "bound row d' = unat (seq_Sequence seq) + unat st" and "unat (seq_Sequence seq + st) = unat (seq_Sequence seq) + unat st"
proof -
  have x: "seq_Sequence seq = x" using assms(1,3) by (auto simp: read_ok_def)
  have "unat x < 2 ^ 63" using bigint [OF assms(3)] .
  moreover have "unat st \<le> 2 ^ 63" using assms(2) by (simp add: step_ok_def word_le_nat_alt)
  ultimately have sum: "unat (x + st) = unat x + unat st" by (simp add: unat_word_ariths)
  then show "grows row d d'" using assms(3,4) x by (auto simp: grows_def)
  show "bound row d = unat (seq_Sequence seq)" using assms(3) x by (simp add: bound_def)
  show "bound row d' = unat (seq_Sequence seq) + unat st" using assms(4) x sum by (simp add: bound_def)
  show "unat (seq_Sequence seq + st) = unat (seq_Sequence seq) + unat st" using x sum by simp
qed

end

context sequence_table begin

lemma renew_backoff_simps:
  "\<exists>delay rl. renew_backoff oor s = (RSleep delay, s\<lparr>rateLimiter := rl\<rparr>)"
  by (auto simp: renew_backoff_def split: prod.split)

text \<open>One step of \<open>renew\<close>: the row only grows, and a lease gained is above everything leased before.\<close>

lemma renew_step_ok:
  assumes step: "renew_step db oor r s d = ((r', s'), d')" and r: "r \<noteq> RReturn" "renew_ok row d s r"
    and s: "rowID s = row" "step_ok (tddl_step s)"
  shows "grows row d d'" "renew_ok row d' s' r'" "rowID s' = row" "tddl_step s' = tddl_step s" "tddl_stop s' = tddl_stop s"
    "r' \<noteq> RReturn \<Longrightarrow> tddl_curr s' = tddl_curr s \<and> tddl_max s' = tddl_max s"
    "r' = RReturn \<Longrightarrow> tddl_curr s' < tddl_max s' \<or> tddl_stop s \<and> tddl_curr s' = tddl_curr s \<and> tddl_max s' = tddl_max s"
    "(tddl_stop s \<Longrightarrow> tddl_max s \<le> tddl_curr s) \<Longrightarrow>
      renew_lease (tddl_step s) r' s' \<subseteq> renew_lease (tddl_step s) r s \<or>
      renew_lease (tddl_step s) r' s' \<subseteq> {bound row d..<bound row d'}"
proof -
  have "grows row d d' \<and> renew_ok row d' s' r' \<and> rowID s' = row \<and> tddl_step s' = tddl_step s \<and>
    tddl_stop s' = tddl_stop s \<and> (r' \<noteq> RReturn \<longrightarrow> tddl_curr s' = tddl_curr s \<and> tddl_max s' = tddl_max s) \<and>
    (r' = RReturn \<longrightarrow> tddl_curr s' < tddl_max s' \<or> tddl_stop s \<and> tddl_curr s' = tddl_curr s \<and> tddl_max s' = tddl_max s) \<and>
    ((tddl_stop s \<longrightarrow> tddl_max s \<le> tddl_curr s) \<longrightarrow>
      renew_lease (tddl_step s) r' s' \<subseteq> renew_lease (tddl_step s) r s \<or>
      renew_lease (tddl_step s) r' s' \<subseteq> {bound row d..<bound row d'})"
  proof (cases r)
    case RTop
    have keeps: "cell (snd (take_id db row d)) = cell d" by (rule take_id_keeps)
    have "read_ok row d' seq" if "take_id db row d = ((None, n, seq), d')" for n seq
      using take_id_ok [OF that] keeps that by (auto simp: read_ok_def)
    then show ?thesis
      using step RTop s keeps renew_backoff_simps [of oor s]
      by (auto simp: renew_return_def word_le_nat_alt split: if_splits prod.splits option.splits)
  next
    case (RTaken seq)
    then have read: "read_ok row d seq" and id: "seq_ID seq = row" using r by (auto simp: read_ok_def)
    obtain err n seq' where u: "update_seq db seq (seq_Sequence seq + tddl_step s) d = ((err, n, seq'), d')"
      using step RTaken by (auto split: prod.splits if_splits)
    show ?thesis
    proof (cases "err = None \<and> n = 1")
      case True
      with u have u: "update_seq db seq (seq_Sequence seq + tddl_step s) d = ((None, 1, seq'), d')" by simp
      obtain x where x: "cell d row = Some (x, seq_Version seq)" and seq': "seq_Sequence seq' = seq_Sequence seq + tddl_step s"
        and d': "cell d' = (cell d)(row \<mapsto> (seq_Sequence seq + tddl_step s, seq_Version seq + 1))"
        using update_ok [OF u] id by auto
      note c = cas [OF read s(2) x d']
      have "0 < unat (tddl_step s)" using s(2) by (simp add: step_ok_def unat_gt_0)
      then show ?thesis
        using step RTaken u seq' s c by (auto simp: word_less_nat_alt)
    next
      case False
      then have slept: "(r', s') = renew_backoff oor s" using step RTaken u by (auto split: if_splits)
      have "grows row d d'"
        using update_any [of seq "seq_Sequence seq + tddl_step s" d] u id cas(1) [OF read s(2), of _ d'] by auto
      then show ?thesis using slept s renew_backoff_simps [of oor s] by auto
    qed
  next
    case (RBreak seq)
    then show ?thesis using step r s by (auto simp: renew_return_def)
  qed (use step r s in auto)
  then show "grows row d d'" "renew_ok row d' s' r'" "rowID s' = row" "tddl_step s' = tddl_step s" "tddl_stop s' = tddl_stop s"
    "r' \<noteq> RReturn \<Longrightarrow> tddl_curr s' = tddl_curr s \<and> tddl_max s' = tddl_max s"
    "r' = RReturn \<Longrightarrow> tddl_curr s' < tddl_max s' \<or> tddl_stop s \<and> tddl_curr s' = tddl_curr s \<and> tddl_max s' = tddl_max s"
    "(tddl_stop s \<Longrightarrow> tddl_max s \<le> tddl_curr s) \<Longrightarrow>
      renew_lease (tddl_step s) r' s' \<subseteq> renew_lease (tddl_step s) r s \<or>
      renew_lease (tddl_step s) r' s' \<subseteq> {bound row d..<bound row d'}"
    by blast+
qed

end

context sequence_table begin

lemma worker_loop_ok:
  assumes "rowID s = row" "step_ok (tddl_step s)"
  shows "client_ok row d (worker_loop (tddl_curr s) s)"
    "lease (worker_loop (tddl_curr s) s) = {unat (tddl_curr s)..<unat (tddl_max s)}"
  using assms by (auto simp: worker_loop_def client_ok_def lease.simps word_le_nat_alt word_less_nat_alt)

lemma renewing_ok:
  assumes step: "renew_step db oor r (self c) d = ((r', s'), d')" and pc: "pc c = Starting r \<or> pc c = Renewing r"
    and ok: "client_ok row d c" and r: "r \<noteq> RReturn"
    and c': "c' = \<lparr>self = s', pc = (if pc c = Starting r then Starting r' else Renewing r')\<rparr>"
  shows "grows row d d' \<and> client_ok row d' c' \<and> (lease c' \<subseteq> lease c \<or> lease c' \<subseteq> {bound row d..<bound row d'})"
proof -
  have s: "rowID (self c) = row" "step_ok (tddl_step (self c))" "renew_ok row d (self c) r"
    "pc c = Starting r \<Longrightarrow> \<not> tddl_stop (self c)"
    "pc c = Renewing r \<Longrightarrow> tddl_max (self c) \<le> tddl_curr (self c)"
    using ok pc r by (auto simp: client_ok_def)
  note st = renew_step_ok [OF step r s(3,1,2)]
  have "tddl_max (self c) \<le> tddl_curr (self c)" if "tddl_stop (self c)" using s(4,5) pc that by blast
  note le = st(8) [OF this]
  have "client_ok row d' c'" using st(1-7) s pc c' by (auto simp: client_ok_def)
  moreover have "lease c' \<subseteq> lease c \<or> lease c' \<subseteq> {bound row d..<bound row d'}"
    using le st(4) pc c' by (auto simp: lease.simps)
  ultimately show ?thesis using st(1) by blast
qed

lemma internal_ok:
  assumes step: "internal_step db oor c d = (c', d')" and ok: "client_ok row d c"
  shows "grows row d d' \<and> client_ok row d' c' \<and> (lease c' \<subseteq> lease c \<or> lease c' \<subseteq> {bound row d..<bound row d'})"
proof -
  have base: "rowID (self c) = row" "step_ok (tddl_step (self c))" using ok by (simp_all add: client_ok_def)
  consider r where "pc c = Starting r \<or> pc c = Renewing r" "r \<noteq> RReturn" | "pc c = Starting RReturn"
    | "pc c = Renewing RReturn" | n where "pc c = Offering n" | "pc c = Exited"
    by (cases "pc c") auto
  then show ?thesis
  proof cases
    case 1
    obtain r' s' where r': "renew_step db oor r (self c) d = ((r', s'), d')"
        "c' = \<lparr>self = s', pc = (if pc c = Starting r then Starting r' else Renewing r')\<rparr>"
      using step 1 by (auto simp del: renew_step.simps simp: internal_step_def Let_def split: prod.splits renew_pc.splits)
    show ?thesis by (rule renewing_ok [OF r'(1) 1(1) ok 1(2) r'(2)])
  next
    case 2
    then show ?thesis using step ok by (auto simp: internal_step_def Let_def client_ok_def lease.simps)
  next
    case 3
    then have "c' = worker_loop (tddl_curr (self c)) (self c)" "d' = d" "lease c = {unat (tddl_curr (self c))..<unat (tddl_max (self c))}"
      using step by (auto simp: internal_step_def Let_def lease.simps)
    then show ?thesis using worker_loop_ok(1) [OF base, of d] worker_loop_ok(2) [OF base] by simp
  next
    case 4
    then show ?thesis using step ok
      by (cases "tddl_stop (self c)") (auto simp: internal_step_def Let_def client_ok_def lease.simps)
  next
    case 5
    then show ?thesis using step ok by (auto simp: internal_step_def Let_def)
  qed
qed

lemma deliver_ok:
  assumes ok: "client_ok row d c" and pc: "pc c = Offering v"
  shows "client_ok row d (deliver (self c))" "unat v \<in> lease c" "lease (deliver (self c)) = lease c - {unat v}"
proof -
  let ?s = "self c"
  have v: "v = tddl_curr ?s" "tddl_curr ?s < tddl_max ?s" using ok pc by (auto simp: client_ok_def)
  then have succ: "unat (tddl_curr ?s + 1) = unat (tddl_curr ?s) + 1"
    using unsigned_less [of "tddl_max ?s", where 'a = nat] by (simp add: unat_word_ariths word_less_nat_alt)
  have base: "rowID (?s\<lparr>tddl_curr := tddl_curr ?s + 1\<rparr>) = row" "step_ok (tddl_step (?s\<lparr>tddl_curr := tddl_curr ?s + 1\<rparr>))"
    using ok by (simp_all add: client_ok_def)
  show "client_ok row d (deliver ?s)" using worker_loop_ok(1) [OF base, of d] by (simp add: deliver_def Let_def)
  show "unat v \<in> lease c" using v pc by (simp add: lease.simps word_less_nat_alt)
  show "lease (deliver ?s) = lease c - {unat v}"
    using worker_loop_ok(2) [OF base] v pc succ by (auto simp: deliver_def Let_def lease.simps)
qed

lemma newSequence_ok:
  assumes "newSequence db uuid cfg d = (Ret c, d')" "rowID (self c) = row" "tddl_Step cfg \<le> 2 ^ 63"
  shows "grows row d d' \<and> client_ok row d' c \<and> lease c = {}"
proof -
  obtain i where i: "getRowID db (tddl_SeqName cfg) (tddl_StartNum cfg) d = (Inr i, d')" "pc c = Starting RTop"
      "\<not> tddl_Step cfg < 1" "tddl_step (self c) = tddl_Step cfg" "\<not> tddl_stop (self c)"
    using assms(1) by (auto simp: newSequence_def split: if_splits prod.splits sum.splits)
  have cr: "grows row e (snd (create_seq db q e))" for e q
    using create_keeps [of e row _ q] by (auto simp: grows_def)
  have tn: "cell (snd (take_name db nm d)) = cell d" for nm by (rule take_name_keeps)
  have "grows row d d'"
  proof (cases "take_name db (tddl_SeqName cfg) d")
    case (Pair res e)
    then have e: "cell e = cell d" using tn [of "tddl_SeqName cfg"] by simp
    have "d' = e \<or> d' = snd (createRecord db (tddl_SeqName cfg) (tddl_StartNum cfg) e)"
      using i(1) Pair by (auto simp: getRowID_def split: prod.splits if_splits)
    moreover have "\<exists>q. snd (createRecord db nm st e) = snd (create_seq db q e)" for nm st
      by (rule exI [of _ "zero_Sequence\<lparr>seq_Name := nm, seq_Sequence := st\<rparr>"])
        (simp add: createRecord_def Let_def split: prod.split option.split)
    ultimately have "grows row e d'" using cr [of e] by (metis grows_refl)
    then show ?thesis using e by (simp add: grows_def)
  qed
  then show ?thesis using i assms(2,3) by (simp add: client_ok_def lease.simps step_ok_def linorder_not_less)
qed

end

context sequence_table begin

definition lease_inv :: "nat \<Rightarrow> 'd sys \<Rightarrow> bool" where
  "lease_inv row S \<longleftrightarrow>
     (\<forall>i<length (clients S). client_ok row (table S) (clients S ! i) \<and>
        lease (clients S ! i) \<subseteq> {..<bound row (table S)} - unat ` set (handed S)) \<and>
     (\<forall>i<length (clients S). \<forall>j<length (clients S). i \<noteq> j \<longrightarrow> lease (clients S ! i) \<inter> lease (clients S ! j) = {}) \<and>
     unat ` set (handed S) \<subseteq> {..<bound row (table S)} \<and> distinct (handed S)"

text \<open>Replacing one client, when what it leases is less than before or above the old row value.\<close>

lemma lease_inv_update:
  assumes inv: "lease_inv row S" and i: "i < length (clients S)" and g: "grows row (table S) d'"
    and c': "client_ok row d' c'"
    and l: "lease c' \<subseteq> lease (clients S ! i) \<or> lease c' \<subseteq> {bound row (table S)..<bound row d'}"
  shows "lease_inv row (S\<lparr>clients := (clients S)[i := c'], table := d'\<rparr>)"
proof -
  have b: "bound row (table S) \<le> bound row d'" using g by (rule grows_bound)
  have ok: "client_ok row d' (clients S ! j)" "lease (clients S ! j) \<subseteq> {..<bound row (table S)} - unat ` set (handed S)"
    if "j < length (clients S)" for j
    using inv that client_ok_grows [OF g] by (auto simp: lease_inv_def)
  have h: "unat ` set (handed S) \<subseteq> {..<bound row (table S)}" "distinct (handed S)"
    using inv by (simp_all add: lease_inv_def)
  have sub: "lease c' \<subseteq> {..<bound row d'} - unat ` set (handed S)"
    using l ok(2) [OF i] h(1) b by fastforce
  have dis: "lease c' \<inter> lease (clients S ! j) = {}" if j: "j < length (clients S)" "j \<noteq> i" for j
  proof -
    have "lease (clients S ! i) \<inter> lease (clients S ! j) = {}" using inv i j by (auto simp: lease_inv_def)
    then show ?thesis using l ok(2) [OF j(1)] by fastforce
  qed
  show ?thesis
    unfolding lease_inv_def
  proof (intro conjI allI impI; simp)
    fix j assume j: "j < length (clients S)"
    show "client_ok row d' ((clients S)[i := c'] ! j)" using c' ok(1) [OF j] i by (cases "j = i") auto
    show "lease ((clients S)[i := c'] ! j) \<subseteq> {..<bound row d'} - unat ` set (handed S)"
      using sub ok(2) [OF j] i b by (cases "j = i") fastforce+
    fix k assume k: "k < length (clients S)" "j \<noteq> k"
    show "lease ((clients S)[i := c'] ! j) \<inter> lease ((clients S)[i := c'] ! k) = {}"
      using dis j k i inv by (cases "j = i"; cases "k = i") (auto simp: lease_inv_def)
  qed (use h b in auto)
qed

lemma lease_inv_step:
  assumes "sys_step db oor row S S'" "lease_inv row S"
  shows "lease_inv row S'"
  using assms
proof (induction rule: sys_step.induct)
  case (join uuid cfg S c d')
  then have n: "grows row (table S) d'" "client_ok row d' c" "lease c = {}" using newSequence_ok by blast+
  have b: "bound row (table S) \<le> bound row d'" using n(1) by (rule grows_bound)
  have "\<forall>i<length (clients S). client_ok row d' (clients S ! i) \<and>
      lease (clients S ! i) \<subseteq> {..<bound row d'} - unat ` set (handed S)"
    using join.prems b client_ok_grows [OF n(1)] by (fastforce simp: lease_inv_def)
  moreover have "unat ` set (handed S) \<subseteq> {..<bound row d'}" using join.prems b by (fastforce simp: lease_inv_def)
  ultimately show ?case
    using join.prems n(2,3) by (auto simp: lease_inv_def nth_append less_Suc_eq)
next
  case (work i S c d')
  then have "client_ok row (table S) (clients S ! i)" by (simp add: lease_inv_def)
  from internal_ok [OF work(2) this] show ?case using work by (intro lease_inv_update) auto
next
  case (hand i S v)
  let ?c = "clients S ! i"
  have ok: "client_ok row (table S) ?c" "unat ` set (handed S) \<subseteq> {..<bound row (table S)}"
    "lease ?c \<subseteq> {..<bound row (table S)} - unat ` set (handed S)" "distinct (handed S)"
    using hand by (auto simp: lease_inv_def)
  note dl = deliver_ok [OF ok(1) hand(2)]
  have inv: "lease_inv row (S\<lparr>clients := (clients S)[i := deliver (self ?c)], table := table S\<rparr>)"
    using hand dl by (intro lease_inv_update) auto
  have other: "unat v \<notin> lease (clients S ! j)" if "j < length (clients S)" "j \<noteq> i" for j
    using hand(1,3) that dl(2) by (fastforce simp: lease_inv_def)
  have out: "unat v \<notin> lease ((clients S)[i := deliver (self ?c)] ! j)" if "j < length (clients S)" for j
    using other [OF that] dl(3) that by (cases "j = i") auto
  have "unat v < bound row (table S)" "v \<notin> set (handed S)" using ok(3) dl(2) by auto
  then show ?case using inv out ok(4) by (simp add: lease_inv_def) blast
next
  case (close i S)
  let ?c = "clients S ! i"
  have "client_ok row (table S) ?c" using close by (simp add: lease_inv_def)
  then have "client_ok row (table S) (Close_signal ?c)"
    using close(2) by (auto simp: client_ok_def Close_signal_def split: worker_pc.splits elim: renew_ok.elims)
  moreover have "lease (Close_signal ?c) = lease ?c"
    by (simp add: lease.simps Close_signal_def renew_lease_stop split: worker_pc.splits)
  ultimately have "lease_inv row (S\<lparr>clients := (clients S)[i := Close_signal ?c], table := table S\<rparr>)"
    using close by (intro lease_inv_update) auto
  then show ?case by simp
qed

lemma lease_inv_reachable:
  assumes "(sys_step db oor row)\<^sup>*\<^sup>* \<lparr>clients = [], table = d, handed = []\<rparr> S"
  shows "lease_inv row S"
  using assms by (induction rule: rtranclp_induct) (auto simp: lease_inv_def [of row "\<lparr>clients = [], table = d, handed = []\<rparr>"]
    intro: lease_inv_step)

end

section \<open>A model of the table contract\<close>

text \<open>A table with the one row 1: its value and version, once it has been created.\<close>

definition row_cell :: "(uint64 \<times> int) option \<Rightarrow> nat \<rightharpoonup> uint64 \<times> int" where
  "row_cell d i = (case d of Some (v, k) \<Rightarrow> if i = 1 \<and> unat v < 2 ^ 63 then Some (v, k) else None | None \<Rightarrow> None)"

definition row_struct :: "uint64 \<times> int \<Rightarrow> Sequence" where
  "row_struct = (\<lambda>(v, k). \<lparr>seq_ID = 1, seq_Name = ''tiny_url'', seq_Sequence = v, seq_Version = k\<rparr>)"

definition row_db :: "(uint64 \<times> int) option seq_db" where
  "row_db =
     \<lparr>take_name = (\<lambda>nm d. (case row_cell d 1 of None \<Rightarrow> (Some ErrRecordNotFound, 0, zero_Sequence)
        | Some x \<Rightarrow> (None, 1, row_struct x), d)),
      take_id = (\<lambda>i d. (case row_cell d i of None \<Rightarrow> (Some ErrRecordNotFound, 0, zero_Sequence)
        | Some x \<Rightarrow> (None, 1, row_struct x), d)),
      create_seq = (\<lambda>q d. if row_cell d 1 = None then ((None, q\<lparr>seq_ID := 1\<rparr>), Some (seq_Sequence q, 1))
        else ((Some ErrDuplicatedKey, q), d)),
      update_seq = (\<lambda>q v d. (case row_cell d (seq_ID q) of
          None \<Rightarrow> ((None, 0, q), d)
        | Some (x, k) \<Rightarrow>
            if k = seq_Version q \<and> unat v < 2 ^ 63
            then ((None, 1, q\<lparr>seq_Sequence := v, seq_Version := k + 1\<rparr>), Some (v, k + 1))
            else ((None, 0, q), d)))\<rparr>"

interpretation row_db: sequence_table row_db row_cell
proof
  fix d :: "(uint64 \<times> int) option" and i n seq d' nm q v seq' x k
  show "take_id row_db i d = ((None, n, seq), d') \<Longrightarrow>
      seq_ID seq = i \<and> row_cell d i = Some (seq_Sequence seq, seq_Version seq)"
    by (auto simp: row_db_def row_struct_def row_cell_def split: option.splits if_splits)
  show "row_cell (snd (take_id row_db i d)) = row_cell d" "row_cell (snd (take_name row_db nm d)) = row_cell d"
    by (simp_all add: row_db_def)
  show "row_cell d i = Some x \<Longrightarrow> row_cell (snd (create_seq row_db q d)) i = Some x"
    by (auto simp: row_db_def row_cell_def split: option.splits if_splits)
  show "update_seq row_db seq v d = ((None, 1, seq'), d') \<Longrightarrow>
      seq_Sequence seq' = v \<and> (\<exists>x. row_cell d (seq_ID seq) = Some (x, seq_Version seq)) \<and>
      row_cell d' = (row_cell d)(seq_ID seq \<mapsto> (v, seq_Version seq + 1))"
    by (auto simp: row_db_def row_cell_def fun_eq_iff split: option.splits if_splits prod.splits)
  show "row_cell (snd (update_seq row_db seq v d)) = row_cell d \<or>
      (\<exists>x. row_cell d (seq_ID seq) = Some (x, seq_Version seq)) \<and>
      row_cell (snd (update_seq row_db seq v d)) = (row_cell d)(seq_ID seq \<mapsto> (v, seq_Version seq + 1))"
    by (auto simp: row_db_def row_cell_def fun_eq_iff split: option.splits if_splits prod.splits)
  show "row_cell d i = Some (v, k) \<Longrightarrow> unat v < 2 ^ 63"
    by (auto simp: row_cell_def split: option.splits if_splits)
qed

text \<open>Schedules of the system that can be run.\<close>

datatype act = Join string TDDLConfig | Work nat | Hand nat

fun run_act :: "'d seq_db \<Rightarrow> int \<Rightarrow> nat \<Rightarrow> act \<Rightarrow> 'd sys \<Rightarrow> 'd sys option" where
  "run_act db oor row (Join u cfg) S =
     (case newSequence db u cfg (table S) of
        (Ret c, d') \<Rightarrow>
          if rowID (self c) = row \<and> tddl_Step cfg \<le> 2 ^ 63
          then Some (S\<lparr>clients := clients S @ [c], table := d'\<rparr>) else None
      | _ \<Rightarrow> None)"
| "run_act db oor row (Work i) S =
     (if i < length (clients S)
      then (case internal_step db oor (clients S ! i) (table S) of
              (c, d') \<Rightarrow> Some (S\<lparr>clients := (clients S)[i := c], table := d'\<rparr>))
      else None)"
| "run_act db oor row (Hand i) S =
     (if i < length (clients S)
      then (case pc (clients S ! i) of
              Offering v \<Rightarrow> Some (S\<lparr>clients := (clients S)[i := deliver (self (clients S ! i))], handed := handed S @ [v]\<rparr>)
            | _ \<Rightarrow> None)
      else None)"

fun run_acts :: "'d seq_db \<Rightarrow> int \<Rightarrow> nat \<Rightarrow> act list \<Rightarrow> 'd sys \<Rightarrow> 'd sys option" where
  "run_acts db oor row [] S = Some S"
| "run_acts db oor row (a # as) S =
     (case run_act db oor row a S of None \<Rightarrow> None | Some S' \<Rightarrow> run_acts db oor row as S')"

lemma run_act_step: "run_act db oor row a S = Some S' \<Longrightarrow> sys_step db oor row S S'"
  by (cases a) (auto split: if_splits prod.splits outcome.splits worker_pc.splits intro: sys_step.intros)

lemma run_acts_reach: "run_acts db oor row as S = Some S' \<Longrightarrow> (sys_step db oor row)\<^sup>*\<^sup>* S S'"
  by (induction db oor row as S rule: run_acts.induct)
    (auto split: option.splits dest: run_act_step intro: converse_rtranclp_into_rtranclp)

section \<open>Properties\<close>

text \<open>
  C2. No number is handed out twice: in every state that any number of clients of one row reaches,
  with their workers, leases, failures, retries and shutdowns interleaved in any way, the numbers handed
  out so far by all of them are pairwise distinct and below the value of the row. The table is a
  compare-and-swap on the version, its column a signed \<open>bigint\<close>, and no step exceeds \<open>2 ^ 63\<close>.
\<close>

theorem seq_no_repeat:
  assumes "sequence_table db cell"
    and "(sys_step db oor row)\<^sup>*\<^sup>* \<lparr>clients = [], table = d, handed = []\<rparr> S"
  shows "distinct (handed S) \<and>
    (\<forall>x\<in>set (handed S). \<exists>v k. cell (table S) row = Some (v, k) \<and> x < v)"
proof -
  have inv: "sequence_table.lease_inv cell row S" using sequence_table.lease_inv_reachable [OF assms] .
  then show ?thesis
    unfolding sequence_table.lease_inv_def [OF assms(1)] sequence_table.bound_def [OF assms(1)]
    by (auto simp: word_less_nat_alt split: option.splits)
qed

definition two_clients :: "act list" where
  "two_clients =
     (let cfg = \<lparr>tddl_Step = 2, tddl_SeqName = ''tiny_url'', tddl_StartNum = 100\<rparr> in
      [Join ''a'' cfg, Join ''b'' cfg, Work 0, Work 1, Work 0, Work 1, Work 0, Work 0, Work 1, Work 1, Work 1, Work 1, Work 1,
       Hand 0, Hand 1, Hand 0, Hand 1, Work 0, Work 0, Work 0, Work 0, Hand 0])"

theorem seq_no_repeat_witness:
  "\<exists>S. run_acts row_db 0 1 two_clients \<lparr>clients = [], table = None, handed = []\<rparr> = Some S \<and>
    handed S = [100, 102, 101, 103, 104] \<and> distinct (handed S)"
proof -
  obtain S where S: "run_acts row_db 0 1 two_clients \<lparr>clients = [], table = None, handed = []\<rparr> = Some S"
    "handed S = [100, 102, 101, 103, 104]"
    by (simp add: two_clients_def Let_def newSequence_def getRowID_def createRecord_def internal_step_def
        row_db_def row_cell_def row_struct_def zero_Sequence_def renew_return_def renew_backoff_def exp_When_def
        lookup_def worker_loop_def deliver_def NewItemExponentialFailureRateLimiter_def exp_Forget_def)
  then show ?thesis
    using seq_no_repeat [OF row_db.sequence_table_axioms run_acts_reach [OF S(1)]] by simp
qed

text \<open>Consecutive calls of \<open>Next\<close>.\<close>

fun Nexts :: "'d seq_db \<Rightarrow> int \<Rightarrow> ctx \<Rightarrow> nat \<Rightarrow> client \<times> 'd \<Rightarrow> uint64 outcome list \<times> client \<times> 'd" where
  "Nexts db oor x 0 cd = ([], cd)"
| "Nexts db oor x (Suc k) cd =
     (case Next db oor x cd of (r, cd') \<Rightarrow> (case Nexts db oor x k cd' of (rs, cd'') \<Rightarrow> (r # rs, cd'')))"

lemma Next_offering: "pc c = Offering v \<Longrightarrow> Next db oor (Ctx (Suc n) e) (c, d) = (Ret v, deliver (self c), d)"
  by (simp add: Next_loop.simps)

text \<open>
  A block is handed out in order and without the database: a client that offers \<open>v\<close> below its
  maximum answers the next \<open>max - v\<close> calls of \<open>Next\<close> with \<open>v\<close>, \<open>v + 1\<close>, up to \<open>max - 1\<close>, touches the
  table in none of them, and is renewing afterwards.
\<close>

lemma Next_block:
  assumes "pc c = Offering (tddl_curr (self c))" "tddl_curr (self c) < tddl_max (self c)"
    and "k = unat (tddl_max (self c)) - unat (tddl_curr (self c))"
  shows "\<exists>c'. Nexts db oor (Ctx (Suc n) e) k (c, d) =
    (map (\<lambda>i. Ret (tddl_curr (self c) + of_nat i)) [0..<k], c', d) \<and> pc c' = Renewing RTop"
  using assms
proof (induction k arbitrary: c)
  case 0
  then show ?case by (simp add: word_less_nat_alt)
next
  case (Suc k)
  let ?s = "self c"
  have succ: "unat (tddl_curr ?s + 1) = unat (tddl_curr ?s) + 1"
    using Suc.prems(2) unsigned_less [of "tddl_max ?s", where 'a = nat] by (simp add: unat_word_ariths word_less_nat_alt)
  have one: "Next db oor (Ctx (Suc n) e) (c, d) = (Ret (tddl_curr ?s), deliver ?s, d)"
    by (rule Next_offering [OF Suc.prems(1)])
  show ?case
  proof (cases "tddl_curr ?s + 1 \<ge> tddl_max ?s")
    case True
    then have "k = 0" using Suc.prems succ by (simp add: word_le_nat_alt word_less_nat_alt)
    then show ?thesis using one True by (auto simp: deliver_def worker_loop_def Let_def)
  next
    case False
    let ?c = "deliver ?s"
    have c: "pc ?c = Offering (tddl_curr (self ?c))" "tddl_curr (self ?c) < tddl_max (self ?c)"
      "k = unat (tddl_max (self ?c)) - unat (tddl_curr (self ?c))" "tddl_curr (self ?c) = tddl_curr ?s + 1"
      using False Suc.prems(3) succ by (auto simp: deliver_def worker_loop_def Let_def)
    obtain c' where c': "Nexts db oor (Ctx (Suc n) e) k (?c, d) =
        (map (\<lambda>i. Ret (tddl_curr (self ?c) + of_nat i)) [0..<k], c', d)" "pc c' = Renewing RTop"
      using Suc.IH [OF c(1-3)] by blast
    have "[0..<Suc k] = 0 # map Suc [0..<k]" by (simp add: map_Suc_upt upt_conv_Cons)
    then show ?thesis using one c' c(4) by (simp add: o_def algebra_simps)
  qed
qed

definition example_client :: client where
  "example_client = \<lparr>self = \<lparr>clientID = ''a'', rowID = 1, tddl_step = 3, tddl_max = 103, tddl_curr = 100,
     tddl_stop = False, rateLimiter = NewItemExponentialFailureRateLimiter retryInterval (60 * Second)\<rparr>,
   pc = Offering 100\<rparr>"

lemma Next_block_witness:
  "fst (Nexts row_db 0 (Ctx 1 Canceled) 3 (example_client, Some (103, 2))) = [Ret 100, Ret 101, Ret 102]"
proof -
  have "\<exists>c'. Nexts row_db 0 (Ctx (Suc 0) Canceled) 3 (example_client, Some (103, 2)) =
      (map (\<lambda>i. Ret (tddl_curr (self example_client) + of_nat i)) [0..<3], c', Some (103, 2)) \<and> pc c' = Renewing RTop"
    by (rule Next_block) (simp_all add: example_client_def)
  then show ?thesis by (auto simp: example_client_def numeral_3_eq_3)
qed

text \<open>
  C20. Renewing: \<open>renew\<close> returns at once when the stop signal is up; when the row is read and the
  compare-and-swap succeeds it returns with \<open>curr\<close> the value that was read and \<open>max\<close> one step above
  it, its failures forgotten; after an attempt that failed, at the read or at the swap, it is back
  at the start of its loop with one failure more, having slept for the backoff of the failures before,
  which is at most a minute.
\<close>

theorem renew_cases:
  assumes "rl = NewItemExponentialFailureRateLimiter retryInterval (60 * Second)" "rateLimiter s = rl\<lparr>exp_failures := f\<rparr>"
  shows "(tddl_stop s \<longrightarrow> (\<exists>rl'. renew db oor s d = Some (s\<lparr>rateLimiter := rl'\<rparr>, d))) \<and>
    (\<not> tddl_stop s \<and> take_id db (rowID s) d = ((None, n, seq), d1) \<and>
      update_seq db seq (seq_Sequence seq + tddl_step s) d1 = ((None, 1, seq'), d2) \<and>
      seq_Sequence seq' = seq_Sequence seq + tddl_step s \<longrightarrow>
      (\<exists>s'. renew db oor s d = Some (s', d2) \<and> tddl_curr s' = seq_Sequence seq \<and>
        tddl_max s' = seq_Sequence seq + tddl_step s \<and> exp_Retries (clientID s) (rateLimiter s') = 0)) \<and>
    (\<not> tddl_stop s \<and> (take_id db (rowID s) d = ((Some err, n, seq), d2) \<or>
        take_id db (rowID s) d = ((None, n, seq), d1) \<and>
        update_seq db seq (seq_Sequence seq + tddl_step s) d1 = ((oe, m, seq'), d2) \<and> (oe \<noteq> None \<or> m \<noteq> 1)) \<longrightarrow>
      (\<exists>rl'. renew db oor s d = renew db oor (s\<lparr>rateLimiter := rl'\<rparr>) d2 \<and>
        exp_Retries (clientID s) rl' = exp_Retries (clientID s) (rateLimiter s) + 1 \<and>
        fst (exp_When oor (clientID s) (rateLimiter s)) =
          min (60 * 1000000000) (10000000 * 2 ^ exp_Retries (clientID s) (rateLimiter s))))"
proof (intro conjI impI)
  let ?w = "exp_When oor (clientID s) (rateLimiter s)"
  note unf = renew_def renew_from.simps
  show "\<exists>rl'. renew db oor s d = Some (s\<lparr>rateLimiter := rl'\<rparr>, d)" if "tddl_stop s"
    using that by (simp add: unf renew_return_def) blast
  show "\<exists>s'. renew db oor s d = Some (s', d2) \<and> tddl_curr s' = seq_Sequence seq \<and>
        tddl_max s' = seq_Sequence seq + tddl_step s \<and> exp_Retries (clientID s) (rateLimiter s') = 0"
    if "\<not> tddl_stop s \<and> take_id db (rowID s) d = ((None, n, seq), d1) \<and>
      update_seq db seq (seq_Sequence seq + tddl_step s) d1 = ((None, 1, seq'), d2) \<and>
      seq_Sequence seq' = seq_Sequence seq + tddl_step s"
    using that by (simp add: unf renew_return_def exp_Forget_def exp_Retries_def lookup_def)
  assume fail: "\<not> tddl_stop s \<and> (take_id db (rowID s) d = ((Some err, n, seq), d2) \<or>
        take_id db (rowID s) d = ((None, n, seq), d1) \<and>
        update_seq db seq (seq_Sequence seq + tddl_step s) d1 = ((oe, m, seq'), d2) \<and> (oe \<noteq> None \<or> m \<noteq> 1))"
  have pow: "(10000000 :: int) * 2 ^ k \<noteq> 2 ^ 63" for k
  proof
    assume "(10000000 :: int) * 2 ^ k = 2 ^ 63"
    moreover have "(5 :: int) dvd 10000000 * 2 ^ k" by (rule dvd_mult2) simp
    ultimately have "(5 :: int) dvd 2 ^ 63" by (simp only:)
    then show False by simp
  qed
  have delay: "fst ?w = min (60 * 1000000000) (10000000 * 2 ^ exp_Retries (clientID s) (rateLimiter s))"
    using exp_When_delay [of "rateLimiter s" oor "clientID s"] assms pow
    by (simp add: NewItemExponentialFailureRateLimiter_def retryInterval_def Second_def backoff_delay_def)
  let ?s = "s\<lparr>rateLimiter := snd ?w\<rparr>"
  have back_off: "renew_backoff oor s = (RSleep (fst ?w), ?s)" by (simp add: renew_backoff_def split: prod.split)
  have "renew_from db oor RTop s d = renew_from db oor (RSleep (fst ?w)) ?s d2"
  proof (cases "take_id db (rowID s) d = ((Some err, n, seq), d2)")
    case True
    then show ?thesis using fail by (subst renew_from.simps) (simp add: back_off)
  next
    case False
    then have t: "take_id db (rowID s) d = ((None, n, seq), d1)" "\<not> tddl_stop s"
      and u: "update_seq db seq (seq_Sequence seq + tddl_step s) d1 = ((oe, m, seq'), d2)" "oe \<noteq> None \<or> m \<noteq> 1"
      using fail by blast+
    have "renew_from db oor RTop s d = renew_from db oor (RTaken seq) s d1"
      using t by (subst renew_from.simps) simp
    also have "\<dots> = renew_from db oor (RSleep (fst ?w)) ?s d2"
      using u by (subst renew_from.simps) (auto simp: back_off)
    finally show ?thesis .
  qed
  also have "\<dots> = renew db oor ?s d2" by (subst renew_from.simps) (simp add: renew_def)
  finally have "renew db oor s d = renew db oor ?s d2" by (simp add: renew_def)
  moreover have "exp_Retries (clientID s) (snd ?w) = exp_Retries (clientID s) (rateLimiter s) + 1"
    by (simp add: exp_When_state exp_Retries_def lookup_upd)
  ultimately show "\<exists>rl'. renew db oor s d = renew db oor (s\<lparr>rateLimiter := rl'\<rparr>) d2 \<and>
        exp_Retries (clientID s) rl' = exp_Retries (clientID s) (rateLimiter s) + 1 \<and> fst ?w =
          min (60 * 1000000000) (10000000 * 2 ^ exp_Retries (clientID s) (rateLimiter s))"
    using delay by blast
qed

theorem renew_cases_witness:
  "(\<exists>s'. renew row_db 0 (self example_client) (Some (103, 2)) = Some (s', Some (106, 3)) \<and> tddl_curr s' = 103 \<and> tddl_max s' = 106) \<and>
   (\<exists>rl. renew row_db 0 (self example_client) None = renew row_db 0 (self example_client\<lparr>rateLimiter := rl\<rparr>) None \<and>
     exp_Retries ''a'' rl = 1)"
proof -
  have e: "rateLimiter (self example_client) =
      NewItemExponentialFailureRateLimiter retryInterval (60 * Second)\<lparr>exp_failures := Map.empty\<rparr>"
    by (simp add: example_client_def NewItemExponentialFailureRateLimiter_def)
  have "exp_Retries ''a'' (rateLimiter (self example_client)) = 0" "clientID (self example_client) = ''a''"
    by (simp_all add: example_client_def NewItemExponentialFailureRateLimiter_def exp_Retries_def lookup_def)
  moreover have "\<not> tddl_stop (self example_client)" "tddl_step (self example_client) = 3"
    "take_id row_db (rowID (self example_client)) (Some (103, 2)) = ((None, 1, row_struct (103, 2)), Some (103, 2))"
    "update_seq row_db (row_struct (103, 2)) 106 (Some (103, 2)) = ((None, 1, row_struct (106, 3)), Some (106, 3))"
    "take_id row_db (rowID (self example_client)) None = ((Some ErrRecordNotFound, 0, zero_Sequence), None)"
    "seq_Sequence (row_struct (103, 2)) = 103" "seq_Sequence (row_struct (106, 3)) = 106"
    by (simp_all add: example_client_def row_db_def row_cell_def row_struct_def)
  ultimately show ?thesis
    using renew_cases [OF refl e, of row_db 0 "Some (103, 2)" 1 "row_struct (103, 2)" "Some (103, 2)"
        "row_struct (106, 3)" "Some (106, 3)", THEN conjunct2, THEN conjunct1]
      renew_cases [OF refl e, of row_db 0 None 0 zero_Sequence _ _ None ErrRecordNotFound, THEN conjunct2, THEN conjunct2]
    by auto
qed

definition spinning :: "client \<Rightarrow> bool" where
  "spinning c \<longleftrightarrow> tddl_stop (self c) \<and> tddl_max (self c) \<le> tddl_curr (self c) \<and>
     (pc c = Renewing RTop \<or> pc c = Renewing RReturn \<or> (\<exists>x. pc c = Renewing (RSleep x)))"

lemma spinning_step: "spinning c \<Longrightarrow> spinning (fst (internal_step db oor c d))"
  by (auto simp: spinning_def internal_step_def Let_def renew_return_def worker_loop_def)

lemma Close_wait_spins:
  assumes "Close_wait db oor c d = Some r"
  shows "\<not> spinning c"
proof (induction rule: Close_wait.raw_induct [OF _ assms])
  case (1 wait db oor c d r)
  show ?case
  proof
    assume spin: "spinning c"
    then have "pc c \<noteq> Exited" by (auto simp: spinning_def)
    then have "wait db oor (fst (internal_step db oor c d)) (snd (internal_step db oor c d)) = Some r"
      using "1"(2) by (simp split: prod.splits)
    then show False using "1"(1) spinning_step [OF spin, of db oor d] by blast
  qed
qed

lemma Close_spins: "spinning c \<Longrightarrow> Close_wait db oor c d = None"
  using Close_wait_spins [of db oor c d] by (cases "Close_wait db oor c d") auto

lemma Close_wait_step:
  "pc c \<noteq> Exited \<Longrightarrow> internal_step db oor c d = (c', d') \<Longrightarrow> Close_wait db oor c d = Close_wait db oor c' d'"
  by (subst Close_wait.simps) simp

lemma Close_wait_offering:
  assumes "pc c = Offering v" "tddl_stop (self c)"
  shows "\<exists>c'. Close_wait db oor c d = Some (c', d) \<and> pc c' = Exited"
proof -
  have "Close_wait db oor c d = Close_wait db oor \<lparr>self = self c, pc = Exited\<rparr> d"
    using assms by (intro Close_wait_step) (simp_all add: internal_step_def)
  then show ?thesis by (simp add: Close_wait.simps)
qed

text \<open>The wait for a worker whose \<open>renew\<close> has returned, and for one that is past the \<open>break\<close> of its loop.\<close>

lemma Close_wait_return:
  assumes "pc c = Renewing RReturn" "tddl_stop (self c)"
  shows "if tddl_curr (self c) < tddl_max (self c) then \<exists>c'. Close_wait db oor c d = Some (c', d) \<and> pc c' = Exited
    else Close_wait db oor c d = None"
proof (cases "tddl_curr (self c) < tddl_max (self c)")
  case True
  let ?c = "\<lparr>self = self c, pc = Offering (tddl_curr (self c))\<rparr>"
  have "Close_wait db oor c d = Close_wait db oor ?c d"
    using assms(1) True by (intro Close_wait_step) (simp_all add: internal_step_def worker_loop_def Let_def)
  then show ?thesis using Close_wait_offering [of ?c _ db oor d] assms(2) True by simp
next
  case False
  then have "spinning c" using assms by (simp add: spinning_def)
  from Close_spins [OF this] show ?thesis using False by simp
qed

lemma Close_wait_break:
  assumes "pc c = Renewing (RBreak seq)" "tddl_stop (self c)"
  shows "if seq_Sequence seq - tddl_step (self c) < seq_Sequence seq then \<exists>c'. Close_wait db oor c d = Some (c', d) \<and> pc c' = Exited
    else Close_wait db oor c d = None"
proof -
  let ?s = "snd (renew_return ((self c)\<lparr>tddl_curr := seq_Sequence seq - tddl_step (self c), tddl_max := seq_Sequence seq\<rparr>))"
  let ?c = "\<lparr>self = ?s, pc = Renewing RReturn\<rparr>"
  have "Close_wait db oor c d = Close_wait db oor ?c d"
    using assms(1) by (intro Close_wait_step) (simp_all add: internal_step_def renew_return_def Let_def)
  moreover have "tddl_curr ?s = seq_Sequence seq - tddl_step (self c)" "tddl_max ?s = seq_Sequence seq" "tddl_stop ?s"
    using assms(2) by (simp_all add: renew_return_def)
  ultimately show ?thesis using Close_wait_return [of ?c db oor d] by simp
qed

lemma Close_wait_taken:
  assumes "pc c = Renewing (RTaken seq)" "tddl_stop (self c)" "tddl_max (self c) \<le> tddl_curr (self c)"
    "update_seq db seq (seq_Sequence seq + tddl_step (self c)) d = ((oe, k, seq'), d')"
  shows "if oe = None \<and> k = 1 \<and> seq_Sequence seq' - tddl_step (self c) < seq_Sequence seq'
    then \<exists>c'. Close_wait db oor c d = Some (c', d') \<and> pc c' = Exited else Close_wait db oor c d = None"
proof (cases "oe = None \<and> k = 1")
  case True
  have "Close_wait db oor c d = Close_wait db oor \<lparr>self = self c, pc = Renewing (RBreak seq')\<rparr> d'"
    using assms True by (intro Close_wait_step) (simp_all add: internal_step_def)
  then show ?thesis using Close_wait_break [of "\<lparr>self = self c, pc = Renewing (RBreak seq')\<rparr>" seq' db oor d'] assms(2) True by simp
next
  case False
  obtain x rl where x: "exp_When oor (clientID (self c)) (rateLimiter (self c)) = (x, rl)" by (metis prod.exhaust)
  let ?c = "\<lparr>self = (self c)\<lparr>rateLimiter := rl\<rparr>, pc = Renewing (RSleep x)\<rparr>"
  have "Close_wait db oor c d = Close_wait db oor ?c d'"
    using assms False x by (intro Close_wait_step) (auto simp: internal_step_def renew_backoff_def)
  moreover have "spinning ?c" using assms(2,3) by (simp add: spinning_def)
  ultimately show ?thesis using Close_spins [of ?c db oor d'] False by auto
qed

lemma Close_signal_fields [simp]:
  "pc (Close_signal c) = pc c" "tddl_stop (self (Close_signal c))" "tddl_max (self (Close_signal c)) = tddl_max (self c)"
  "tddl_curr (self (Close_signal c)) = tddl_curr (self c)" "tddl_step (self (Close_signal c)) = tddl_step (self c)"
  by (simp_all add: Close_signal_def)

lemma Close_offering:
  assumes "pc c = Offering v"
  shows "\<exists>c'. tddl_Close db oor (c, d) = Some (c', d) \<and> pc c' = Exited"
  using Close_wait_offering [of "Close_signal c" v db oor d] assms by (simp add: tddl_Close_def)

lemma Close_spinning:
  assumes "tddl_max (self c) \<le> tddl_curr (self c)" "pc c = Renewing RTop \<or> (\<exists>x. pc c = Renewing (RSleep x))"
  shows "tddl_Close db oor (c, d) = None"
proof -
  have "spinning (Close_signal c)" using assms by (auto simp: spinning_def)
  from Close_spins [OF this] show ?thesis by (simp add: tddl_Close_def)
qed

text \<open>
  C21. Closing, at every position of the worker of a client that is in use. When the worker is offering a number as the signal
  comes, \<open>Close\<close> returns with the worker ended and the table untouched. When the worker is out of numbers and before a read of the
  row, or asleep after a failed attempt, \<open>Close\<close> never returns: \<open>renew\<close> returns at once, \<open>curr\<close> is
  still not below \<open>max\<close>, and the inner loop calls \<open>renew\<close> again, for ever. When the worker has read the row and its compare-and-swap is on
  the way, \<open>Close\<close> returns exactly when the swap succeeds and gives a block that is not empty, with the block leased and lost; otherwise it never returns. The same is
  decided by the block alone when the swap has succeeded before the signal, and by \<open>curr\<close> and \<open>max\<close> when \<open>renew\<close> has returned. No caller of \<open>Next\<close> receives while
  \<open>Close\<close> waits, and \<open>Close\<close> is called once.
\<close>

theorem tddl_Close_outcome:
  "(pc c = Offering v \<longrightarrow> (\<exists>c'. tddl_Close db oor (c, d) = Some (c', d) \<and> pc c' = Exited)) \<and>
   (tddl_max (self c) \<le> tddl_curr (self c) \<and> (pc c = Renewing RTop \<or> (\<exists>x. pc c = Renewing (RSleep x))) \<longrightarrow>
     tddl_Close db oor (c, d) = None) \<and>
   (tddl_max (self c) \<le> tddl_curr (self c) \<and> pc c = Renewing (RTaken seq) \<and>
     update_seq db seq (seq_Sequence seq + tddl_step (self c)) d = ((oe, k, seq'), d') \<longrightarrow>
     (if oe = None \<and> k = 1 \<and> seq_Sequence seq' - tddl_step (self c) < seq_Sequence seq'
      then \<exists>c'. tddl_Close db oor (c, d) = Some (c', d') \<and> pc c' = Exited else tddl_Close db oor (c, d) = None)) \<and>
   (pc c = Renewing (RBreak seq) \<longrightarrow>
     (if seq_Sequence seq - tddl_step (self c) < seq_Sequence seq
      then \<exists>c'. tddl_Close db oor (c, d) = Some (c', d) \<and> pc c' = Exited else tddl_Close db oor (c, d) = None)) \<and>
   (pc c = Renewing RReturn \<longrightarrow>
     (if tddl_curr (self c) < tddl_max (self c)
      then \<exists>c'. tddl_Close db oor (c, d) = Some (c', d) \<and> pc c' = Exited else tddl_Close db oor (c, d) = None))"
proof (intro conjI impI)
  let ?c = "Close_signal c"
  have close: "tddl_Close db oor (c, d) = Close_wait db oor ?c d" by (simp add: tddl_Close_def)
  show "\<exists>c'. tddl_Close db oor (c, d) = Some (c', d) \<and> pc c' = Exited" if "pc c = Offering v"
    using that by (rule Close_offering)
  show "tddl_Close db oor (c, d) = None"
    if "tddl_max (self c) \<le> tddl_curr (self c) \<and> (pc c = Renewing RTop \<or> (\<exists>x. pc c = Renewing (RSleep x)))"
    using that by (intro Close_spinning) auto
  show "if oe = None \<and> k = 1 \<and> seq_Sequence seq' - tddl_step (self c) < seq_Sequence seq'
      then \<exists>c'. tddl_Close db oor (c, d) = Some (c', d') \<and> pc c' = Exited else tddl_Close db oor (c, d) = None"
    if "tddl_max (self c) \<le> tddl_curr (self c) \<and> pc c = Renewing (RTaken seq) \<and>
      update_seq db seq (seq_Sequence seq + tddl_step (self c)) d = ((oe, k, seq'), d')"
    unfolding close using Close_wait_taken [of ?c seq db d oe k seq' d' oor] that by simp
  show "if seq_Sequence seq - tddl_step (self c) < seq_Sequence seq
      then \<exists>c'. tddl_Close db oor (c, d) = Some (c', d) \<and> pc c' = Exited else tddl_Close db oor (c, d) = None"
    if "pc c = Renewing (RBreak seq)"
    unfolding close using Close_wait_break [of ?c seq db oor d] that by simp
  show "if tddl_curr (self c) < tddl_max (self c)
      then \<exists>c'. tddl_Close db oor (c, d) = Some (c', d) \<and> pc c' = Exited else tddl_Close db oor (c, d) = None"
    if "pc c = Renewing RReturn"
    unfolding close using Close_wait_return [of ?c db oor d] that by simp
qed

theorem tddl_Close_outcome_witness:
  "(\<exists>c'. tddl_Close row_db 0 (example_client, None) = Some (c', None)) \<and>
   tddl_Close row_db 0
     (example_client\<lparr>self := self example_client\<lparr>tddl_curr := 103\<rparr>, pc := Renewing (RSleep 10000000)\<rparr>, None) = None \<and>
   (\<exists>c'. tddl_Close row_db 0
     (example_client\<lparr>self := self example_client\<lparr>tddl_curr := 103\<rparr>, pc := Renewing (RTaken (row_struct (103, 2)))\<rparr>, Some (103, 2)) =
     Some (c', Some (106, 3)))"
proof (intro conjI)
  let ?c = "\<lambda>r. example_client\<lparr>self := self example_client\<lparr>tddl_curr := 103\<rparr>, pc := Renewing r\<rparr>"
  show "\<exists>c'. tddl_Close row_db 0 (example_client, None) = Some (c', None)"
    using tddl_Close_outcome [of example_client 100 row_db 0 None, THEN conjunct1] by (auto simp: example_client_def)
  show "tddl_Close row_db 0 (?c (RSleep 10000000), None) = None"
    using tddl_Close_outcome [of "?c (RSleep 10000000)" 0 row_db 0 None, THEN conjunct2, THEN conjunct1] by (simp add: example_client_def)
  have "update_seq row_db (row_struct (103, 2)) 106 (Some (103, 2)) = ((None, 1, row_struct (106, 3)), Some (106, 3))"
    "seq_Sequence (row_struct (103, 2)) = 103" "seq_Sequence (row_struct (106, 3)) = 106" "tddl_step (self example_client) = 3"
    "tddl_max (self example_client) = 103"
    by (simp_all add: example_client_def row_db_def row_cell_def row_struct_def)
  then show "\<exists>c'. tddl_Close row_db 0 (?c (RTaken (row_struct (103, 2))), Some (103, 2)) = Some (c', Some (106, 3))"
    using tddl_Close_outcome [of "?c (RTaken (row_struct (103, 2)))" 0 row_db 0 "Some (103, 2)" "row_struct (103, 2)" None 1 "row_struct (106, 3)"
        "Some (106, 3)", THEN conjunct2, THEN conjunct2, THEN conjunct1]
    by auto
qed

end
