(* ===== verification/Service.thy ===== *)
theory Service
  imports Base58 Cache_Value Cache Storage Tddl
begin

text \<open>
  The business logic (\<open>app/turl/service.go\<close>): the command service, the query service and the service
  that joins them, over the interfaces of storage, cache and sequence.

  The state of a node is a \<open>world\<close>: the database and the redis server its two services share, the
  local cache of each of them (\<open>newService\<close> builds two cache proxies), the sequence and the
  metrics. The readings of the clock in one call are \<open>clk 0\<close>, \<open>clk 1\<close>, and so on in the order of
  the code. The validator's verdict on a URL is the parameter \<open>http_url\<close>. Tracing and logging change
  no state and are left out.
\<close>

section \<open>The state of a node\<close>

record ('d, 'r, 'l, 's) world =
  database :: 'd
  redis :: 'r
  write_local :: 'l
  query_local :: 'l
  sequence :: 's
  stats :: "metric list"
  janitor_closed :: bool

text \<open>The interface \<open>TDDL\<close>; \<open>None\<close> is a \<open>Close\<close> that never returns.\<close>

record 's tddl_iface =
  seq_Next :: "ctx \<Rightarrow> 's \<Rightarrow> uint64 outcome \<times> 's"
  seq_Close :: "'s \<Rightarrow> 's option"

definition tddlSequence_iface :: "'d seq_db \<Rightarrow> int \<Rightarrow> (client \<times> 'd) tddl_iface" where
  "tddlSequence_iface db oor = \<lparr>seq_Next = Next db oor, seq_Close = tddl_Close db oor\<rparr>"

text \<open>Running a call of a component on its part of the world.\<close>

definition on_db :: "('d \<Rightarrow> 'a \<times> 'd) \<Rightarrow> ('d, 'r, 'l, 's) world \<Rightarrow> 'a \<times> ('d, 'r, 'l, 's) world" where
  "on_db f w = (case f (database w) of (x, d) \<Rightarrow> (x, w\<lparr>database := d\<rparr>))"

definition on_write_cache ::
  "('r \<times> 'l \<Rightarrow> 'a \<times> 'r \<times> 'l) \<Rightarrow> ('d, 'r, 'l, 's) world \<Rightarrow> 'a \<times> ('d, 'r, 'l, 's) world" where
  "on_write_cache f w = (case f (redis w, write_local w) of (x, r, l) \<Rightarrow> (x, w\<lparr>redis := r, write_local := l\<rparr>))"

definition on_query_cache ::
  "('r \<times> 'l \<Rightarrow> 'a \<times> 'r \<times> 'l) \<Rightarrow> ('d, 'r, 'l, 's) world \<Rightarrow> 'a \<times> ('d, 'r, 'l, 's) world" where
  "on_query_cache f w = (case f (redis w, query_local w) of (x, r, l) \<Rightarrow> (x, w\<lparr>redis := r, query_local := l\<rparr>))"

definition on_seq :: "('s \<Rightarrow> 'a \<times> 's) \<Rightarrow> ('d, 'r, 'l, 's) world \<Rightarrow> 'a \<times> ('d, 'r, 'l, 's) world" where
  "on_seq f w = (case f (sequence w) of (x, s) \<Rightarrow> (x, w\<lparr>sequence := s\<rparr>))"

definition record_metric :: "metric \<Rightarrow> ('d, 'r, 'l, 's) world \<Rightarrow> ('d, 'r, 'l, 's) world" where
  "record_metric m w = w\<lparr>stats := stats w @ [m]\<rparr>"

section \<open>The command service\<close>

text \<open>The link as the API shows it (\<open>model.TinyURL\<close>).\<close>

record TinyURL_model =
  m_ShortURL :: string
  m_LongURL :: string
  m_CreatedAt :: time
  m_DeletedAt :: "time option"
  m_ExpiresAt :: "time option"

record ('d, 'r, 'l, 's) commandService =
  cmd_ttl :: duration
  cmd_db :: "'d storage_iface"
  cmd_cache :: "('r \<times> 'l) cache_iface"
  cmd_seq :: "'s tddl_iface"

definition IncShortenCreated :: "('d, 'r, 'l, 's) world \<Rightarrow> ('d, 'r, 'l, 's) world" where
  "IncShortenCreated w = record_metric ShortenCreated w"

definition AddExpiredReaped :: "int \<Rightarrow> ('d, 'r, 'l, 's) world \<Rightarrow> ('d, 'r, 'l, 's) world" where
  "AddExpiredReaped n w = record_metric (ExpiredReaped n) w"

text \<open>The end of \<open>Create\<close>: cache the link and answer it; an error of the cache is only logged.\<close>

definition Create_finish ::
  "('d, 'r, 'l, 's) commandService \<Rightarrow> time \<Rightarrow> bytes \<Rightarrow> uint64 \<Rightarrow> TinyURL \<Rightarrow> ('d, 'r, 'l, 's) world \<Rightarrow>
   TinyURL_model outcome \<times> ('d, 'r, 'l, 's) world" where
  "Create_finish c now long seq record w =
     (let short = Base58Encode seq in
      (case on_write_cache (Set (cmd_cache c) short (encodeCacheValue long (ExpiresAt record))
              (cacheTTL (cmd_ttl c) (ExpiresAt record) now)) w of
         (Panic p, w') \<Rightarrow> (Panic p, w')
       | (_, w') \<Rightarrow>
           (Ret \<lparr>m_ShortURL = short, m_LongURL = long, m_CreatedAt = CreatedAt record,
                 m_DeletedAt = DeletedAt record, m_ExpiresAt = ExpiresAt record\<rparr>, w')))"

definition Create ::
  "(bytes \<Rightarrow> goerr option) \<Rightarrow> ('d, 'r, 'l, 's) commandService \<Rightarrow> (nat \<Rightarrow> time) \<Rightarrow> ctx \<Rightarrow> bytes \<Rightarrow> duration \<Rightarrow>
   ('d, 'r, 'l, 's) world \<Rightarrow> TinyURL_model outcome \<times> ('d, 'r, 'l, 's) world" where
  "Create http_url c clk ctx long ttl w =
     (case http_url long of
        Some err \<Rightarrow> (Err err, w)
      | None \<Rightarrow>
          (case on_seq (seq_Next (cmd_seq c) ctx) w of
             (Err err, w1) \<Rightarrow> (Err (Wrapped ''failed to generate sequence'' err), w1)
           | (Panic p, w1) \<Rightarrow> (Panic p, w1)
           | (Ret seq, w1) \<Rightarrow>
               (let expiresAt = (if ttl > 0 then Some (clk 0 + ttl) else None) in
                (case on_db (Insert (cmd_db c) seq long expiresAt) w1 of
                   (Panic p, w2) \<Rightarrow> (Panic p, w2)
                 | (Ret record, w2) \<Rightarrow> Create_finish c (clk 1) long seq record (IncShortenCreated w2)
                 | (Err err, w2) \<Rightarrow>
                     if errors_Is err ErrDuplicatedKey then
                       (case on_db (GetByLongURL (cmd_db c) long) w2 of
                          (Err err, w3) \<Rightarrow> (Err (Wrapped ''failed to get from db'' err), w3)
                        | (Panic p, w3) \<Rightarrow> (Panic p, w3)
                        | (Ret record, w3) \<Rightarrow> Create_finish c (clk 1) long (Short record) record w3)
                     else (Err (Wrapped ''failed to insert into db'' err), w2)))))"

definition Delete_link ::
  "('d, 'r, 'l, 's) commandService \<Rightarrow> bytes \<Rightarrow> ('d, 'r, 'l, 's) world \<Rightarrow> unit outcome \<times> ('d, 'r, 'l, 's) world" where
  "Delete_link c short w =
     (case Base58Decode short of
        Err err \<Rightarrow> (Err err, w)
      | Panic p \<Rightarrow> (Panic p, w)
      | Ret seq \<Rightarrow>
          (case on_db (Delete (cmd_db c) seq) w of
             (Ret _, w1) \<Rightarrow> on_write_cache (Del (cmd_cache c) short) w1
           | (Err err, w1) \<Rightarrow> (Err err, w1)
           | (Panic p, w1) \<Rightarrow> (Panic p, w1)))"

text \<open>
  The janitor: the loop over what its \<open>select\<close> receives, the stop signal or a tick at a time.
\<close>

definition janitorBatchSize :: int where
  "janitorBatchSize = 100"

datatype janitor_event = JanitorStop | Tick time

definition janitor_tick ::
  "('d, 'r, 'l, 's) commandService \<Rightarrow> time \<Rightarrow> ('d, 'r, 'l, 's) world \<Rightarrow> ('d, 'r, 'l, 's) world" where
  "janitor_tick c now w =
     (case on_db (DeleteExpired (cmd_db c) now janitorBatchSize) w of
        ((n, Some err), w') \<Rightarrow> w'
      | ((n, None), w') \<Rightarrow> if n > 0 then AddExpiredReaped n w' else w')"

fun runJanitor ::
  "('d, 'r, 'l, 's) commandService \<Rightarrow> janitor_event list \<Rightarrow> ('d, 'r, 'l, 's) world \<Rightarrow> ('d, 'r, 'l, 's) world" where
  "runJanitor c [] w = w"
| "runJanitor c (JanitorStop # es) w = w"
| "runJanitor c (Tick now # es) w = runJanitor c es (janitor_tick c now w)"

definition pingDeps ::
  "('w \<Rightarrow> unit outcome \<times> 'w) \<Rightarrow> ('w \<Rightarrow> unit outcome \<times> 'w) \<Rightarrow> 'w \<Rightarrow> unit outcome \<times> 'w" where
  "pingDeps db_Ping c_Ping w =
     (case db_Ping w of
        (Err err, w1) \<Rightarrow> (Err (Wrapped ''database not ready'' err), w1)
      | (Panic p, w1) \<Rightarrow> (Panic p, w1)
      | (Ret _, w1) \<Rightarrow>
          (case c_Ping w1 of
             (Err err, w2) \<Rightarrow> (Err (Wrapped ''cache not ready'' err), w2)
           | (x, w2) \<Rightarrow> (x, w2)))"

definition command_checkHealth ::
  "('d, 'r, 'l, 's) commandService \<Rightarrow> ('d, 'r, 'l, 's) world \<Rightarrow> unit outcome \<times> ('d, 'r, 'l, 's) world" where
  "command_checkHealth c w = pingDeps (on_db (PingDB (cmd_db c))) (on_write_cache (Ping (cmd_cache c))) w"

text \<open>Closing a closed channel panics; the wait of \<open>c.seq.Close()\<close> may not end.\<close>

definition command_Close ::
  "('d, 'r, 'l, 's) commandService \<Rightarrow> ('d, 'r, 'l, 's) world \<Rightarrow> (unit outcome \<times> ('d, 'r, 'l, 's) world) option" where
  "command_Close c w =
     (if janitor_closed w then Some (Panic ''close of closed channel'', w)
      else
        (let w0 = w\<lparr>janitor_closed := True\<rparr> in
         (case seq_Close (cmd_seq c) (sequence w0) of
            None \<Rightarrow> None
          | Some s \<Rightarrow>
              (case on_db (CloseDB (cmd_db c)) (w0\<lparr>sequence := s\<rparr>) of
                 (Ret _, w1) \<Rightarrow> Some (on_write_cache (Close (cmd_cache c)) w1)
               | (x, w1) \<Rightarrow> Some (x, w1)))))"

section \<open>The query service\<close>

record ('d, 'r, 'l) queryService =
  q_ttl :: duration
  q_db :: "'d storage_iface"
  q_cache :: "('r \<times> 'l) cache_iface"

definition fromCache ::
  "('d, 'r, 'l) queryService \<Rightarrow> time \<Rightarrow> string \<Rightarrow> ('d, 'r, 'l, 's) world \<Rightarrow>
   bytes option outcome \<times> ('d, 'r, 'l, 's) world" where
  "fromCache q now key w =
     (case on_query_cache (Get (q_cache q) key) w of
        (Err err, w1) \<Rightarrow> if errors_Is err ErrCacheMiss then (Ret None, w1) else (Err err, w1)
      | (Panic p, w1) \<Rightarrow> (Panic p, w1)
      | (Ret cached, w1) \<Rightarrow>
          (case decodeCacheValue cached of
             None \<Rightarrow> (Ret None, w1)
           | Some (long, expiresAt) \<Rightarrow>
               if isExpired expiresAt now then (Err ErrExpired, w1) else (Ret (Some long), w1)))"

definition Retrieve ::
  "('d, 'r, 'l) queryService \<Rightarrow> (nat \<Rightarrow> time) \<Rightarrow> bytes \<Rightarrow> ('d, 'r, 'l, 's) world \<Rightarrow>
   bytes outcome \<times> ('d, 'r, 'l, 's) world" where
  "Retrieve q clk short w =
     (case Base58Decode short of
        Err err \<Rightarrow> (Err err, w)
      | Panic p \<Rightarrow> (Panic p, w)
      | Ret seq \<Rightarrow>
          (case fromCache q (clk 0) short w of
             (Err err, w1) \<Rightarrow> (Err err, w1)
           | (Panic p, w1) \<Rightarrow> (Panic p, w1)
           | (Ret (Some long), w1) \<Rightarrow> (Ret long, w1)
           | (Ret None, w1) \<Rightarrow>
               (case on_db (GetByShortID (q_db q) seq) w1 of
                  (Err err, w2) \<Rightarrow> (Err err, w2)
                | (Panic p, w2) \<Rightarrow> (Panic p, w2)
                | (Ret res, w2) \<Rightarrow>
                    if isExpired (ExpiresAt res) (clk 1) then (Err ErrExpired, w2)
                    else
                      (case on_query_cache (Set (q_cache q) short (encodeCacheValue (LongURL res) (ExpiresAt res))
                              (cacheTTL (q_ttl q) (ExpiresAt res) (clk 2))) w2 of
                         (Panic p, w3) \<Rightarrow> (Panic p, w3)
                       | (_, w3) \<Rightarrow> (Ret (LongURL res), w3)))))"

definition GetByLong ::
  "(bytes \<Rightarrow> goerr option) \<Rightarrow> ('d, 'r, 'l) queryService \<Rightarrow> bytes \<Rightarrow> ('d, 'r, 'l, 's) world \<Rightarrow>
   TinyURL_model outcome \<times> ('d, 'r, 'l, 's) world" where
  "GetByLong http_url q long w =
     (case http_url long of
        Some err \<Rightarrow> (Err err, w)
      | None \<Rightarrow>
          (case on_db (GetByLongURL (q_db q) long) w of
             (Err err, w1) \<Rightarrow> (Err err, w1)
           | (Panic p, w1) \<Rightarrow> (Panic p, w1)
           | (Ret record, w1) \<Rightarrow>
               (Ret \<lparr>m_ShortURL = Base58Encode (Short record), m_LongURL = LongURL record,
                     m_CreatedAt = CreatedAt record, m_DeletedAt = DeletedAt record, m_ExpiresAt = None\<rparr>, w1)))"

definition query_checkHealth ::
  "('d, 'r, 'l) queryService \<Rightarrow> ('d, 'r, 'l, 's) world \<Rightarrow> unit outcome \<times> ('d, 'r, 'l, 's) world" where
  "query_checkHealth q w = pingDeps (on_db (PingDB (q_db q))) (on_query_cache (Ping (q_cache q))) w"

definition query_Close ::
  "('d, 'r, 'l) queryService \<Rightarrow> ('d, 'r, 'l, 's) world \<Rightarrow> unit outcome \<times> ('d, 'r, 'l, 's) world" where
  "query_Close q w =
     (case on_db (CloseDB (q_db q)) w of
        (Ret _, w1) \<Rightarrow> on_query_cache (Close (q_cache q)) w1
      | (x, w1) \<Rightarrow> (x, w1))"

section \<open>The service\<close>

record ('d, 'r, 'l, 's) service =
  commandPart :: "('d, 'r, 'l, 's) commandService option"
  queryPart :: "('d, 'r, 'l) queryService option"

definition CheckHealth ::
  "('d, 'r, 'l, 's) service \<Rightarrow> ('d, 'r, 'l, 's) world \<Rightarrow> unit outcome \<times> ('d, 'r, 'l, 's) world" where
  "CheckHealth s w =
     (case queryPart s of
        Some q \<Rightarrow> query_checkHealth q w
      | None \<Rightarrow>
          (case commandPart s of
             Some c \<Rightarrow> command_checkHealth c w
           | None \<Rightarrow> (Ret (), w)))"

definition service_Close ::
  "('d, 'r, 'l, 's) service \<Rightarrow> ('d, 'r, 'l, 's) world \<Rightarrow> (unit outcome \<times> ('d, 'r, 'l, 's) world) option" where
  "service_Close s w =
     (let query = (\<lambda>w. case queryPart s of Some q \<Rightarrow> Some (query_Close q w) | None \<Rightarrow> Some (Ret (), w)) in
      (case commandPart s of
         None \<Rightarrow> query w
       | Some c \<Rightarrow>
           (case command_Close c w of
              None \<Rightarrow> None
            | Some (Ret _, w1) \<Rightarrow> query w1
            | Some (x, w1) \<Rightarrow> Some (x, w1))))"

section \<open>Building the service\<close>

text \<open>
  \<open>tddl.New\<close>: \<open>newSequence\<close> with its first \<open>renew\<close>, which may not return, and the start of the worker.
\<close>

definition tddl_New ::
  "'d seq_db \<Rightarrow> int \<Rightarrow> string \<Rightarrow> TDDLConfig \<Rightarrow> 'd \<Rightarrow> (client outcome \<times> 'd) option" where
  "tddl_New db oor uuid cfg d =
     (case newSequence db uuid cfg d of
        (Ret c, d1) \<Rightarrow>
          (case renew db oor (self c) d1 of
             None \<Rightarrow> None
           | Some (s, d2) \<Rightarrow> Some (Ret \<lparr>self = s, pc = Offering (tddl_curr s)\<rparr>, d2))
      | (Err err, d1) \<Rightarrow> Some (Err err, d1)
      | (Panic p, d1) \<Rightarrow> Some (Panic p, d1))"

text \<open>
  What the libraries supply: the connection to MySQL with the tables as they are found (the table of
  links and the table of sequences), the handles on them, migration, the redis client and the state of
  the server behind it, \<open>rand.IntN\<close>, \<open>bigcache.New\<close>, a fresh uuid.
\<close>

record ('d, 'r, 'l, 'q) deps =
  mysql_New :: "MySQLConfig option \<Rightarrow> goerr + 'd \<times> 'q"
  link_table :: "'d gorm"
  seq_table :: "'q seq_db"
  AutoMigrate :: "'d \<times> 'q \<Rightarrow> goerr option \<times> 'd \<times> 'q"
  redis_Client :: "RedisConfig \<Rightarrow> 'r redis_client"
  redis_state :: 'r
  rand_IntN :: "int \<Rightarrow> int"
  bigcache_New :: "big_config \<Rightarrow> goerr + 'l bigcache \<times> 'l"
  uuid_NewString :: string
  conv_oor :: int

definition no_client :: client where
  "no_client = \<lparr>self = \<lparr>clientID = [], rowID = 0, tddl_step = 0, tddl_max = 0, tddl_curr = 0, tddl_stop = True,
     rateLimiter = NewItemExponentialFailureRateLimiter 0 0\<rparr>, pc = Exited\<rparr>"

definition getDB :: "('d, 'r, 'l, 'q) deps \<Rightarrow> ServerConfig \<Rightarrow> goerr + 'd \<times> 'q" where
  "getDB env c =
     (case mysql_New env (MySQL c) of
        Inl err \<Rightarrow> Inl err
      | Inr (d, t) \<Rightarrow> (case gorm_DB (link_table env) d of Some err \<Rightarrow> Inl err | None \<Rightarrow> Inr (d, t)))"

type_synonym ('d, 'r, 'l, 'q) node_service =
  "('d, 'r \<times> metric list, 'l \<times> metric list, client \<times> 'q) service"

type_synonym ('d, 'r, 'l, 'q) node_world =
  "('d, 'r \<times> metric list, 'l \<times> metric list, client \<times> 'q) world"

definition newService ::
  "('d, 'r, 'l, 'q) deps \<Rightarrow> ServerConfig \<Rightarrow>
   (('d, 'r, 'l, 'q) node_service \<times> ('d, 'r, 'l, 'q) node_world) outcome option" where
  "newService env c =
     (let proxy = (\<lambda>cc. newProxy (redis_Client env) (rand_IntN env) (bigcache_New env) cc);
          nil = Some (Panic ''nil pointer dereference'') in
      (case getDB env c of
         Inl err \<Rightarrow> Some (Err err)
       | Inr (d0, t0) \<Rightarrow>
           (case Cache c of
              None \<Rightarrow> nil
            | Some cc \<Rightarrow>
                (case proxy cc of
                   Err err \<Rightarrow> Some (Err err)
                 | Panic p \<Rightarrow> Some (Panic p)
                 | Ret (qp, ql) \<Rightarrow>
                     (case cache_Redis cc of
                        None \<Rightarrow> nil
                      | Some rc \<Rightarrow>
                          (let q = \<lparr>q_ttl = redis_TTL rc, q_db = newStorage (link_table env), q_cache = proxy_iface qp\<rparr>;
                               node = (\<lambda>d wl cl. \<lparr>database = d, redis = (redis_state env, []), write_local = (wl, []),
                                  query_local = (ql, []), sequence = cl, stats = [], janitor_closed = False\<rparr>)
                           in
                           if Readonly c
                           then Some (Ret (\<lparr>commandPart = None, queryPart = Some q\<rparr>, node d0 ql (no_client, t0)))
                           else
                             (case AutoMigrate env (d0, t0) of
                                (Some err, _) \<Rightarrow> Some (Err err)
                              | (None, d1, t1) \<Rightarrow>
                                  (case TDDL c of
                                     None \<Rightarrow> nil
                                   | Some tc \<Rightarrow>
                                       (case tddl_New (seq_table env) (conv_oor env) (uuid_NewString env) tc t1 of
                                          None \<Rightarrow> None
                                        | Some (Err err, _) \<Rightarrow> Some (Err err)
                                        | Some (Panic p, _) \<Rightarrow> Some (Panic p)
                                        | Some (Ret cl, t2) \<Rightarrow>
                                            (case proxy cc of
                                               Err err \<Rightarrow> Some (Err err)
                                             | Panic p \<Rightarrow> Some (Panic p)
                                             | Ret (wp, wl) \<Rightarrow>
                                                 Some (Ret (\<lparr>commandPart = Some \<lparr>cmd_ttl = redis_TTL rc,
                                                     cmd_db = newStorage (link_table env), cmd_cache = proxy_iface wp,
                                                     cmd_seq = tddlSequence_iface (seq_table env) (conv_oor env)\<rparr>,
                                                   queryPart = Some q\<rparr>,
                                                   node d1 wl (cl, t2)))))))))))))"

section \<open>Calls on a part of the world\<close>

lemma on_part_simps [simp]:
  "fst (on_db f w) = fst (f (database w))"
  "snd (on_db f w) = w\<lparr>database := snd (f (database w))\<rparr>"
  "fst (on_seq g w) = fst (g (sequence w))"
  "snd (on_seq g w) = w\<lparr>sequence := snd (g (sequence w))\<rparr>"
  "fst (on_write_cache h w) = fst (h (redis w, write_local w))"
  "snd (on_write_cache h w) =
     w\<lparr>redis := fst (snd (h (redis w, write_local w))), write_local := snd (snd (h (redis w, write_local w)))\<rparr>"
  "fst (on_query_cache h w) = fst (h (redis w, query_local w))"
  "snd (on_query_cache h w) =
     w\<lparr>redis := fst (snd (h (redis w, query_local w))), query_local := snd (snd (h (redis w, query_local w)))\<rparr>"
  by (simp_all add: on_db_def on_seq_def on_write_cache_def on_query_cache_def split: prod.split)

lemma Base58_key: "Base58Decode (Base58Encode n) = Ret m \<Longrightarrow> m = n"
  using length_string58 [of "unat n" 8] set_string58 [of "unat n"]
  by (auto simp: Base58Encode_eq Base58Decode_eq split: if_splits)

lemma janitor_tick_rows:
  "database (janitor_tick c now w) = snd (DeleteExpired (cmd_db c) now janitorBatchSize (database w))"
  by (auto simp: janitor_tick_def on_db_def AddExpiredReaped_def record_metric_def split: prod.splits option.splits)

section \<open>The contract of a node\<close>

text \<open>
  The two services share a store of links and a redis server and have a local cache each: \<open>rh r k v\<close>
  and \<open>lh l k v\<close> tell that redis or a local cache may answer \<open>v\<close> for \<open>k\<close>.
\<close>

type_synonym links = "(uint64 \<times> bytes \<times> time option) set"

text \<open>The link a call of \<open>Create\<close> asks for under the number it drew, as it answers it and as the table keeps it.\<close>

definition asked :: "(time \<Rightarrow> time) \<Rightarrow> uint64 outcome \<Rightarrow> bytes \<Rightarrow> time option \<Rightarrow> links" where
  "asked colt drawn long e = (case drawn of Ret n \<Rightarrow> {(n, long, e), (n, long, map_option colt e)} | _ \<Rightarrow> {})"

text \<open>
  A node at work, with the set of the links asked for so far: any sequence of calls of its services and
  of ticks of its janitor. The clock readings, the contexts and the validator are those of the call; an
  expiry fits the eight bytes of a cached value.
\<close>

definition link_expiry :: "time \<Rightarrow> duration \<Rightarrow> time option" where
  "link_expiry now ttl = (if ttl > 0 then Some (now + ttl) else None)"

inductive node_step ::
  "(time \<Rightarrow> time) \<Rightarrow> ('d, 'r, 'l, 's) commandService \<Rightarrow> ('d, 'r, 'l) queryService \<Rightarrow>
   links \<times> ('d, 'r, 'l, 's) world \<Rightarrow> links \<times> ('d, 'r, 'l, 's) world \<Rightarrow> bool"
  for colt c q where
  create: "expiry_ok (link_expiry (clk 0) ttl) \<Longrightarrow> node_step colt c q (H, w)
    (H \<union> (if http_url long = None then asked colt (fst (seq_Next (cmd_seq c) ctx (sequence w))) long (link_expiry (clk 0) ttl)
          else {}),
     snd (Create http_url c clk ctx long ttl w))"
| remove: "node_step colt c q (H, w) (H, snd (Delete_link c short w))"
| retrieve: "node_step colt c q (H, w) (H, snd (Retrieve q clk short w))"
| getByLong: "node_step colt c q (H, w) (H, snd (GetByLong http_url q long w))"
| janitor: "node_step colt c q (H, w) (H, janitor_tick c now w)"
| command_health: "node_step colt c q (H, w) (H, snd (command_checkHealth c w))"
| query_health: "node_step colt c q (H, w) (H, snd (query_checkHealth q w))"

locale turl_node =
  fixes c :: "('d, 'r, 'l, 's) commandService"
    and q :: "('d, 'r, 'l) queryService"
    and rows :: "'d \<Rightarrow> TinyURL list"
    and coll :: "bytes \<Rightarrow> bytes \<Rightarrow> bool"
    and colt :: "time \<Rightarrow> time"
    and rh :: "'r \<Rightarrow> string \<Rightarrow> bytes \<Rightarrow> bool"
    and lh :: "'l \<Rightarrow> string \<Rightarrow> bytes \<Rightarrow> bool"
  assumes store: "link_store (cmd_db c) rows coll colt"
    and same_store: "q_db q = cmd_db c"
    and write_cache: "cache_layer (cmd_cache c) (\<lambda>s k v. rh (fst s) k v \<or> lh (snd s) k v)"
    and query_cache: "cache_layer (q_cache q) (\<lambda>s k v. rh (fst s) k v \<or> lh (snd s) k v)"
    and colt_ok: "expiry_ok e \<Longrightarrow> expiry_ok (map_option colt e)"
begin

definition held :: "('d, 'r, 'l, 's) world \<Rightarrow> string \<Rightarrow> bytes \<Rightarrow> bool" where
  "held w k v \<longleftrightarrow> rh (redis w) k v \<or> lh (write_local w) k v \<or> lh (query_local w) k v"

lemma held_write_set:
  "held (snd (on_write_cache (Set (cmd_cache c) k v ttl) w)) k' v' \<Longrightarrow> held w k' v' \<or> k' = k \<and> v' = v"
  using cache_layer.set_sound [OF write_cache, of k v ttl "(redis w, write_local w)" k' v'] by (auto simp: held_def)

lemma held_write_del: "held (snd (on_write_cache (Del (cmd_cache c) k) w)) k' v' \<Longrightarrow> held w k' v'"
  using cache_layer.del_shrink [OF write_cache, of k "(redis w, write_local w)" k' v'] by (auto simp: held_def)

lemma held_write_ping: "held (snd (on_write_cache (Ping (cmd_cache c)) w)) k' v' \<Longrightarrow> held w k' v'"
  using cache_layer.ping_shrink [OF write_cache, of "(redis w, write_local w)" k' v'] by (auto simp: held_def)

lemma held_query_set:
  "held (snd (on_query_cache (Set (q_cache q) k v ttl) w)) k' v' \<Longrightarrow> held w k' v' \<or> k' = k \<and> v' = v"
  using cache_layer.set_sound [OF query_cache, of k v ttl "(redis w, query_local w)" k' v'] by (auto simp: held_def)

lemma held_query_get: "held (snd (on_query_cache (Get (q_cache q) k) w)) k' v' \<Longrightarrow> held w k' v'"
  using cache_layer.get_shrink [OF query_cache, of k "(redis w, query_local w)" k' v'] by (auto simp: held_def)

lemma held_query_answer: "fst (on_query_cache (Get (q_cache q) k) w) = Ret v \<Longrightarrow> held w k v"
  using cache_layer.get_sound [OF query_cache, of k "(redis w, query_local w)" v] by (auto simp: held_def)

lemma held_query_ping: "held (snd (on_query_cache (Ping (q_cache q)) w)) k' v' \<Longrightarrow> held w k' v'"
  using cache_layer.ping_shrink [OF query_cache, of "(redis w, query_local w)" k' v'] by (auto simp: held_def)

lemma held_frame [simp]:
  "held (w\<lparr>database := d\<rparr>) = held w" "held (w\<lparr>sequence := s\<rparr>) = held w" "held (w\<lparr>stats := m\<rparr>) = held w"
  by (auto simp: held_def fun_eq_iff)

text \<open>
  A cached value is good for a set of links when it is the encoding of one of them, under a key that
  denotes its number or none.
\<close>

definition good :: "links \<Rightarrow> string \<Rightarrow> bytes \<Rightarrow> bool" where
  "good H k v \<longleftrightarrow> (\<exists>n long long' e. v = encodeCacheValue long e \<and> (n, long', e) \<in> H \<and> coll long' long \<and>
     (\<forall>m. Base58Decode k = Ret m \<longrightarrow> m = n))"

definition node_inv :: "links \<Rightarrow> ('d, 'r, 'l, 's) world \<Rightarrow> bool" where
  "node_inv H w \<longleftrightarrow> (\<forall>t\<in>set (rows (database w)). (Short t, LongURL t, ExpiresAt t) \<in> H) \<and>
     (\<forall>k v. held w k v \<longrightarrow> good H k v) \<and> (\<forall>n long e. (n, long, e) \<in> H \<longrightarrow> expiry_ok e)"

lemma good_mono: "good H k v \<Longrightarrow> H \<subseteq> H' \<Longrightarrow> good H' k v"
  unfolding good_def by blast

lemma good_decode:
  assumes "good H k v" "\<And>n long e. (n, long, e) \<in> H \<Longrightarrow> expiry_ok e" "decodeCacheValue v = Some (long, e)" "Base58Decode k = Ret m"
  shows "\<exists>long'. (m, long', e) \<in> H \<and> coll long' long"
proof -
  obtain n x y f where v: "v = encodeCacheValue x f" "(n, y, f) \<in> H" "coll y x" "\<forall>m. Base58Decode k = Ret m \<longrightarrow> m = n"
    using assms(1) by (auto simp: good_def)
  then have "decodeCacheValue v = Some (x, f)" using decode_encode_ok [OF assms(2) [OF v(2)]] by simp
  then show ?thesis using assms(3,4) v by auto
qed

end

context turl_node begin

lemma node_inv_shrink:
  "node_inv H w \<Longrightarrow> rows (database w') = rows (database w) \<Longrightarrow> (\<And>k v. held w' k v \<Longrightarrow> held w k v) \<Longrightarrow> node_inv H w'"
  by (auto simp: node_inv_def)

lemma node_inv_add:
  "node_inv H w \<Longrightarrow> rows (database w') = rows (database w) \<Longrightarrow>
   (\<And>k' v'. held w' k' v' \<Longrightarrow> held w k' v' \<or> k' = k \<and> v' = v) \<Longrightarrow> good H k v \<Longrightarrow> node_inv H w'"
  unfolding node_inv_def by metis

lemma node_inv_mono:
  "node_inv H w \<Longrightarrow> H \<subseteq> H' \<Longrightarrow> (\<And>n long e. (n, long, e) \<in> H' \<Longrightarrow> expiry_ok e) \<Longrightarrow> node_inv H' w"
  unfolding node_inv_def using good_mono by blast

text \<open>Rows that come, with their links added to the set, and rows that are deleted or go.\<close>

lemma insert_inv:
  assumes inv: "node_inv H w" and e: "expiry_ok e"
  shows "node_inv (H \<union> {(n, long, e), (n, long, map_option colt e)}) (snd (on_db (Insert (cmd_db c) n long e) w))"
proof -
  have "held (snd (on_db (Insert (cmd_db c) n long e) w)) = held w" by simp
  moreover have "(Short t, LongURL t, ExpiresAt t) \<in> H \<union> {(n, long, e), (n, long, map_option colt e)}"
    if "t \<in> set (rows (snd (Insert (cmd_db c) n long e (database w))))" for t
    using that inv link_store.insert_rows [OF store, of n long e "database w"]
    by (auto simp: node_inv_def new_row_def)
  moreover have "node_inv (H \<union> {(n, long, e), (n, long, map_option colt e)}) w"
    by (rule node_inv_mono [OF inv]) (use inv e colt_ok [OF e] in \<open>auto simp: node_inv_def\<close>)
  ultimately show ?thesis by (simp add: node_inv_def)
qed

lemma delete_rows_inv:
  assumes "node_inv H w"
  shows "node_inv H (snd (on_db (Delete (cmd_db c) n) w))"
  using assms link_store.remove_any [OF store, of n "database w"]
  by (auto simp: node_inv_def set_soft_delete)

lemma reap_inv:
  assumes "node_inv H w" "0 \<le> limit"
  shows "node_inv H (snd (on_db (DeleteExpired (cmd_db c) now limit) w))"
proof -
  obtain n oe d' where r: "DeleteExpired (cmd_db c) now limit (database w) = ((n, oe), d')"
    by (metis prod.exhaust)
  then have "set (rows d') \<subseteq> set (rows (database w))"
    using link_store.reap [OF store assms(2) r] subseq_set_mono by blast
  then show ?thesis using assms(1) r by (auto simp: node_inv_def)
qed

lemma finish_inv:
  assumes "node_inv H w" "(n, long', ExpiresAt record) \<in> H" "coll long' long"
  shows "node_inv H (snd (Create_finish c now long n record w))"
proof -
  let ?w = "snd (on_write_cache (Set (cmd_cache c) (Base58Encode n) (encodeCacheValue long (ExpiresAt record))
    (cacheTTL (cmd_ttl c) (ExpiresAt record) now)) w)"
  have g: "good H (Base58Encode n) (encodeCacheValue long (ExpiresAt record))"
    unfolding good_def using assms(2,3) Base58_key by blast
  have "node_inv H ?w" by (rule node_inv_add [OF assms(1) _ held_write_set g]) simp_all
  moreover have "snd (Create_finish c now long n record w) = ?w"
    by (simp add: Create_finish_def Let_def del: on_part_simps split: prod.splits outcome.splits)
  ultimately show ?thesis by simp
qed

lemma coll_refl [simp]: "coll x x"
  using link_store.coll_eq [OF store] by (rule coll_facts)

lemma Create_inv:
  assumes inv: "node_inv H w" and e: "e = (if ttl > 0 then Some (clk 0 + ttl) else None)" "expiry_ok e"
  shows "node_inv (H \<union> (if http_url long = None then asked colt (fst (seq_Next (cmd_seq c) ctx (sequence w))) long e else {}))
    (snd (Create http_url c clk ctx long ttl w))"
proof (cases "http_url long")
  case (Some err)
  then show ?thesis using inv by (simp add: Create_def)
next
  case None
  obtain x s1 where x: "seq_Next (cmd_seq c) ctx (sequence w) = (x, s1)" by (metis prod.exhaust)
  let ?w1 = "w\<lparr>sequence := s1\<rparr>"
  have inv1: "node_inv H ?w1" using inv by (rule node_inv_shrink) simp_all
  show ?thesis
  proof (cases x)
    case (Ret n)
    let ?H = "H \<union> {(n, long, e), (n, long, map_option colt e)}"
    obtain y d2 where y: "Insert (cmd_db c) n long e (database w) = (y, d2)" by (metis prod.exhaust)
    let ?w2 = "w\<lparr>sequence := s1, database := d2\<rparr>"
    have inv2: "node_inv ?H ?w2" using insert_inv [OF inv1 e(2), of n long] y by simp
    have H: "asked colt x long e = {(n, long, e), (n, long, map_option colt e)}" using Ret by (simp add: asked_def)
    show ?thesis
    proof (cases y)
      case (Ret rcd)
      have rec: "(n, long, ExpiresAt rcd) \<in> ?H"
        using link_store.insert_ok [OF store, of n long e "database w" rcd] y Ret by (simp add: new_row_def)
      have "node_inv ?H (IncShortenCreated ?w2)"
        using inv2 by (rule node_inv_shrink) (simp_all add: IncShortenCreated_def record_metric_def)
      from finish_inv [OF this rec coll_refl]
      show ?thesis using None x \<open>x = Ret n\<close> y Ret H e(1) by (simp add: Create_def on_db_def on_seq_def Let_def)
    next
      case (Err err)
      obtain z d3 where z: "GetByLongURL (cmd_db c) long d2 = (z, d3)" by (metis prod.exhaust)
      have same: "rows d3 = rows d2" using link_store.long_rows [OF store, of long d2] z by simp
      let ?w3 = "w\<lparr>sequence := s1, database := d3\<rparr>"
      have inv3: "node_inv ?H ?w3" using inv2 by (rule node_inv_shrink) (simp_all add: same)
      have fin: "node_inv ?H (snd (Create_finish c (clk 1) long (Short rcd) rcd ?w3))" if "z = Ret rcd" for rcd
      proof (rule finish_inv [OF inv3])
        have "rcd \<in> set (rows d2)" "coll (LongURL rcd) long"
          using link_store.long_ok [OF store, of long d2 rcd] z that by simp_all
        then show "(Short rcd, LongURL rcd, ExpiresAt rcd) \<in> ?H" "coll (LongURL rcd) long"
          using inv2 by (auto simp: node_inv_def)
      qed
      show ?thesis
        using None x \<open>x = Ret n\<close> y Err H z e(1) inv2 inv3 fin
        by (cases z) (auto simp: Create_def on_db_def on_seq_def Let_def)
    next
      case (Panic p)
      then show ?thesis using None x \<open>x = Ret n\<close> y H e(1) inv2 by (simp add: Create_def on_db_def on_seq_def Let_def)
    qed
  qed (use None x inv1 in \<open>simp_all add: Create_def on_seq_def asked_def\<close>)
qed

lemma Delete_inv: "node_inv H w \<Longrightarrow> node_inv H (snd (Delete_link c short w))"
proof (cases "Base58Decode short")
  case (Ret n)
  assume inv: "node_inv H w"
  let ?w1 = "snd (on_db (Delete (cmd_db c) n) w)"
  have inv1: "node_inv H ?w1" using delete_rows_inv [OF inv] .
  have "node_inv H (snd (on_write_cache (Del (cmd_cache c) short) ?w1))"
    by (rule node_inv_shrink [OF inv1 _ held_write_del]) simp_all
  moreover have "snd (Delete_link c short w) = ?w1 \<or>
      snd (Delete_link c short w) = snd (on_write_cache (Del (cmd_cache c) short) ?w1)"
    by (cases "on_db (Delete (cmd_db c) n) w") (auto simp: Delete_link_def Ret simp del: on_part_simps split: outcome.splits)
  ultimately show ?thesis using inv1 by metis
qed (simp_all add: Delete_link_def)

end

context turl_node begin

lemma fromCache_state: "snd (fromCache q now k w) = snd (on_query_cache (Get (q_cache q) k) w)"
  by (simp add: fromCache_def del: on_part_simps split: prod.splits outcome.splits option.splits)

lemma fromCache_inv: "node_inv H w \<Longrightarrow> node_inv H (snd (fromCache q now k w))"
  unfolding fromCache_state by (rule node_inv_shrink [OF _ _ held_query_get]) simp_all

lemma fromCache_hit:
  assumes inv: "node_inv H w" and hit: "fst (fromCache q now k w) = Ret (Some long)" and m: "Base58Decode k = Ret m"
  shows "\<exists>long' e. (m, long', e) \<in> H \<and> coll long' long \<and> \<not> isExpired e now"
proof -
  obtain v e where v: "fst (on_query_cache (Get (q_cache q) k) w) = Ret v" "decodeCacheValue v = Some (long, e)" "\<not> isExpired e now"
    using hit by (auto simp: fromCache_def simp del: on_part_simps split: prod.splits outcome.splits option.splits if_splits)
  have "good H k v" using inv held_query_answer [OF v(1)] by (simp add: node_inv_def)
  then show ?thesis using good_decode [OF _ _ v(2) m, of H] inv v(3) by (auto simp: node_inv_def)
qed

text \<open>What \<open>Retrieve\<close> may answer, and that it keeps the invariant.\<close>

lemma Retrieve_sound:
  assumes inv: "node_inv H w"
  shows "node_inv H (snd (Retrieve q clk short w))"
    and "fst (Retrieve q clk short w) = Ret long \<Longrightarrow>
      \<exists>n long' e. Base58Decode short = Ret n \<and> (n, long', e) \<in> H \<and> coll long' long \<and>
        (\<not> isExpired e (clk 0) \<or> \<not> isExpired e (clk 1))"
proof -
  have "node_inv H (snd (Retrieve q clk short w)) \<and> (\<forall>long. fst (Retrieve q clk short w) = Ret long \<longrightarrow>
      (\<exists>n long' e. Base58Decode short = Ret n \<and> (n, long', e) \<in> H \<and> coll long' long \<and>
        (\<not> isExpired e (clk 0) \<or> \<not> isExpired e (clk 1))))"
  proof (cases "Base58Decode short")
    case (Ret n)
    obtain x w1 where x: "fromCache q (clk 0) short w = (x, w1)" by (metis prod.exhaust)
    have inv1: "node_inv H w1" using fromCache_inv [OF inv, of "clk 0" short] x by simp
    obtain y d2 where y: "GetByShortID (cmd_db c) n (database w1) = (y, d2)" by (metis prod.exhaust)
    let ?w2 = "w1\<lparr>database := d2\<rparr>"
    have "rows d2 = rows (database w1)" using link_store.short_rows [OF store, of n "database w1"] y by simp
    then have inv2: "node_inv H ?w2" by (intro node_inv_shrink [OF inv1]) simp_all
    show ?thesis
    proof (cases "x = Ret None \<and> (\<exists>t. y = Ret t)")
      case True
      then obtain t where t: "x = Ret None" "y = Ret t" by blast
      have row: "t \<in> set (rows (database w1))" "Short t = n"
        using link_store.short_ok [OF store, of n "database w1" t] y t by simp_all
      then have H: "(n, LongURL t, ExpiresAt t) \<in> H" using inv1 by (auto simp: node_inv_def)
      let ?w3 = "snd (on_query_cache (Set (q_cache q) short (encodeCacheValue (LongURL t) (ExpiresAt t))
        (cacheTTL (q_ttl q) (ExpiresAt t) (clk 2))) ?w2)"
      have g: "good H short (encodeCacheValue (LongURL t) (ExpiresAt t))"
        unfolding good_def using H Ret coll_refl by (metis outcome.inject(1))
      have inv3: "node_inv H ?w3" by (rule node_inv_add [OF inv2 _ held_query_set g]) simp_all
      have st: "snd (Retrieve q clk short w) = (if isExpired (ExpiresAt t) (clk 1) then ?w2 else ?w3)"
        using Ret x y t same_store
        by (auto simp: Retrieve_def on_db_def simp del: on_part_simps split: prod.splits outcome.splits)
      have ans: "fst (Retrieve q clk short w) = Ret l \<Longrightarrow> l = LongURL t \<and> \<not> isExpired (ExpiresAt t) (clk 1)" for l
        using Ret x y t same_store
        by (auto simp: Retrieve_def on_db_def simp del: on_part_simps split: prod.splits outcome.splits if_splits)
      have "node_inv H (snd (Retrieve q clk short w))" unfolding st using inv2 inv3 by (simp del: on_part_simps)
      then show ?thesis using ans Ret H coll_refl by blast
    next
      case False
      then have st: "snd (Retrieve q clk short w) \<in> {w1, ?w2}"
        and hit: "fst (Retrieve q clk short w) = Ret l \<Longrightarrow> x = Ret (Some l)" for l
        using Ret x y same_store
        by (auto simp: Retrieve_def on_db_def simp del: on_part_simps split: outcome.splits option.splits)
      show ?thesis using st hit inv1 inv2 fromCache_hit [OF inv _ Ret, of "clk 0"] x Ret by fastforce
    qed
  qed (use inv in \<open>simp_all add: Retrieve_def\<close>)
  then show "node_inv H (snd (Retrieve q clk short w))"
    and "fst (Retrieve q clk short w) = Ret long \<Longrightarrow>
      \<exists>n long' e. Base58Decode short = Ret n \<and> (n, long', e) \<in> H \<and> coll long' long \<and>
        (\<not> isExpired e (clk 0) \<or> \<not> isExpired e (clk 1))"
    by blast+
qed

lemma GetByLong_inv: "node_inv H w \<Longrightarrow> node_inv H (snd (GetByLong http_url q long w))"
proof (cases "http_url long")
  case None
  assume inv: "node_inv H w"
  have "snd (GetByLong http_url q long w) = snd (on_db (GetByLongURL (cmd_db c) long) w)"
    using None same_store
    by (simp add: GetByLong_def del: on_part_simps split: prod.splits outcome.splits)
  then show ?thesis
    using link_store.long_rows [OF store, of long "database w"] by (auto intro: node_inv_shrink [OF inv])
qed (simp add: GetByLong_def)

lemma janitor_inv: "node_inv H w \<Longrightarrow> node_inv H (janitor_tick c now w)"
proof -
  assume inv: "node_inv H w"
  let ?w = "snd (on_db (DeleteExpired (cmd_db c) now janitorBatchSize) w)"
  have inv1: "node_inv H ?w" by (rule reap_inv [OF inv]) (simp add: janitorBatchSize_def)
  have "janitor_tick c now w = ?w \<or> (\<exists>m. janitor_tick c now w = ?w\<lparr>stats := m\<rparr>)"
    by (auto simp: janitor_tick_def AddExpiredReaped_def record_metric_def simp del: on_part_simps
        split: prod.splits option.splits)
  then show ?thesis using inv1 by (auto intro: node_inv_shrink)
qed

lemma janitor_tick_reap:
  "subseq (rows (database (janitor_tick c now w))) (rows (database w)) \<and>
   (\<forall>t\<in>set (rows (database w)) - set (rows (database (janitor_tick c now w))). expired_at now t)"
proof -
  obtain n oe d' where r: "DeleteExpired (cmd_db c) now janitorBatchSize (database w) = ((n, oe), d')"
    by (metis prod.exhaust)
  have "0 \<le> janitorBatchSize" by (simp add: janitorBatchSize_def)
  from link_store.reap [OF store this r] show ?thesis by (simp add: janitor_tick_rows r)
qed

lemma command_checkHealth_inv: "node_inv H w \<Longrightarrow> node_inv H (snd (command_checkHealth c w))"
proof -
  assume inv: "node_inv H w"
  let ?w1 = "snd (on_db (PingDB (cmd_db c)) w)"
  have inv1: "node_inv H ?w1"
    using link_store.pingdb_rows [OF store, of "database w"] by (intro node_inv_shrink [OF inv]) simp_all
  have "node_inv H (snd (on_write_cache (Ping (cmd_cache c)) ?w1))"
    by (rule node_inv_shrink [OF inv1 _ held_write_ping]) simp_all
  moreover have "snd (command_checkHealth c w) = ?w1 \<or> snd (command_checkHealth c w) = snd (on_write_cache (Ping (cmd_cache c)) ?w1)"
    by (auto simp: command_checkHealth_def pingDeps_def simp del: on_part_simps split: prod.splits outcome.splits)
  ultimately show ?thesis using inv1 by metis
qed

lemma query_checkHealth_inv: "node_inv H w \<Longrightarrow> node_inv H (snd (query_checkHealth q w))"
proof -
  assume inv: "node_inv H w"
  let ?w1 = "snd (on_db (PingDB (cmd_db c)) w)"
  have inv1: "node_inv H ?w1"
    using link_store.pingdb_rows [OF store, of "database w"] by (intro node_inv_shrink [OF inv]) simp_all
  have "node_inv H (snd (on_query_cache (Ping (q_cache q)) ?w1))"
    by (rule node_inv_shrink [OF inv1 _ held_query_ping]) simp_all
  moreover have "snd (query_checkHealth q w) = ?w1 \<or> snd (query_checkHealth q w) = snd (on_query_cache (Ping (q_cache q)) ?w1)"
    using same_store
    by (auto simp: query_checkHealth_def pingDeps_def simp del: on_part_simps split: prod.splits outcome.splits)
  ultimately show ?thesis using inv1 by metis
qed

end

context turl_node begin

lemma node_step_inv:
  assumes "node_step colt c q X Y" "node_inv (fst X) (snd X)"
  shows "node_inv (fst Y) (snd Y)"
  using assms
proof (induction rule: node_step.induct)
  case (create clk ttl H w ctx long http_url)
  then show ?case
    using Create_inv [of H w "link_expiry (clk 0) ttl" ttl clk ctx long http_url] by (simp add: link_expiry_def)
qed (simp_all add: Delete_inv Retrieve_sound(1) GetByLong_inv janitor_inv command_checkHealth_inv query_checkHealth_inv)

lemma node_steps_inv:
  "(node_step colt c q)\<^sup>*\<^sup>* X Y \<Longrightarrow> node_inv (fst X) (snd X) \<Longrightarrow> node_inv (fst Y) (snd Y)"
  by (induction rule: rtranclp_induct) (auto intro: node_step_inv)

text \<open>A node that starts with cold caches.\<close>

lemma cold_inv:
  assumes "\<And>k v. \<not> held w k v" "\<And>t. t \<in> set (rows (database w)) \<Longrightarrow> expiry_ok (ExpiresAt t)"
  shows "node_inv {(Short t, LongURL t, ExpiresAt t) | t. t \<in> set (rows (database w))} w"
  using assms by (auto simp: node_inv_def)

end

section \<open>A model of a node\<close>

text \<open>The node on the models of the table and of the caches, with a counter for a sequence.\<close>

type_synonym demo_world =
  "(TinyURL list, string \<rightharpoonup> bytes, string \<rightharpoonup> bytes, uint64) world"

definition counter_seq :: "uint64 tddl_iface" where
  "counter_seq = \<lparr>seq_Next = (\<lambda>_ n. (Ret n, n + 1)), seq_Close = Some\<rparr>"

definition demo_command :: "(TinyURL list, string \<rightharpoonup> bytes, string \<rightharpoonup> bytes, uint64) commandService" where
  "demo_command = \<lparr>cmd_ttl = 1800 * Second, cmd_db = newStorage list_db, cmd_cache = proxy_iface map_proxy,
     cmd_seq = counter_seq\<rparr>"

definition demo_query :: "(TinyURL list, string \<rightharpoonup> bytes, string \<rightharpoonup> bytes) queryService" where
  "demo_query = \<lparr>q_ttl = 1800 * Second, q_db = newStorage list_db, q_cache = proxy_iface map_proxy\<rparr>"

definition demo_world :: "TinyURL list \<Rightarrow> uint64 \<Rightarrow> demo_world" where
  "demo_world rs n = \<lparr>database = rs, redis = Map.empty, write_local = Map.empty, query_local = Map.empty,
     sequence = n, stats = [], janitor_closed = False\<rparr>"

lemma map_proxy_contract: "cache_layer (proxy_iface map_proxy) (\<lambda>s k v. fst s k = Some v \<or> snd s k = Some v)"
  using two_layers.proxy_contract [OF two_layers.intro, of map_proxy "\<lambda>r k v. r k = Some v" "\<lambda>l k v. l k = Some v"]
    map_redis.redis_contract map_big.local_contract by (simp add: map_proxy_def)

interpretation demo: turl_node demo_command demo_query "\<lambda>rs. rs" "(=)" "\<lambda>t. t"
  "\<lambda>r k v. r k = Some v" "\<lambda>l k v. l k = Some v"
proof (rule turl_node.intro)
  show "link_store (cmd_db demo_command) (\<lambda>rs. rs) (=) (\<lambda>t. t)"
    using list_db.store_contract by (simp add: demo_command_def)
  show "cache_layer (cmd_cache demo_command) (\<lambda>s k v. fst s k = Some v \<or> snd s k = Some v)"
    "cache_layer (q_cache demo_query) (\<lambda>s k v. fst s k = Some v \<or> snd s k = Some v)"
    using map_proxy_contract by (simp_all add: demo_command_def demo_query_def)
qed (simp_all add: demo_command_def demo_query_def option.map_ident)

section \<open>Lemmas on single calls\<close>

lemma Create_finish_Ret:
  assumes "Create_finish c now long n record w = (Ret m, w')"
  shows "m = \<lparr>m_ShortURL = Base58Encode n, m_LongURL = long, m_CreatedAt = CreatedAt record,
      m_DeletedAt = DeletedAt record, m_ExpiresAt = ExpiresAt record\<rparr>"
    and "w' = snd (on_write_cache (Set (cmd_cache c) (Base58Encode n) (encodeCacheValue long (ExpiresAt record))
      (cacheTTL (cmd_ttl c) (ExpiresAt record) now)) w)"
  using assms by (auto simp: Create_finish_def Let_def simp del: on_part_simps split: prod.splits outcome.splits)

text \<open>The two ways in which \<open>Create\<close> returns a link.\<close>

lemma Create_Ret:
  assumes ret: "Create http_url c clk ctx long ttl w = (Ret m, w')"
  obtains (fresh) n s1 t d2 where
      "seq_Next (cmd_seq c) ctx (sequence w) = (Ret n, s1)"
      "Insert (cmd_db c) n long (link_expiry (clk 0) ttl) (database w) = (Ret t, d2)"
      "Create_finish c (clk 1) long n t (IncShortenCreated (w\<lparr>sequence := s1, database := d2\<rparr>)) = (Ret m, w')"
    | (again) n s1 err d2 t d3 where
      "seq_Next (cmd_seq c) ctx (sequence w) = (Ret n, s1)"
      "Insert (cmd_db c) n long (link_expiry (clk 0) ttl) (database w) = (Err err, d2)" "errors_Is err ErrDuplicatedKey"
      "GetByLongURL (cmd_db c) long d2 = (Ret t, d3)"
      "Create_finish c (clk 1) long (Short t) t (w\<lparr>sequence := s1, database := d3\<rparr>) = (Ret m, w')"
proof -
  obtain n s1 where n: "seq_Next (cmd_seq c) ctx (sequence w) = (Ret n, s1)" and valid: "http_url long = None"
    using ret by (auto simp: Create_def on_seq_def split: option.splits prod.splits outcome.splits)
  obtain y d2 where y: "Insert (cmd_db c) n long (link_expiry (clk 0) ttl) (database w) = (y, d2)" by (metis prod.exhaust)
  obtain z d3 where z: "GetByLongURL (cmd_db c) long d2 = (z, d3)" by (metis prod.exhaust)
  show ?thesis
  proof (cases y)
    case (Ret t)
    then show ?thesis using ret n valid y fresh
      by (simp add: Create_def on_seq_def on_db_def Let_def link_expiry_def)
  next
    case (Err err)
    then show ?thesis using ret n valid y z again
      by (cases z) (auto simp: Create_def on_seq_def on_db_def Let_def link_expiry_def split: if_splits)
  next
    case (Panic p)
    then show ?thesis using ret n valid y by (simp add: Create_def on_seq_def on_db_def Let_def link_expiry_def)
  qed
qed

lemma Delete_Ret:
  assumes "Delete_link c short w = (Ret u, w')"
  obtains n d1 where "Base58Decode short = Ret n" "Delete (cmd_db c) n (database w) = (Ret (), d1)"
    "on_write_cache (Del (cmd_cache c) short) (w\<lparr>database := d1\<rparr>) = (Ret u, w')"
  using assms by (auto simp: Delete_link_def on_db_def split: outcome.splits prod.splits)

text \<open>Whenever \<open>Create\<close> returns a link, its last act on the world was to cache that link under its code.\<close>

lemma Create_cached:
  assumes ret: "Create http_url c clk ctx long ttl w = (Ret m, w')"
  obtains w2 x where "redis w2 = redis w" "write_local w2 = write_local w" "query_local w2 = query_local w"
    "w' = snd (on_write_cache (Set (cmd_cache c) (m_ShortURL m) (encodeCacheValue long (m_ExpiresAt m)) x) w2)"
  using ret
proof (cases rule: Create_Ret)
  case (fresh n s1 t d2)
  note fin = Create_finish_Ret [OF fresh(3)]
  show ?thesis
    by (rule that [of "IncShortenCreated (w\<lparr>sequence := s1, database := d2\<rparr>)" "cacheTTL (cmd_ttl c) (ExpiresAt t) (clk 1)"])
      (simp_all add: fin(1), simp_all add: fin(2) IncShortenCreated_def record_metric_def)
next
  case (again n s1 err d2 t d3)
  note fin = Create_finish_Ret [OF again(5)]
  show ?thesis
    by (rule that [of "w\<lparr>sequence := s1, database := d3\<rparr>" "cacheTTL (cmd_ttl c) (ExpiresAt t) (clk 1)"])
      (simp_all add: fin(1), simp_all add: fin(2))
qed

lemma Create_rows:
  assumes node: "turl_node c q rows coll colt rh lh" and uniq: "unique_indexes coll (rows (database w))"
    and ret: "Create http_url c clk ctx long ttl w = (Ret m, w')"
  shows "\<exists>t\<in>set (rows (database w')). is_live t \<and> m_ShortURL m = Base58Encode (Short t) \<and> coll (LongURL t) long \<and>
    m_LongURL m = long \<and> unique_indexes coll (rows (database w')) \<and>
    (rows (database w') = rows (database w) @ [t] \<and> stats w' = stats w @ [ShortenCreated] \<and>
       fst (seq_Next (cmd_seq c) ctx (sequence w)) = Ret (Short t) \<and>
       m_ExpiresAt m = (if ttl > 0 then Some (clk 0 + ttl) else None) \<and> ExpiresAt t = map_option colt (m_ExpiresAt m) \<or>
     rows (database w') = rows (database w) \<and> stats w' = stats w \<and> m_ExpiresAt m = ExpiresAt t)"
  using ret
proof (cases rule: Create_Ret)
  case (fresh n s1 t d2)
  have ins: "new_row coll (rows (database w)) n long (link_expiry (clk 0) ttl) t" "rows d2 = rows (database w) @ [column colt t]"
    using link_store.insert_ok [OF turl_node.store [OF node], of n long "link_expiry (clk 0) ttl" "database w" t] fresh(2) by simp_all
  have u: "unique_indexes coll (rows d2)"
    using link_store.unique_insert [OF turl_node.store [OF node] uniq, of n long "link_expiry (clk 0) ttl"] fresh(2) by simp
  note fin = Create_finish_Ret [OF fresh(3)]
  have w': "database w' = d2" "stats w' = stats w @ [ShortenCreated]"
    by (simp_all add: fin(2) IncShortenCreated_def record_metric_def)
  show ?thesis
    by (rule bexI [of _ "column colt t"])
      (use ins u fin(1) w' fresh(1) turl_node.coll_refl [OF node] in \<open>simp_all add: new_row_def link_expiry_def\<close>)
next
  case (again n s1 err d2 t d3)
  note store = turl_node.store [OF node]
  have "rows d2 = rows (database w)"
    using link_store.insert_dup [OF store, of n long "link_expiry (clk 0) ttl" "database w" err] again(2,3) by simp
  moreover have "rows d3 = rows d2" using link_store.long_rows [OF store, of long d2] again(4) by simp
  moreover have "t \<in> set (rows d2)" "is_live t" "coll (LongURL t) long"
    using link_store.long_ok [OF store, of long d2 t] again(4) by simp_all
  moreover note fin = Create_finish_Ret [OF again(5)]
  moreover have "database w' = d3" "stats w' = stats w" by (simp_all add: fin(2))
  ultimately show ?thesis using uniq by (intro bexI [of _ t]) simp_all
qed

section \<open>Properties\<close>

text \<open>
  C1. A service answers only links that were asked for, and none after its expiry: take a node whose
  caches start cold, and let its services and its janitor run in any order with any arguments, failures
  of the database and of the caches included. Whenever \<open>Retrieve\<close> then returns a URL for a code, the code
  denotes a number under which a link with that URL (equal up to the collation of the column) was in the
  table at the start or was asked for by a \<open>Create\<close> that drew that number, and the expiry of that link had
  not passed when the call checked it.
\<close>

theorem retrieve_only_created:
  assumes node: "turl_node c q rows coll colt rh lh"
    and cold: "\<And>k v. \<not> rh (redis w0) k v \<and> \<not> lh (write_local w0) k v \<and> \<not> lh (query_local w0) k v"
    and rows: "\<And>t. t \<in> set (rows (database w0)) \<Longrightarrow> expiry_ok (ExpiresAt t)"
    and run: "(node_step colt c q)\<^sup>*\<^sup>*
      ({(Short t, LongURL t, ExpiresAt t) | t. t \<in> set (rows (database w0))}, w0) (H, w)"
    and ret: "fst (Retrieve q clk short w) = Ret long"
  shows "\<exists>n long' e. Base58Decode short = Ret n \<and> (n, long', e) \<in> H \<and> coll long' long \<and>
    (\<not> isExpired e (clk 0) \<or> \<not> isExpired e (clk 1))"
proof -
  have "turl_node.node_inv rows coll rh lh H w"
    using turl_node.node_steps_inv [OF node run] turl_node.cold_inv [OF node, of w0] cold rows
    by (simp add: turl_node.held_def [OF node])
  from turl_node.Retrieve_sound(2) [OF node this ret] show ?thesis .
qed

definition demo_links :: links where
  "demo_links = asked (\<lambda>t. t) (Ret 7) ''https://a'' (Some 1000)"

lemma demo_Create:
  "Create (\<lambda>_. None) demo_command (\<lambda>_. 400) (Ctx 1 Canceled) ''https://a'' 600 (demo_world [] 7) =
   (Ret \<lparr>m_ShortURL = ''8'', m_LongURL = ''https://a'', m_CreatedAt = 0, m_DeletedAt = None, m_ExpiresAt = Some 1000\<rparr>,
    \<lparr>database = [zero_TinyURL\<lparr>Short := 7, LongURL := ''https://a'', ExpiresAt := Some 1000\<rparr>],
     redis = [''8'' \<mapsto> encodeCacheValue ''https://a'' (Some 1000)],
     write_local = [''8'' \<mapsto> encodeCacheValue ''https://a'' (Some 1000)],
     query_local = Map.empty, sequence = 8, stats = [ShortenCreated], janitor_closed = False\<rparr>)"
proof -
  have code: "Base58Encode 7 = ''8''"
    by (simp add: Base58Encode_eq string58_def digits58.simps chars_def)
  have ttl: "cacheTTL (1800 * Second) (Some 1000) 400 = 600"
    by (simp add: cacheTTL_def Until_def Second_def Let_def)
  show ?thesis
    by (simp add: Create_def demo_command_def counter_seq_def demo_world_def on_seq_def on_db_def storage_Insert_def
        list_db_def Let_def zero_TinyURL_def IncShortenCreated_def record_metric_def Create_finish_def code
        ttl on_write_cache_def proxy_Set_def map_proxy_def on_dist_def on_local_def
        redisCache_Set_def localCache_Set_def map_redis_def map_big_def tdiv_def)
qed

definition demo_created :: demo_world where
  "demo_created = snd (Create (\<lambda>_. None) demo_command (\<lambda>_. 400) (Ctx 1 Canceled) ''https://a'' 600 (demo_world [] 7))"

lemma demo_created_eq:
  "demo_created =
    \<lparr>database = [zero_TinyURL\<lparr>Short := 7, LongURL := ''https://a'', ExpiresAt := Some 1000\<rparr>],
     redis = [''8'' \<mapsto> encodeCacheValue ''https://a'' (Some 1000)],
     write_local = [''8'' \<mapsto> encodeCacheValue ''https://a'' (Some 1000)],
     query_local = Map.empty, sequence = 8, stats = [ShortenCreated], janitor_closed = False\<rparr>"
  unfolding demo_created_def demo_Create snd_conv ..

lemma demo_code: "Base58Decode ''8'' = Ret 7"
  using Base58Decode_string58 [of 7] by (simp add: string58_def digits58.simps chars_def)

lemma demo_step:
  "node_step (\<lambda>t. t) demo_command demo_query ({}, demo_world [] 7) (demo_links, demo_created)"
proof -
  have "node_step (\<lambda>t. t) demo_command demo_query ({}, demo_world [] 7)
    ({} \<union> (if (\<lambda>_. None :: goerr option) ''https://a'' = None
       then asked (\<lambda>t. t) (fst (seq_Next (cmd_seq demo_command) (Ctx 1 Canceled) (sequence (demo_world [] 7)))) ''https://a''
         (link_expiry 400 600) else {}), demo_created)"
    unfolding demo_created_def
    by (rule node_step.create [of "\<lambda>_. 400"]) (simp add: link_expiry_def expiry_ok_def int64_range_def)
  then show ?thesis
    by (simp add: demo_links_def demo_command_def counter_seq_def demo_world_def link_expiry_def)
qed

lemma demo_Retrieve: "fst (Retrieve demo_query (\<lambda>_. 500) ''8'' demo_created) = Ret ''https://a''"
proof -
  have "decodeCacheValue (encodeCacheValue ''https://a'' (Some 1000)) = Some (''https://a'', Some 1000)"
    by (rule decode_encode_ok) (simp add: expiry_ok_def int64_range_def)
  moreover have "length (encodeCacheValue ''https://a'' (Some 1000)) > 0" by (simp add: encodeCacheValue_def)
  ultimately show ?thesis
    by (simp add: demo_created_eq Retrieve_def demo_code fromCache_def on_query_cache_def demo_query_def
        proxy_Get_def map_proxy_def on_local_def on_dist_def localCache_Get_def localCache_Set_def redisCache_Get_def
        map_redis_def map_big_def isExpired_def)
qed

theorem retrieve_only_created_witness:
  "fst (Retrieve demo_query (\<lambda>_. 500) ''8'' demo_created) = Ret ''https://a'' \<and>
   (\<exists>n long' e. Base58Decode ''8'' = Ret n \<and> (n, long', e) \<in> demo_links \<and> long' = ''https://a'' \<and> \<not> isExpired e 500)"
proof -
  have run: "(node_step (\<lambda>t. t) demo_command demo_query)\<^sup>*\<^sup>*
      ({(Short t, LongURL t, ExpiresAt t) | t. t \<in> set (database (demo_world [] 7))}, demo_world [] 7) (demo_links, demo_created)"
    using r_into_rtranclp [of "node_step (\<lambda>t. t) demo_command demo_query", OF demo_step] by (simp add: demo_world_def)
  show ?thesis
    using retrieve_only_created [OF demo.turl_node_axioms _ _ run demo_Retrieve] demo_Retrieve
    by (simp add: demo_world_def)
qed

text \<open>
  C9. What \<open>Create\<close> returns is in the table: when it returns a link, the code it returns is the code of
  the one live row whose long URL is the requested one up to collation, with that row's expiry, and the
  unique indexes still hold. Either the row is new, with the number just drawn and the requested lifetime,
  the last of the table, and one creation is counted; or it was there before, the table is unchanged and
  nothing is counted: \<open>Create\<close> is idempotent.
\<close>

theorem Create_result:
  assumes node: "turl_node c q rows coll colt rh lh" and uniq: "unique_indexes coll (rows (database w))"
    and ret: "Create http_url c clk ctx long ttl w = (Ret m, w')"
  shows "\<exists>t\<in>set (rows (database w')). is_live t \<and> m_ShortURL m = Base58Encode (Short t) \<and> coll (LongURL t) long \<and>
    m_LongURL m = long \<and> unique_indexes coll (rows (database w')) \<and>
    (rows (database w') = rows (database w) @ [t] \<and> stats w' = stats w @ [ShortenCreated] \<and>
       fst (seq_Next (cmd_seq c) ctx (sequence w)) = Ret (Short t) \<and>
       m_ExpiresAt m = (if ttl > 0 then Some (clk 0 + ttl) else None) \<and> ExpiresAt t = map_option colt (m_ExpiresAt m) \<or>
     rows (database w') = rows (database w) \<and> stats w' = stats w \<and> m_ExpiresAt m = ExpiresAt t)"
  by (rule Create_rows [OF assms])

theorem Create_result_witness:
  "\<exists>t\<in>set (database demo_created). is_live t \<and> ''8'' = Base58Encode (Short t) \<and> LongURL t = ''https://a''"
proof -
  have "unique_indexes (=) (database (demo_world [] 7))" by (simp add: demo_world_def unique_indexes_def)
  from Create_result [OF demo.turl_node_axioms this demo_Create] show ?thesis
    by (auto simp: demo_created_eq)
qed

text \<open>What \<open>Retrieve\<close> answers, by what the cache and the table answer.\<close>

lemma Retrieve_hit:
  assumes "Base58Decode k = Ret n" "fst (Get (q_cache q) k (redis w, query_local w)) = Ret v"
    and "decodeCacheValue v = Some (long, e)" "\<not> isExpired e (clk 0)"
  shows "fst (Retrieve q clk k w) = Ret long"
proof -
  obtain s' where "Get (q_cache q) k (redis w, query_local w) = (Ret v, s')" using assms(2) by (metis prod.collapse)
  then show ?thesis using assms(1,3,4) by (cases s') (simp add: Retrieve_def fromCache_def on_query_cache_def)
qed

lemma Retrieve_cache_error:
  assumes "Base58Decode k = Ret n" "fst (Get (q_cache q) k (redis w, query_local w)) = Err err" "\<not> errors_Is err ErrCacheMiss"
  shows "fst (Retrieve q clk k w) = Err err"
proof -
  obtain s' where "Get (q_cache q) k (redis w, query_local w) = (Err err, s')" using assms(2) by (metis prod.collapse)
  then show ?thesis using assms(1,3) by (cases s') (simp add: Retrieve_def fromCache_def on_query_cache_def)
qed

lemma Retrieve_miss:
  assumes "Base58Decode k = Ret n" "fst (Get (q_cache q) k (redis w, query_local w)) = Err err" "errors_Is err ErrCacheMiss"
  shows "fst (GetByShortID (q_db q) n (database w)) = Err e \<Longrightarrow> fst (Retrieve q clk k w) = Err e"
    "fst (GetByShortID (q_db q) n (database w)) = Ret t \<Longrightarrow> \<not> isExpired (ExpiresAt t) (clk 1) \<Longrightarrow>
      (\<And>v s p. fst (Set (q_cache q) k v (cacheTTL (q_ttl q) (ExpiresAt t) (clk 2)) s) \<noteq> Panic p) \<Longrightarrow>
      fst (Retrieve q clk k w) = Ret (LongURL t)"
proof -
  obtain s' where g: "Get (q_cache q) k (redis w, query_local w) = (Err err, s')" using assms(2) by (metis prod.collapse)
  obtain y d where y: "GetByShortID (q_db q) n (database w) = (y, d)" by (metis prod.exhaust)
  show "fst (GetByShortID (q_db q) n (database w)) = Err e \<Longrightarrow> fst (Retrieve q clk k w) = Err e"
    using assms g y by (cases s') (simp add: Retrieve_def fromCache_def on_query_cache_def on_db_def)
  assume t: "fst (GetByShortID (q_db q) n (database w)) = Ret t" "\<not> isExpired (ExpiresAt t) (clk 1)"
    and set: "\<And>v s p. fst (Set (q_cache q) k v (cacheTTL (q_ttl q) (ExpiresAt t) (clk 2)) s) \<noteq> Panic p"
  obtain x s'' where "Set (q_cache q) k (encodeCacheValue (LongURL t) (ExpiresAt t)) (cacheTTL (q_ttl q) (ExpiresAt t) (clk 2)) s' = (x, s'')"
    by (metis prod.exhaust)
  moreover from this have "\<forall>p. x \<noteq> Panic p" using set by (metis fst_conv)
  ultimately show "fst (Retrieve q clk k w) = Ret (LongURL t)"
    using assms g y t by (cases s'; cases s''; cases x) (simp_all add: Retrieve_def fromCache_def on_query_cache_def on_db_def)
qed

text \<open>A link with a live row resolves on a node that keeps the invariant, while no link asked for under its number is late.\<close>

lemma Retrieve_live:
  fixes c :: "('d, 'r, 'l, 's) commandService" and w :: "('d, 'r, 'l, 's) world"
  assumes node: "turl_node c q rows coll colt rh lh" and inv: "turl_node.node_inv rows coll rh lh H w"
    and row: "t \<in> set (rows (database w))" "is_live t" "Short t = n" and code: "Base58Decode k = Ret n"
    and early: "\<And>u e. (n, u, e) \<in> H \<Longrightarrow>
      \<not> isExpired e (clk 0) \<and> \<not> isExpired e (clk 1) \<and> 10 \<le> cacheTTL (q_ttl q) e (clk 2)"
    and calm: "\<And>k s p. fst (Get (q_cache q) k s) \<noteq> Panic p" "\<And>i d p. fst (GetByShortID (q_db q) i d) \<noteq> Panic p"
      "\<And>k v t s p. fst (Set (q_cache q) k v t s) = Panic p \<Longrightarrow> t < 10"
  shows "(\<exists>l. fst (Retrieve q clk k w) = Ret l) \<or>
    (\<exists>err. fst (Retrieve q clk k w) = Err err \<and>
      (fst (Get (q_cache q) k (redis w, query_local w)) = Err err \<and> \<not> errors_Is err ErrCacheMiss \<or>
       fst (GetByShortID (q_db q) n (database w)) = Err err \<and> \<not> errors_Is err ErrRecordNotFound))"
proof -
  let ?g = "fst (Get (q_cache q) k (redis w, query_local w))" and ?y = "fst (GetByShortID (q_db q) n (database w))"
  note store = turl_node.store [OF node] and same = turl_node.same_store [OF node] and inv_def = turl_node.node_inv_def [OF node]
  have hit: "\<exists>l. fst (Retrieve q clk k w) = Ret l" if "?g = Ret v" for v
  proof -
    have "turl_node.held rh lh w k v" using turl_node.held_query_answer [OF node, of k w v] that by simp
    then have "turl_node.good coll H k v" using inv by (simp add: inv_def)
    then obtain u l e where v: "v = encodeCacheValue l e" "(n, u, e) \<in> H" using code unfolding turl_node.good_def [OF node] by auto
    then have "decodeCacheValue v = Some (l, e)" using inv by (auto simp: inv_def intro: decode_encode_ok)
    then show ?thesis using Retrieve_hit [OF code that] early [OF v(2)] by blast
  qed
  have found: "\<exists>l. fst (Retrieve q clk k w) = Ret l" if "?g = Err err" "errors_Is err ErrCacheMiss" "?y = Ret u" for err u
  proof -
    have "(n, LongURL u, ExpiresAt u) \<in> H"
      using link_store.short_ok [OF store, of n "database w" u] that(3) same inv by (auto simp: inv_def)
    from early [OF this] show ?thesis using Retrieve_miss(2) [OF code that, of clk] calm(3) by (meson linorder_not_less)
  qed
  have lost: "\<not> errors_Is e ErrRecordNotFound" if "?y = Err e" for e
    using link_store.short_none [OF store, of n "database w" e t] row that same by auto
  show ?thesis
  proof (cases ?g)
    case g: (Err err)
    show ?thesis
    proof (cases "errors_Is err ErrCacheMiss")
      case True
      then show ?thesis using g found lost Retrieve_miss(1) [OF code g True, of _ clk] calm(2) [of n "database w"] by (cases ?y) auto
    qed (use g Retrieve_cache_error [OF code g, of clk] in auto)
  qed (use hit calm(1) in auto)
qed

text \<open>When no cache held the code before, all that may be held after \<open>Create\<close> is the value it wrote.\<close>

lemma Create_held:
  assumes node: "turl_node c q rows coll colt rh lh" and ret: "Create http_url c clk ctx long ttl w = (Ret m, w')"
    and new: "\<And>v. \<not> rh (redis w) (m_ShortURL m) v \<and> \<not> lh (write_local w) (m_ShortURL m) v \<and> \<not> lh (query_local w) (m_ShortURL m) v"
    and "rh (redis w') (m_ShortURL m) v \<or> lh (query_local w') (m_ShortURL m) v"
  shows "v = encodeCacheValue long (m_ExpiresAt m)"
proof -
  let ?k = "m_ShortURL m" and ?v = "encodeCacheValue long (m_ExpiresAt m)"
  obtain w2 x where w2: "redis w2 = redis w" "write_local w2 = write_local w" "query_local w2 = query_local w"
      "w' = snd (on_write_cache (Set (cmd_cache c) ?k ?v x) w2)"
    using Create_cached [OF ret] by metis
  have "turl_node.held rh lh w' ?k v" using assms(4) by (auto simp: turl_node.held_def [OF node])
  then show ?thesis
    using turl_node.held_write_set [OF node, of ?k ?v x w2 ?k v] w2 new by (auto simp: turl_node.held_def [OF node])
qed

lemma Retrieve_created:
  assumes node: "turl_node c q rows coll colt rh lh" and uniq: "unique_indexes coll (rows (database w))"
    and ret: "Create http_url c clk ctx long ttl w = (Ret m, w')"
    and new: "\<And>v. \<not> rh (redis w) (m_ShortURL m) v \<and> \<not> lh (write_local w) (m_ShortURL m) v \<and> \<not> lh (query_local w) (m_ShortURL m) v"
    and code: "Base58Decode (m_ShortURL m) = Ret n" and ok: "expiry_ok (m_ExpiresAt m)"
    and early: "\<And>e. e = m_ExpiresAt m \<or> e = map_option colt (m_ExpiresAt m) \<Longrightarrow>
      \<not> isExpired e (clk' 0) \<and> \<not> isExpired e (clk' 1) \<and> 10 \<le> cacheTTL (q_ttl q) e (clk' 2)"
    and calm: "\<And>k s p. fst (Get (q_cache q) k s) \<noteq> Panic p" "\<And>i d p. fst (GetByShortID (q_db q) i d) \<noteq> Panic p"
      "\<And>k v t s p. fst (Set (q_cache q) k v t s) = Panic p \<Longrightarrow> t < 10"
  shows "(\<exists>l. fst (Retrieve q clk' (m_ShortURL m) w') = Ret l \<and> coll l long) \<or>
    (\<exists>err. fst (Retrieve q clk' (m_ShortURL m) w') = Err err \<and>
      (fst (Get (q_cache q) (m_ShortURL m) (redis w', query_local w')) = Err err \<and> \<not> errors_Is err ErrCacheMiss \<or>
       fst (GetByShortID (q_db q) n (database w')) = Err err \<and> \<not> errors_Is err ErrRecordNotFound))"
proof -
  let ?k = "m_ShortURL m" and ?v = "encodeCacheValue long (m_ExpiresAt m)"
  let ?g = "fst (Get (q_cache q) (m_ShortURL m) (redis w', query_local w'))" and ?y = "fst (GetByShortID (q_db q) n (database w'))"
  note store = turl_node.store [OF node] and same = turl_node.same_store [OF node]
  obtain t where t: "t \<in> set (rows (database w'))" "is_live t" "?k = Base58Encode (Short t)" "coll (LongURL t) long"
      "unique_indexes coll (rows (database w'))" "ExpiresAt t = m_ExpiresAt m \<or> ExpiresAt t = map_option colt (m_ExpiresAt m)"
    using Create_rows [OF node uniq ret] by auto
  have n: "Short t = n" using Base58_key [of "Short t" n] code t(3) by simp
  have hit: "fst (Retrieve q clk' ?k w') = Ret long" if "?g = Ret v" for v
  proof -
    have "v = ?v"
      using Create_held [OF node ret new, of v] cache_layer.get_sound [OF turl_node.query_cache [OF node] that] by simp
    then show ?thesis
      using Retrieve_hit [OF code that] early [of "m_ExpiresAt m"] by (simp add: decode_encode_ok [OF ok])
  qed
  have row: "fst (Retrieve q clk' ?k w') = Ret (LongURL t)" if "?g = Err err" "errors_Is err ErrCacheMiss" "?y = Ret u" for err u
  proof -
    have "u = t"
      using unique_eq [OF link_store.coll_eq [OF store] t(5) _ t(1), of u] n that(3) same
        link_store.short_ok [OF store, of n "database w'" u] by (simp add: conflict_def)
    then show ?thesis
      using Retrieve_miss(2) [OF code that(1,2), of t clk'] that(3) early [of "ExpiresAt t"] t(6) calm(3) by (meson linorder_not_less)
  qed
  have lost: "\<not> errors_Is e ErrRecordNotFound" if "?y = Err e" for e
    using link_store.short_none [OF store, of n "database w'" e t] t n that same by auto
  show ?thesis
  proof (cases ?g)
    case (Ret v)
    then show ?thesis using hit turl_node.coll_refl [OF node] by blast
  next
    case g: (Err err)
    show ?thesis
    proof (cases "errors_Is err ErrCacheMiss")
      case True
      then show ?thesis using g row lost t(4) Retrieve_miss(1) [OF code g True, of _ clk'] calm(2) [of n "database w'"]
        by (cases ?y) auto
    qed (use g Retrieve_cache_error [OF code g, of clk'] in auto)
  qed (use calm(1) in simp)
qed


lemma demo_calm:
  "fst (Get (q_cache demo_query) k s) \<noteq> Panic p"
  "fst (GetByShortID (q_db demo_query) i d) \<noteq> Panic p"
  "fst (Set (q_cache demo_query) k v t s) = Panic p \<Longrightarrow> t < 10"
proof -
  show "fst (Get (q_cache demo_query) k s) \<noteq> Panic p"
    by (simp add: demo_query_def proxy_Get_def map_proxy_def on_local_def on_dist_def localCache_Get_def
        localCache_Set_def redisCache_Get_def map_redis_def map_big_def split: prod.split option.split)
  show "fst (GetByShortID (q_db demo_query) i d) \<noteq> Panic p" by (simp add: demo_query_def)
  show "fst (Set (q_cache demo_query) k v t s) = Panic p \<Longrightarrow> t < 10"
    using tdiv_10_pos [of t]
    by (cases s) (auto simp: demo_query_def proxy_Set_def map_proxy_def on_local_def on_dist_def localCache_Set_def
        redisCache_Set_def map_redis_def map_big_def Let_def split: if_splits)
qed


text \<open>
  C11. Deletion reaches the table, redis and the cache of the command service: after a \<open>Delete\<close> that
  succeeded, \<open>Retrieve\<close> of that code returns no URL, provided the local cache of the query service
  does not hold the code.
\<close>

theorem delete_then_retrieve:
  assumes node: "turl_node c q rows coll colt rh lh" and uniq: "unique_indexes coll (rows (database w))"
    and del: "Delete_link c short w = (Ret (), w')"
    and cold: "\<And>v. \<not> lh (query_local w) short v"
  shows "fst (Retrieve q clk short w') \<noteq> Ret long"
  using del
proof (cases rule: Delete_Ret)
  case (1 n d1)
  note store = turl_node.store [OF node] and same = turl_node.same_store [OF node]
  let ?s = "(redis w', query_local w')"
  have w': "database w' = d1" "query_local w' = query_local w"
    "(redis w', write_local w') = snd (Del (cmd_cache c) short (redis w, write_local w))"
    using 1(3) by (auto simp: on_write_cache_def split: prod.splits)
  have "\<not> rh (redis w') short v" for v
    using cache_layer.del_gone [OF turl_node.write_cache [OF node], of short "(redis w, write_local w)" "()" v] 1(3) w'(3)
    by (auto simp: on_write_cache_def split: prod.splits)
  then have get: "\<forall>v. fst (Get (q_cache q) short ?s) \<noteq> Ret v"
    using cache_layer.get_sound [OF turl_node.query_cache [OF node], of short ?s] cold w'(2) by auto
  have look: "\<forall>t. fst (GetByShortID (q_db q) n d1) \<noteq> Ret t"
    using link_store.remove_lookup(1) [OF store uniq, of n "()"] 1(2) same by simp
  have "\<forall>l. fst (fromCache q (clk 0) short w') \<noteq> Ret (Some l)"
    using get by (auto simp: fromCache_def on_query_cache_def split: prod.splits outcome.splits option.splits if_splits)
  moreover have "database (snd (fromCache q (clk 0) short w')) = d1"
    using turl_node.fromCache_state [OF node, of "clk 0" short w'] w'(1) by simp
  ultimately show ?thesis
    using 1(1) look
    by (auto simp: Retrieve_def on_db_def split: prod.splits outcome.splits option.splits if_splits)
qed

lemma demo_Delete:
  "\<exists>w'. Delete_link demo_command ''8'' demo_created = (Ret (), w') \<and> query_local w' = Map.empty"
  by (simp add: Delete_link_def demo_code demo_created_eq demo_command_def on_db_def on_write_cache_def storage_Delete_def
      list_db_def proxy_Del_def map_proxy_def on_dist_def on_local_def redisCache_Del_def localCache_Del_def
      map_redis_def map_big_def zero_TinyURL_def)

theorem delete_then_retrieve_witness:
  "\<exists>w'. Delete_link demo_command ''8'' demo_created = (Ret (), w') \<and>
    (\<forall>long. fst (Retrieve demo_query (\<lambda>_. 500) ''8'' w') \<noteq> Ret long)"
proof -
  obtain w' where w': "Delete_link demo_command ''8'' demo_created = (Ret (), w')" using demo_Delete by blast
  have "unique_indexes (=) (database demo_created)" by (simp add: demo_created_eq unique_indexes_def)
  from delete_then_retrieve [OF demo.turl_node_axioms this w'] show ?thesis
    using w' by (auto simp: demo_created_eq)
qed

text \<open>
  C22. Deletion does not reach the local cache of the query service: when that cache holds an unexpired
  value for a code, \<open>Retrieve\<close> answers it after any \<open>Delete\<close> of the code, successful or not, and
  leaves the table and redis untouched.
\<close>

theorem delete_stale_local:
  assumes hit: "Get (localCacheOf p) short (query_local w) = (Ret v, l')" and q: "q_cache q = proxy_iface p"
    and v: "decodeCacheValue v = Some (long, e)" "\<not> isExpired e (clk 0)" and code: "Base58Decode short = Ret n"
  shows "Retrieve q clk short (snd (Delete_link c short w)) =
    (Ret long, (snd (Delete_link c short w))\<lparr>query_local := l'\<rparr>)"
proof -
  let ?w = "snd (Delete_link c short w)"
  have "query_local ?w = query_local w"
    by (simp add: Delete_link_def code on_db_def on_write_cache_def split: prod.split outcome.split)
  then have "on_query_cache (Get (q_cache q) short) ?w = (Ret v, ?w\<lparr>query_local := l'\<rparr>)"
    using hit q by (simp add: on_query_cache_def proxy_Get_def on_local_def)
  then show ?thesis using v code by (simp add: Retrieve_def fromCache_def)
qed

theorem delete_stale_local_witness:
  "fst (Retrieve demo_query (\<lambda>_. 500) ''8''
     (snd (Delete_link demo_command ''8'' (snd (Retrieve demo_query (\<lambda>_. 500) ''8'' demo_created))))) = Ret ''https://a''"
proof -
  let ?v = "encodeCacheValue ''https://a'' (Some 1000)"
  have dec: "decodeCacheValue ?v = Some (''https://a'', Some 1000)"
    by (rule decode_encode_ok) (simp add: expiry_ok_def int64_range_def)
  have pos: "?v \<noteq> []" by (simp add: encodeCacheValue_def PutUint64_def)
  have "query_local (snd (Retrieve demo_query (\<lambda>_. 500) ''8'' demo_created)) = [''8'' \<mapsto> ?v]"
    using dec pos
    by (simp add: demo_created_eq Retrieve_def demo_code fromCache_def on_query_cache_def demo_query_def
        proxy_Get_def map_proxy_def on_local_def on_dist_def localCache_Get_def localCache_Set_def redisCache_Get_def
        map_redis_def map_big_def isExpired_def)
  then have hit: "Get (localCacheOf map_proxy) ''8'' (query_local (snd (Retrieve demo_query (\<lambda>_. 500) ''8'' demo_created))) =
      (Ret ?v, [''8'' \<mapsto> ?v])"
    by (simp add: map_proxy_def localCache_Get_def map_big_def)
  show ?thesis
    using delete_stale_local [OF hit, of demo_query, OF _ dec _ demo_code, of "\<lambda>_. 500" demo_command]
    by (simp add: demo_query_def isExpired_def)
qed

text \<open>
  C23. A deleted URL cannot be shortened again: after a \<open>Delete\<close> that succeeded, \<open>Create\<close> of the long URL
  of that row returns no link, for any validator, context, lifetime and clock, since the deleted row still
  holds the unique index and the lookup of the duplicate does not see it.
\<close>

theorem create_after_delete:
  assumes node: "turl_node c q rows coll colt rh lh" and uniq: "unique_indexes coll (rows (database w))"
    and del: "Delete_link c short w = (Ret (), w')"
    and row: "r \<in> set (rows (database w))" "Base58Decode short = Ret (Short r)"
  shows "fst (Create http_url c clk ctx (LongURL r) ttl w') \<noteq> Ret m"
proof
  note store = turl_node.store [OF node]
  assume "fst (Create http_url c clk ctx (LongURL r) ttl w') = Ret m"
  then obtain w'' where create: "Create http_url c clk ctx (LongURL r) ttl w' = (Ret m, w'')" by (metis prod.collapse)
  from del obtain d1 where d1: "Delete (cmd_db c) (Short r) (database w) = (Ret (), d1)" "database w' = d1"
    by (cases rule: Delete_Ret) (use row(2) in \<open>auto simp: on_write_cache_def split: prod.splits\<close>)
  have gone: "fst (Insert (cmd_db c) n (LongURL r) e d1) \<noteq> Ret t" "fst (GetByLongURL (cmd_db c) (LongURL r) d1) \<noteq> Ret t" for n e t
    using link_store.remove_lookup(2) [OF store uniq, of "Short r" "()" r t n e] d1 row(1) by simp_all
  from create show False
  proof (cases rule: Create_Ret)
    case (fresh n s1 t d2)
    then show False using gone(1) [of n "link_expiry (clk 0) ttl" t] d1 by simp
  next
    case (again n s1 err d2 t d3)
    have "rows d2 = rows d1"
      using link_store.insert_dup [OF store, of n "LongURL r" "link_expiry (clk 0) ttl" d1 err] again d1 by simp
    moreover have "t \<in> set (rows d2)" "is_live t" "coll (LongURL t) (LongURL r)"
      using link_store.long_ok [OF store, of "LongURL r" d2 t] again by simp_all
    moreover obtain r' where "r' \<in> set (rows d1)" "\<not> is_live r'" "LongURL r' = LongURL r"
      using link_store.remove_tombstone [OF store uniq, of "Short r" "()" r] d1 row(1) by auto
    moreover have "unique_indexes coll (rows d1)"
      using link_store.unique_remove [OF store uniq, of "Short r"] d1 by simp
    ultimately show False
      using unique_eq [OF link_store.coll_eq [OF store], of "rows d1" t r'] by (auto simp: conflict_def)
  qed
qed

theorem create_after_delete_witness:
  "\<exists>w'. Delete_link demo_command ''8'' demo_created = (Ret (), w') \<and>
    (\<forall>m. fst (Create (\<lambda>_. None) demo_command (\<lambda>_. 600) (Ctx 1 Canceled) ''https://a'' 0 w') \<noteq> Ret m)"
proof -
  obtain w' where w': "Delete_link demo_command ''8'' demo_created = (Ret (), w')" using demo_Delete by blast
  let ?r = "zero_TinyURL\<lparr>Short := 7, LongURL := ''https://a'', ExpiresAt := Some 1000\<rparr>"
  have "unique_indexes (=) (database demo_created)" "?r \<in> set (database demo_created)" "Base58Decode ''8'' = Ret (Short ?r)"
    by (simp_all add: demo_created_eq unique_indexes_def demo_code)
  from create_after_delete [OF demo.turl_node_axioms this(1) w' this(2,3)] show ?thesis using w' by auto
qed

text \<open>
  C24. Shortening an expired URL again panics: when the number drawn or the URL is a duplicate and the
  live row found for the URL has expired but was not reaped yet, the lifetime handed to the redis layer is
  not positive, \<open>rand.IntN\<close> panics, and \<open>Create\<close> with it, whatever redis would have answered.
\<close>

theorem create_expired_duplicate_panics:
  assumes valid: "http_url long = None" and drawn: "seq_Next (cmd_seq c) ctx (sequence w) = (Ret n, s')"
    and dup: "Insert (cmd_db c) n long (link_expiry (clk 0) ttl) (database w) = (Err err, d')" "errors_Is err ErrDuplicatedKey"
    and found: "GetByLongURL (cmd_db c) long d' = (Ret t, d'')" and expired: "isExpired (ExpiresAt t) (clk 1)"
    and cache: "cmd_cache c = proxy_iface p" "distributedCache p = metricsCache layer (redisCache rdb intN)"
    and ttl: "0 < cmd_ttl c" "cmd_ttl c < 2 ^ 63"
  shows "\<exists>m. fst (Create http_url c clk ctx long ttl w) = Panic m"
proof -
  have "cacheTTL (cmd_ttl c) (ExpiresAt t) (clk 1) \<le> 0"
    using expired ttl by (auto simp: cacheTTL_def isExpired_def Until_def Let_def split: option.splits)
  then have "tdiv (cacheTTL (cmd_ttl c) (ExpiresAt t) (clk 1)) 10 \<le> 0" by (simp add: tdiv_10_pos)
  then have "\<exists>m. fst (Create_finish c (clk 1) long (Short t) t (w\<lparr>sequence := s', database := d''\<rparr>)) = Panic m"
    by (simp add: Create_finish_def Let_def cache on_write_cache_def proxy_Set_def on_dist_def promoted_def redisCache_Set_def
        split: prod.split)
  then show ?thesis
    using valid drawn dup found by (simp add: Create_def on_seq_def on_db_def Let_def link_expiry_def)
qed

definition counted_proxy :: "((string \<rightharpoonup> bytes) \<times> metric list, (string \<rightharpoonup> bytes) \<times> metric list) proxy" where
  "counted_proxy = \<lparr>distributedCache = metricsCache CacheLayerDistributed (redisCache map_redis half),
     localCacheOf = metricsCache CacheLayerLocal (localCache map_big),
     localCacheTTL = 600 * Second, remoteCacheTTL = 1800 * Second\<rparr>"

theorem create_expired_duplicate_panics_witness:
  "\<exists>m. fst (Create (\<lambda>_. None)
      \<lparr>cmd_ttl = 1800 * Second, cmd_db = newStorage list_db, cmd_cache = proxy_iface counted_proxy, cmd_seq = counter_seq\<rparr>
      (\<lambda>_. 200) (Ctx 1 Canceled) ''https://a'' 0
      \<lparr>database = [row1], redis = (Map.empty, []), write_local = (Map.empty, []), query_local = (Map.empty, []),
       sequence = 9, stats = [], janitor_closed = False\<rparr>) = Panic m"
  by (rule create_expired_duplicate_panics [where n = 9 and t = row1 and err = ErrDuplicatedKey and p = counted_proxy and
        d' = "[row1]" and d'' = "[row1]" and layer = CacheLayerDistributed and rdb = map_redis and intN = half])
    (simp_all add: counter_seq_def storage_Insert_def storage_GetByLongURL_def list_db_def conflict_def Let_def
      isExpired_def counted_proxy_def Second_def link_expiry_def)

text \<open>
  C17. The janitor reaps expired links and nothing else: after any sequence of ticks the table is the old one
  with some rows left out, every row left out had expired before one of the ticks, and nothing that comes
  after the stop signal changes anything.
\<close>

theorem janitor_reaps:
  assumes node: "turl_node c q rows coll colt rh lh"
  shows "subseq (rows (database (runJanitor c es w))) (rows (database w)) \<and>
    (\<forall>t\<in>set (rows (database w)) - set (rows (database (runJanitor c es w))). \<exists>now. Tick now \<in> set es \<and> expired_at now t) \<and>
    runJanitor c (JanitorStop # es') (runJanitor c es w) = runJanitor c es w"
proof -
  have "subseq (rows (database (runJanitor c es w))) (rows (database w)) \<and>
    (\<forall>t\<in>set (rows (database w)) - set (rows (database (runJanitor c es w))). \<exists>now. Tick now \<in> set es \<and> expired_at now t)"
  proof (induction es arbitrary: w)
    case (Cons x es)
    show ?case
    proof (cases x)
      case (Tick now)
      let ?w = "janitor_tick c now w"
      note tick = turl_node.janitor_tick_reap [OF node, of now w]
      have "subseq (rows (database (runJanitor c es ?w))) (rows (database w))"
        using Cons.IH [of ?w] tick subseq_order.order_trans by blast
      then show ?thesis using Cons.IH [of ?w] tick Tick by auto
    qed simp
  qed simp
  then show ?thesis by simp
qed

theorem janitor_reaps_witness:
  "subseq (database (runJanitor demo_command [Tick 50, Tick 200] (demo_world [row1, row2] 9))) [row1, row2] \<and>
   row2 \<in> set (database (runJanitor demo_command [Tick 50, Tick 200] (demo_world [row1, row2] 9)))"
proof -
  have w: "database (demo_world [row1, row2] 9) = [row1, row2]" by (simp add: demo_world_def)
  have "\<not> expired_at now row2" for now by (simp add: expired_at_def)
  then show ?thesis
    using janitor_reaps [OF demo.turl_node_axioms, of "[Tick 50, Tick 200]" "demo_world [row1, row2] 9" "[]"]
    unfolding w by auto
qed

text \<open>What \<open>newService\<close> returns: both parts over the same table and over proxies made alike.\<close>

lemma newService_Ret:
  assumes "newService env cfg = Some (Ret (s, w))"
  obtains cc rc p l where "Cache cfg = Some cc" "cache_Redis cc = Some rc"
    "newProxy (redis_Client env) (rand_IntN env) (bigcache_New env) cc = Ret (p, l)"
    "queryPart s = Some \<lparr>q_ttl = redis_TTL rc, q_db = newStorage (link_table env), q_cache = proxy_iface p\<rparr>"
    "commandPart s = (if Readonly cfg then None else Some \<lparr>cmd_ttl = redis_TTL rc, cmd_db = newStorage (link_table env),
       cmd_cache = proxy_iface p, cmd_seq = tddlSequence_iface (seq_table env) (conv_oor env)\<rparr>)"
    "stats w = []" "\<not> janitor_closed w"
proof -
  let ?proxy = "newProxy (redis_Client env) (rand_IntN env) (bigcache_New env)"
  obtain cc rc d0 t0 p l where q: "?proxy cc = Ret (p, l)" "Cache cfg = Some cc" "cache_Redis cc = Some rc"
      "getDB env cfg = Inr (d0, t0)"
    using assms by (auto simp: newService_def Let_def split: sum.splits prod.splits option.splits outcome.splits)
  then show ?thesis
    using assms
    by (intro that [of cc rc p l]) (auto simp: newService_def Let_def split: prod.splits option.splits outcome.splits if_splits)
qed

text \<open>
  What \<open>newService\<close> builds, over a table, a redis server and a bigcache that keep their contracts: the command part of one service and the
  query part of the same or of another service on the same table satisfy the contract of a node.
\<close>

lemma newService_pair:
  assumes new: "newService env cfg = Some (Ret (s, w))" "newService env' cfg' = Some (Ret (s', w'))"
    and parts: "commandPart s = Some c" "queryPart s' = Some q" "link_table env' = link_table env"
    and table: "tiny_urls_table (link_table env) rows coll colt"
    and redis: "\<And>rc. redis_server (redis_Client env rc) stored (rand_IntN env)" "\<And>rc. redis_server (redis_Client env' rc) stored (rand_IntN env')"
    and big: "\<And>bc b l. bigcache_New env bc = Inr (b, l) \<Longrightarrow> local_store b entries"
      "\<And>bc b l. bigcache_New env' bc = Inr (b, l) \<Longrightarrow> local_store b entries"
    and colt: "\<And>e. expiry_ok e \<Longrightarrow> expiry_ok (map_option colt e)"
  shows "turl_node c q rows coll colt (\<lambda>r k v. stored (fst r) k = Some v) (\<lambda>l k v. entries (fst l) k = Some v)"
proof -
  obtain cc p l where p: "newProxy (redis_Client env) (rand_IntN env) (bigcache_New env) cc = Ret (p, l)"
    "cmd_db c = newStorage (link_table env)" "cmd_cache c = proxy_iface p"
    using new(1) by (rule newService_Ret) (use parts(1) in \<open>auto split: if_splits\<close>)
  obtain cc' p' l' where p': "newProxy (redis_Client env') (rand_IntN env') (bigcache_New env') cc' = Ret (p', l')"
    "q_db q = newStorage (link_table env)" "q_cache q = proxy_iface p'"
    using new(2) by (rule newService_Ret) (use parts(2,3) in auto)
  show ?thesis
  proof (rule turl_node.intro)
    show "link_store (cmd_db c) rows coll colt" using tiny_urls_table.store_contract [OF table] p(2) by simp
  qed (use newProxy_layer [OF p(1) redis(1) big(1)] newProxy_layer [OF p'(1) redis(2) big(2)] p(2,3) p'(2,3) colt in auto)
qed

text \<open>The parts a service has, and what is fresh.\<close>

lemma newService_parts:
  assumes "newService env cfg = Some (Ret (s, w))"
  shows "queryPart s \<noteq> None" "commandPart s = None \<longleftrightarrow> Readonly cfg" "stats w = []" "\<not> janitor_closed w"
    "commandPart s = Some c \<Longrightarrow> cmd_seq c = tddlSequence_iface (seq_table env) (conv_oor env)"
  using assms by (rule newService_Ret, auto split: if_splits)+

text \<open>A node of its own: both parts of one service.\<close>

lemma newService_node:
  assumes new: "newService env cfg = Some (Ret (s, w))"
    and table: "tiny_urls_table (link_table env) rows coll colt"
    and redis: "\<And>rc. redis_server (redis_Client env rc) stored (rand_IntN env)"
    and big: "\<And>bc b l. bigcache_New env bc = Inr (b, l) \<Longrightarrow> local_store b entries"
    and colt: "\<And>e. expiry_ok e \<Longrightarrow> expiry_ok (map_option colt e)"
  shows "\<exists>q. queryPart s = Some q \<and> (commandPart s = None \<longleftrightarrow> Readonly cfg) \<and> stats w = [] \<and> \<not> janitor_closed w \<and>
    (\<forall>c. commandPart s = Some c \<longrightarrow>
      turl_node c q rows coll colt (\<lambda>r k v. stored (fst r) k = Some v) (\<lambda>l k v. entries (fst l) k = Some v))"
  using newService_pair [OF new new _ _ refl table redis redis big big colt] newService_parts [OF new] by fastforce

definition demo_env :: "(TinyURL list, string \<rightharpoonup> bytes, string \<rightharpoonup> bytes, (uint64 \<times> int) option) deps" where
  "demo_env = \<lparr>mysql_New = (\<lambda>_. Inr ([row2], None)), link_table = list_db, seq_table = row_db,
     AutoMigrate = (\<lambda>(d, t). (None, d, t)), redis_Client = (\<lambda>_. map_redis), redis_state = Map.empty, rand_IntN = half,
     bigcache_New = (\<lambda>_. Inr (map_big, Map.empty)), uuid_NewString = ''uuid'', conv_oor = 0\<rparr>"

lemma demo_newService:
  assumes "Cache cfg = Some example_cache_config" "TDDL cfg = Some \<lparr>tddl_Step = 1000, tddl_SeqName = ''tiny_url'', tddl_StartNum = 10000\<rparr>"
  shows "\<exists>s w. newService demo_env cfg = Some (Ret (s, w)) \<and> (Readonly cfg \<or> (\<exists>v. pc (fst (sequence w)) = Offering v))"
proof -
  have "\<exists>cl t. tddl_New row_db 0 ''uuid'' \<lparr>tddl_Step = 1000, tddl_SeqName = ''tiny_url'', tddl_StartNum = 10000\<rparr> None = Some (Ret cl, t) \<and>
      (\<exists>v. pc cl = Offering v)"
    by (simp add: tddl_New_def newSequence_def getRowID_def createRecord_def row_db_def row_cell_def zero_Sequence_def
        row_struct_def renew_def renew_from.simps renew_return_def Let_def)
  then obtain cl t v where cl: "tddl_New row_db 0 ''uuid'' \<lparr>tddl_Step = 1000, tddl_SeqName = ''tiny_url'', tddl_StartNum = 10000\<rparr> None =
      Some (Ret cl, t)" "pc cl = Offering v" by blast
  then show ?thesis
    using assms
    by (auto simp: newService_def getDB_def demo_env_def example_cache_config_def newProxy_def newLocalCache_def Let_def list_db_def)
qed

end
