(* ===== verification/Cluster.thy ===== *)
theory Cluster
  imports Service
begin

text \<open>
  Several nodes on one database, one redis server and one table of sequences, as turl is deployed: every
  node built by \<open>newService\<close> (\<open>app/turl/service.go\<close>) has local caches and a sequence client of its own and
  shares the rest. A read-only node has a query service only. The steps of the nodes interleave in any way:
  calls of their services, ticks of their janitors, steps of the workers of their sequence clients, nodes that
  join and nodes that are told to stop.

  The first part shows that every step of the cluster is the step of an abstract map from numbers to links that has the same label; the
  second that the numbers, and so the codes, are never used for two URLs. The calls are whole here; \<open>Requests\<close> lets them interleave. The
  last part is that the services \<open>newService\<close> builds form a cluster.
\<close>

section \<open>The state of a cluster\<close>

record 'l node =
  node_write :: 'l
  node_query :: 'l
  node_client :: client
  node_stats :: "metric list"
  node_closed :: bool

record ('d, 'r, 'l, 'q) cluster =
  shared_database :: 'd
  shared_redis :: 'r
  shared_sequence :: 'q
  nodes :: "'l node list"
  readers :: "('l \<times> metric list) list"

text \<open>The world as a node sees it, and the cluster after the node left its world so.\<close>

definition node_world :: "('d, 'r, 'l, 'q) cluster \<Rightarrow> nat \<Rightarrow> ('d, 'r, 'l, client \<times> 'q) world" where
  "node_world C i =
     (let n = nodes C ! i in
      \<lparr>database = shared_database C, redis = shared_redis C, write_local = node_write n, query_local = node_query n,
       sequence = (node_client n, shared_sequence C), stats = node_stats n, janitor_closed = node_closed n\<rparr>)"

definition put_world ::
  "nat \<Rightarrow> ('d, 'r, 'l, client \<times> 'q) world \<Rightarrow> ('d, 'r, 'l, 'q) cluster \<Rightarrow> ('d, 'r, 'l, 'q) cluster" where
  "put_world i w C =
     C\<lparr>shared_database := database w, shared_redis := redis w, shared_sequence := snd (sequence w),
       nodes := (nodes C)[i := \<lparr>node_write = write_local w, node_query = query_local w, node_client = fst (sequence w),
                                node_stats = stats w, node_closed = janitor_closed w\<rparr>]\<rparr>"

definition reader_world :: "('d, 'r, 'l, 'q) cluster \<Rightarrow> nat \<Rightarrow> ('d, 'r, 'l, client \<times> 'q) world" where
  "reader_world C j =
     (let (l, m) = readers C ! j in
      \<lparr>database = shared_database C, redis = shared_redis C, write_local = l, query_local = l,
       sequence = (no_client, shared_sequence C), stats = m, janitor_closed = False\<rparr>)"

definition put_reader ::
  "nat \<Rightarrow> ('d, 'r, 'l, client \<times> 'q) world \<Rightarrow> ('d, 'r, 'l, 'q) cluster \<Rightarrow> ('d, 'r, 'l, 'q) cluster" where
  "put_reader j w C =
     C\<lparr>shared_database := database w, shared_redis := redis w, readers := (readers C)[j := (query_local w, stats w)]\<rparr>"

text \<open>The calls of a query service.\<close>

inductive query_step ::
  "('d, 'r, 'l) queryService \<Rightarrow> ('d, 'r, 'l, 's) world \<Rightarrow> ('d, 'r, 'l, 's) world \<Rightarrow> bool"
  for q where
  retrieve: "query_step q w (snd (Retrieve q clk short w))"
| getByLong: "query_step q w (snd (GetByLong http_url q long w))"
| query_health: "query_step q w (snd (query_checkHealth q w))"

text \<open>
  A step of the cluster, with the set of the links asked for so far. A node that joins has empty local caches
  and makes its first lease by steps of its worker; it answers calls once that lease is made.
\<close>

inductive cluster_step ::
  "(time \<Rightarrow> time) \<Rightarrow> ('l \<Rightarrow> string \<Rightarrow> bytes \<Rightarrow> bool) \<Rightarrow> 'q seq_db \<Rightarrow> int \<Rightarrow> nat \<Rightarrow>
   (nat \<Rightarrow> ('d, 'r, 'l, client \<times> 'q) commandService) \<Rightarrow> (nat \<Rightarrow> ('d, 'r, 'l) queryService) \<Rightarrow> (nat \<Rightarrow> ('d, 'r, 'l) queryService) \<Rightarrow>
   links \<times> ('d, 'r, 'l, 'q) cluster \<Rightarrow> links \<times> ('d, 'r, 'l, 'q) cluster \<Rightarrow> bool"
  for colt lh db oor row cs qs rs where
  join: "newSequence db uuid cfg (shared_sequence C) = (Ret cl, d') \<Longrightarrow> rowID (self cl) = row \<Longrightarrow> tddl_Step cfg \<le> 2 ^ 63 \<Longrightarrow>
    (\<forall>k v. \<not> lh wl k v \<and> \<not> lh ql k v) \<Longrightarrow>
    cluster_step colt lh db oor row cs qs rs (H, C)
      (H, C\<lparr>shared_sequence := d', nodes := nodes C @ [\<lparr>node_write = wl, node_query = ql, node_client = cl, node_stats = [],
        node_closed = False\<rparr>]\<rparr>)"
| join_readonly: "(\<forall>k v. \<not> lh ql k v) \<Longrightarrow>
    cluster_step colt lh db oor row cs qs rs (H, C) (H, C\<lparr>readers := readers C @ [(ql, [])]\<rparr>)"
| call: "i < length (nodes C) \<Longrightarrow> (\<And>r. pc (node_client (nodes C ! i)) \<noteq> Starting r) \<Longrightarrow>
    node_step colt (cs i) (qs i) (H, node_world C i) (H', w) \<Longrightarrow>
    cluster_step colt lh db oor row cs qs rs (H, C) (H', put_world i w C)"
| read: "j < length (readers C) \<Longrightarrow> query_step (rs j) (reader_world C j) w \<Longrightarrow>
    cluster_step colt lh db oor row cs qs rs (H, C) (H, put_reader j w C)"
| worker: "i < length (nodes C) \<Longrightarrow> internal_step db oor (node_client (nodes C ! i)) (shared_sequence C) = (cl, d') \<Longrightarrow>
    cluster_step colt lh db oor row cs qs rs (H, C)
      (H, C\<lparr>shared_sequence := d', nodes := (nodes C)[i := (nodes C ! i)\<lparr>node_client := cl\<rparr>]\<rparr>)"
| stop: "i < length (nodes C) \<Longrightarrow> (\<And>r. pc (node_client (nodes C ! i)) \<noteq> Starting r) \<Longrightarrow>
    cluster_step colt lh db oor row cs qs rs (H, C)
      (H, C\<lparr>nodes := (nodes C)[i := (nodes C ! i)\<lparr>node_client := Close_signal (node_client (nodes C ! i)), node_closed := True\<rparr>]\<rparr>)"

lemma query_step_node: "query_step q w w' \<Longrightarrow> node_step colt c q (H, w) (H, w')"
  by (induction rule: query_step.induct) (auto intro: node_step.intros)

lemma cluster_views [simp]:
  "database (node_world C i) = shared_database C" "redis (node_world C i) = shared_redis C"
  "write_local (node_world C i) = node_write (nodes C ! i)" "query_local (node_world C i) = node_query (nodes C ! i)"
  "sequence (node_world C i) = (node_client (nodes C ! i), shared_sequence C)"
  "database (reader_world C j) = shared_database C" "redis (reader_world C j) = shared_redis C"
  "write_local (reader_world C j) = fst (readers C ! j)" "query_local (reader_world C j) = fst (readers C ! j)"
  "sequence (reader_world C j) = (no_client, shared_sequence C)"
  by (simp_all add: node_world_def reader_world_def Let_def split: prod.split)

lemma put_views [simp]:
  "shared_database (put_world i w C) = database w" "shared_redis (put_world i w C) = redis w"
  "shared_sequence (put_world i w C) = snd (sequence w)" "readers (put_world i w C) = readers C"
  "shared_database (put_reader j w C) = database w" "shared_redis (put_reader j w C) = redis w"
  "shared_sequence (put_reader j w C) = shared_sequence C" "nodes (put_reader j w C) = nodes C"
  by (simp_all add: put_world_def put_reader_def)

section \<open>The abstract map of links\<close>

text \<open>
  What a cluster implements: a map from numbers to URLs with their expiry, and what a step of the cluster does to it. Each step
  has a label, taken from the call the code makes on the table. \<open>AddLink\<close> asks for a link under the number that was drawn: when the call
  reports success, the number was free, no link had the URL, and the map has the link now; when it reports an error, the
  same may have happened or nothing. \<open>DropLink\<close> asks for the removal of the link of one number: it is gone when the call reports success. A
  tick of a janitor at the time \<open>now\<close> may take away links whose expiry has passed by then. All other steps leave the map as it is.
\<close>

type_synonym link_map = "uint64 \<rightharpoonup> bytes \<times> time option"

datatype act = Quiet | AddLink bool uint64 bytes "time option" | DropLink bool uint64 | Reap time

inductive link_step :: "(bytes \<Rightarrow> bytes \<Rightarrow> bool) \<Rightarrow> act \<Rightarrow> link_map \<Rightarrow> link_map \<Rightarrow> bool"
  for coll where
  quiet: "link_step coll Quiet M M"
| not_added: "link_step coll (AddLink False n u e) M M"
| added: "M n = None \<Longrightarrow> (\<forall>m u' e'. M m = Some (u', e') \<longrightarrow> \<not> coll u' u) \<Longrightarrow> link_step coll (AddLink ok n u e) M (M(n \<mapsto> (u, e)))"
| not_dropped: "link_step coll (DropLink False n) M M"
| dropped: "link_step coll (DropLink ok n) M (M(n := None))"
| reaped: "M' \<subseteq>\<^sub>m M \<Longrightarrow> (\<forall>n u e. M n = Some (u, e) \<longrightarrow> M' n = None \<longrightarrow> (\<exists>x. e = Some x \<and> x < now)) \<Longrightarrow> link_step coll (Reap now) M M'"

definition links_of :: "TinyURL list \<Rightarrow> link_map" where
  "links_of rs n = map_option (\<lambda>t. (LongURL t, ExpiresAt t)) (find (\<lambda>t. is_live t \<and> Short t = n) rs)"

text \<open>How the rows of the table change in a step, and that they change so in one step or another.\<close>

fun rows_act :: "(bytes \<Rightarrow> bytes \<Rightarrow> bool) \<Rightarrow> (time \<Rightarrow> time) \<Rightarrow> act \<Rightarrow> TinyURL list \<Rightarrow> TinyURL list \<Rightarrow> bool" where
  "rows_act coll colt Quiet rs rs' \<longleftrightarrow> rs' = rs"
| "rows_act coll colt (AddLink ok n long e) rs rs' \<longleftrightarrow> \<not> ok \<and> rs' = rs \<or>
     (\<exists>x t. e = map_option colt x \<and> new_row coll rs n long x t \<and> rs' = rs @ [column colt t])"
| "rows_act coll colt (DropLink ok n) rs rs' \<longleftrightarrow> \<not> ok \<and> rs' = rs \<or> (\<exists>w. rs' = soft_delete (\<lambda>t. is_live t \<and> Short t = n) w rs)"
| "rows_act coll colt (Reap now) rs rs' \<longleftrightarrow> subseq rs' rs \<and> (\<forall>t\<in>set rs - set rs'. expired_at now t)"

definition rows_step :: "(bytes \<Rightarrow> bytes \<Rightarrow> bool) \<Rightarrow> (time \<Rightarrow> time) \<Rightarrow> TinyURL list \<Rightarrow> TinyURL list \<Rightarrow> bool" where
  "rows_step coll colt rs rs' \<longleftrightarrow> (\<exists>a. rows_act coll colt a rs rs')"

lemma rows_stepI: "rows_act coll colt a rs rs' \<Longrightarrow> rows_step coll colt rs rs'"
  unfolding rows_step_def by blast

lemma links_of_None: "links_of rs n = None \<longleftrightarrow> (\<forall>t\<in>set rs. is_live t \<longrightarrow> Short t \<noteq> n)"
  by (auto simp: links_of_def find_None_iff)

lemma links_of_Some:
  assumes "equivp coll" "unique_indexes coll rs"
  shows "links_of rs n = Some (u, e) \<longleftrightarrow> (\<exists>t\<in>set rs. is_live t \<and> Short t = n \<and> LongURL t = u \<and> ExpiresAt t = e)"
proof
  assume "links_of rs n = Some (u, e)"
  then show "\<exists>t\<in>set rs. is_live t \<and> Short t = n \<and> LongURL t = u \<and> ExpiresAt t = e"
    by (auto simp: links_of_def dest: find_SomeD)
next
  assume "\<exists>t\<in>set rs. is_live t \<and> Short t = n \<and> LongURL t = u \<and> ExpiresAt t = e"
  then obtain t where t: "t \<in> set rs" "is_live t" "Short t = n" "LongURL t = u" "ExpiresAt t = e" by blast
  then have "links_of rs n \<noteq> None" by (auto simp: links_of_None)
  then obtain s where s: "find (\<lambda>t. is_live t \<and> Short t = n) rs = Some s" by (auto simp: links_of_def)
  then have "s \<in> set rs" "Short s = n" by (auto dest: find_SomeD)
  then have "s = t" using unique_eq [OF assms, of s t] t by (simp add: conflict_def)
  then show "links_of rs n = Some (u, e)" using s t by (simp add: links_of_def)
qed

lemma links_of_add:
  assumes "new_row coll rs n long e t"
  shows "links_of (rs @ [column colt t]) = (links_of rs)(n \<mapsto> (long, map_option colt e))"
proof
  fix m
  have "\<forall>u\<in>set rs. Short u \<noteq> n" using assms by (auto simp: new_row_def conflict_def)
  then have "find (\<lambda>t. is_live t \<and> Short t = n) rs = None" by (auto simp: find_None_iff)
  then show "links_of (rs @ [column colt t]) m = ((links_of rs)(n \<mapsto> (long, map_option colt e))) m"
    using assms
    by (auto simp: links_of_def new_row_def column_def find_append split: option.split)
qed

lemma links_of_drop: "links_of (soft_delete (\<lambda>t. is_live t \<and> Short t = n) w rs) = (links_of rs)(n := None)"
proof
  fix m
  show "links_of (soft_delete (\<lambda>t. is_live t \<and> Short t = n) w rs) m = ((links_of rs)(n := None)) m"
    by (induction rs) (auto simp: links_of_def soft_delete_def)
qed

lemma rows_act_unique:
  assumes "rows_act coll colt a rs rs'" "unique_indexes coll rs"
  shows "unique_indexes coll rs'"
  using assms unique_append [of coll rs] unique_soft_delete [of coll]
  by (cases a) (auto simp: new_row_def simp del: is_live_def, auto simp: unique_indexes_def intro: sorted_wrt_subseq)

lemma reap_links:
  assumes "equivp coll" "unique_indexes coll rs" "unique_indexes coll rs'" "subseq rs' rs" "\<forall>t\<in>set rs - set rs'. expired_at now t"
  shows "link_step coll (Reap now) (links_of rs) (links_of rs')"
proof (rule link_step.reaped)
  note L = links_of_Some [OF assms(1,2)] and L' = links_of_Some [OF assms(1,3)]
  have sub: "set rs' \<subseteq> set rs" using assms(4) subseq_set_mono by blast
  show "links_of rs' \<subseteq>\<^sub>m links_of rs"
  proof (unfold map_le_def, intro ballI)
    fix n assume "n \<in> dom (links_of rs')"
    then obtain u e where "links_of rs' n = Some (u, e)" by auto
    moreover from this have "links_of rs n = Some (u, e)" using sub by (auto simp: L L')
    ultimately show "links_of rs' n = links_of rs n" by simp
  qed
  have "\<exists>x. e = Some x \<and> x < now" if n: "links_of rs n = Some (u, e)" "links_of rs' n = None" for n u e
  proof -
    obtain t where t: "t \<in> set rs" "is_live t" "Short t = n" "ExpiresAt t = e" using n(1) by (auto simp: L)
    then have "t \<notin> set rs'" using n(2) by (auto simp: links_of_None)
    then show ?thesis using assms(5) t by (auto simp: expired_at_def split: option.splits)
  qed
  then show "\<forall>n u e. links_of rs n = Some (u, e) \<longrightarrow> links_of rs' n = None \<longrightarrow> (\<exists>x. e = Some x \<and> x < now)" by blast
qed

lemma rows_act_links:
  assumes "rows_act coll colt a rs rs'" "equivp coll" "unique_indexes coll rs"
  shows "link_step coll a (links_of rs) (links_of rs')"
proof (cases a)
  case (AddLink ok n long e)
  then consider "\<not> ok" "rs' = rs" | x t where "e = map_option colt x" "new_row coll rs n long x t" "rs' = rs @ [column colt t]"
    using assms(1) by auto
  then show ?thesis
  proof cases
    case (2 x t)
    have "\<not> coll u' long" if "links_of rs m = Some (u', e')" for m u' e'
      using 2(2) that by (auto simp: links_of_Some [OF assms(2,3)] new_row_def conflict_def)
    moreover have "links_of rs n = None" using 2(2) by (auto simp: links_of_None new_row_def conflict_def)
    ultimately show ?thesis unfolding AddLink 2(1,3) links_of_add [OF 2(2)] by (intro link_step.added) auto
  qed (use AddLink in \<open>auto intro: link_step.intros\<close>)
next
  case (Reap now)
  then show ?thesis using reap_links [OF assms(2,3) rows_act_unique [OF assms(1,3)]] assms(1) by simp
qed (use assms(1) in \<open>auto simp: links_of_drop simp del: is_live_def intro: link_step.intros\<close>)

section \<open>The labels of the steps of a cluster\<close>

text \<open>
  The steps of a node and of a cluster with their labels. The label of a call of \<open>Create\<close> or \<open>Delete\<close> names the number and the link that the code
  asks the table for, with the answer of the table; a label of the janitor has the time of the tick.
\<close>

definition succeeds :: "'a outcome \<Rightarrow> bool" where
  "succeeds x = (case x of Ret _ \<Rightarrow> True | _ \<Rightarrow> False)"

definition insert_act ::
  "(time \<Rightarrow> time) \<Rightarrow> ('d, 'r, 'l, 's) commandService \<Rightarrow> uint64 \<Rightarrow> bytes \<Rightarrow> time option \<Rightarrow> 'd \<Rightarrow> act" where
  "insert_act colt c n long e d = AddLink (succeeds (fst (Insert (cmd_db c) n long e d))) n long (map_option colt e)"

definition create_act ::
  "(time \<Rightarrow> time) \<Rightarrow> (bytes \<Rightarrow> goerr option) \<Rightarrow> ('d, 'r, 'l, 's) commandService \<Rightarrow> ctx \<Rightarrow> bytes \<Rightarrow> time option \<Rightarrow>
   ('d, 'r, 'l, 's) world \<Rightarrow> act" where
  "create_act colt http_url c ctx long e w =
     (if http_url long = None then
        (case fst (seq_Next (cmd_seq c) ctx (sequence w)) of Ret n \<Rightarrow> insert_act colt c n long e (database w) | _ \<Rightarrow> Quiet)
      else Quiet)"

definition delete_act :: "('d, 'r, 'l, 's) commandService \<Rightarrow> bytes \<Rightarrow> 'd \<Rightarrow> act" where
  "delete_act c short d =
     (case Base58Decode short of Ret n \<Rightarrow> DropLink (succeeds (fst (Delete (cmd_db c) n d))) n | _ \<Rightarrow> Quiet)"

inductive node_act ::
  "(time \<Rightarrow> time) \<Rightarrow> ('d, 'r, 'l, 's) commandService \<Rightarrow> ('d, 'r, 'l) queryService \<Rightarrow> act \<Rightarrow>
   links \<times> ('d, 'r, 'l, 's) world \<Rightarrow> links \<times> ('d, 'r, 'l, 's) world \<Rightarrow> bool"
  for colt c q where
  create: "expiry_ok (link_expiry (clk 0) ttl) \<Longrightarrow>
    node_act colt c q (create_act colt http_url c ctx long (link_expiry (clk 0) ttl) w) (H, w)
      (H \<union> (if http_url long = None then asked colt (fst (seq_Next (cmd_seq c) ctx (sequence w))) long (link_expiry (clk 0) ttl)
            else {}),
       snd (Create http_url c clk ctx long ttl w))"
| remove: "node_act colt c q (delete_act c short (database w)) (H, w) (H, snd (Delete_link c short w))"
| retrieve: "node_act colt c q Quiet (H, w) (H, snd (Retrieve q clk short w))"
| getByLong: "node_act colt c q Quiet (H, w) (H, snd (GetByLong http_url q long w))"
| janitor: "node_act colt c q (Reap now) (H, w) (H, janitor_tick c now w)"
| command_health: "node_act colt c q Quiet (H, w) (H, snd (command_checkHealth c w))"
| query_health: "node_act colt c q Quiet (H, w) (H, snd (query_checkHealth q w))"

inductive cluster_act ::
  "(time \<Rightarrow> time) \<Rightarrow> ('l \<Rightarrow> string \<Rightarrow> bytes \<Rightarrow> bool) \<Rightarrow> 'q seq_db \<Rightarrow> int \<Rightarrow> nat \<Rightarrow>
   (nat \<Rightarrow> ('d, 'r, 'l, client \<times> 'q) commandService) \<Rightarrow> (nat \<Rightarrow> ('d, 'r, 'l) queryService) \<Rightarrow> (nat \<Rightarrow> ('d, 'r, 'l) queryService) \<Rightarrow>
   act \<Rightarrow> links \<times> ('d, 'r, 'l, 'q) cluster \<Rightarrow> links \<times> ('d, 'r, 'l, 'q) cluster \<Rightarrow> bool"
  for colt lh db oor row cs qs rs where
  join: "newSequence db uuid cfg (shared_sequence C) = (Ret cl, d') \<Longrightarrow> rowID (self cl) = row \<Longrightarrow> tddl_Step cfg \<le> 2 ^ 63 \<Longrightarrow>
    (\<forall>k v. \<not> lh wl k v \<and> \<not> lh ql k v) \<Longrightarrow>
    cluster_act colt lh db oor row cs qs rs Quiet (H, C)
      (H, C\<lparr>shared_sequence := d', nodes := nodes C @ [\<lparr>node_write = wl, node_query = ql, node_client = cl, node_stats = [],
        node_closed = False\<rparr>]\<rparr>)"
| join_readonly: "(\<forall>k v. \<not> lh ql k v) \<Longrightarrow>
    cluster_act colt lh db oor row cs qs rs Quiet (H, C) (H, C\<lparr>readers := readers C @ [(ql, [])]\<rparr>)"
| call: "i < length (nodes C) \<Longrightarrow> (\<And>r. pc (node_client (nodes C ! i)) \<noteq> Starting r) \<Longrightarrow>
    node_act colt (cs i) (qs i) a (H, node_world C i) (H', w) \<Longrightarrow>
    cluster_act colt lh db oor row cs qs rs a (H, C) (H', put_world i w C)"
| read: "j < length (readers C) \<Longrightarrow> query_step (rs j) (reader_world C j) w \<Longrightarrow>
    cluster_act colt lh db oor row cs qs rs Quiet (H, C) (H, put_reader j w C)"
| worker: "i < length (nodes C) \<Longrightarrow> internal_step db oor (node_client (nodes C ! i)) (shared_sequence C) = (cl, d') \<Longrightarrow>
    cluster_act colt lh db oor row cs qs rs Quiet (H, C)
      (H, C\<lparr>shared_sequence := d', nodes := (nodes C)[i := (nodes C ! i)\<lparr>node_client := cl\<rparr>]\<rparr>)"
| stop: "i < length (nodes C) \<Longrightarrow> (\<And>r. pc (node_client (nodes C ! i)) \<noteq> Starting r) \<Longrightarrow>
    cluster_act colt lh db oor row cs qs rs Quiet (H, C)
      (H, C\<lparr>nodes := (nodes C)[i := (nodes C ! i)\<lparr>node_client := Close_signal (node_client (nodes C ! i)), node_closed := True\<rparr>]\<rparr>)"

text \<open>The steps with labels are the steps.\<close>

lemma node_act_step: "node_act colt c q a X Y \<Longrightarrow> node_step colt c q X Y"
  by (induction rule: node_act.induct) (blast intro: node_step.intros)+

lemma node_step_act: "node_step colt c q X Y \<Longrightarrow> \<exists>a. node_act colt c q a X Y"
  by (induction rule: node_step.induct) (blast intro: node_act.intros)+

lemma cluster_act_step: "cluster_act colt lh db oor row cs qs rs a X Y \<Longrightarrow> cluster_step colt lh db oor row cs qs rs X Y"
  by (induction rule: cluster_act.induct) (auto intro: cluster_step.intros dest: node_act_step)

lemma cluster_step_act:
  assumes "cluster_step colt lh db oor row cs qs rs X Y"
  shows "\<exists>a. cluster_act colt lh db oor row cs qs rs a X Y"
  using assms
proof (induction rule: cluster_step.induct)
  case (call i C H H' w)
  then show ?case using node_step_act [OF call(3)] by (blast intro: cluster_act.call)
qed (blast intro: cluster_act.intros)+

section \<open>What a call does to the table and to the sequence\<close>

lemma rows_step_refl [simp]: "rows_step coll colt rs rs"
  by (rule rows_stepI [of _ _ Quiet]) simp

lemma Create_finish_frame [simp]:
  "database (snd (Create_finish c now long n record w)) = database w"
  "sequence (snd (Create_finish c now long n record w)) = sequence w"
  by (simp_all add: Create_finish_def on_write_cache_def Let_def split: prod.split outcome.split)

lemma Retrieve_sequence [simp]: "sequence (snd (Retrieve q clk short w)) = sequence w"
  by (auto simp: Retrieve_def fromCache_def on_query_cache_def on_db_def split: prod.split outcome.split option.split)

lemma GetByLong_sequence [simp]: "sequence (snd (GetByLong http_url q long w)) = sequence w"
  by (simp add: GetByLong_def on_db_def split: prod.split outcome.split option.split)

lemma Delete_sequence [simp]: "sequence (snd (Delete_link c short w)) = sequence w"
  by (simp add: Delete_link_def on_write_cache_def on_db_def split: prod.split outcome.split)

lemma health_sequence [simp]:
  "sequence (snd (command_checkHealth c w)) = sequence w" "sequence (snd (query_checkHealth q w)) = sequence w"
  by (simp_all add: command_checkHealth_def query_checkHealth_def pingDeps_def on_write_cache_def on_query_cache_def on_db_def
      split: prod.split outcome.split)

lemma janitor_sequence [simp]: "sequence (janitor_tick c now w) = sequence w"
  by (auto simp: janitor_tick_def on_db_def AddExpiredReaped_def record_metric_def split: prod.split option.split)

lemma Create_sequence:
  "sequence (snd (Create http_url c clk ctx long ttl w)) =
     (if http_url long = None then snd (seq_Next (cmd_seq c) ctx (sequence w)) else sequence w)"
proof (cases "http_url long")
  case None
  obtain x s1 where "seq_Next (cmd_seq c) ctx (sequence w) = (x, s1)" by (metis prod.exhaust)
  then show ?thesis
    using None
    by (cases x) (simp_all add: Create_def on_seq_def on_db_def Let_def IncShortenCreated_def record_metric_def split: prod.split outcome.split)
qed (simp add: Create_def)

text \<open>A step either draws a number for one URL or leaves the sequence and the set of links alone.\<close>

lemma node_step_sequence:
  assumes "node_step colt c q X Y"
  shows "fst Y = fst X \<and> sequence (snd Y) = sequence (snd X) \<or>
    (\<exists>ctx long e. sequence (snd Y) = snd (seq_Next (cmd_seq c) ctx (sequence (snd X))) \<and>
       fst Y = fst X \<union> asked colt (fst (seq_Next (cmd_seq c) ctx (sequence (snd X)))) long e)"
  using assms by (induction rule: node_step.induct) (auto simp: Create_sequence)

context turl_node begin

lemma Insert_rows_act:
  "rows_act coll colt (insert_act colt c n long e d) (rows d) (rows (snd (Insert (cmd_db c) n long e d)))"
proof (cases "fst (Insert (cmd_db c) n long e d)")
  case (Ret t)
  then show ?thesis using link_store.insert_ok [OF store Ret] by (auto simp: insert_act_def)
qed (use link_store.insert_rows [OF store, of n long e d] in \<open>auto simp: insert_act_def succeeds_def\<close>)

lemma Delete_rows_act:
  "rows_act coll colt (DropLink (succeeds (fst (Delete (cmd_db c) n d))) n) (rows d) (rows (snd (Delete (cmd_db c) n d)))"
proof (cases "fst (Delete (cmd_db c) n d)")
  case (Ret u)
  then show ?thesis using link_store.remove_ok [OF store Ret] by auto
qed (use link_store.remove_any [OF store, of n d] in \<open>auto simp: succeeds_def\<close>)

lemma Create_rows_act:
  "rows_act coll colt (create_act colt http_url c ctx long (link_expiry (clk 0) ttl) w) (rows (database w))
    (rows (database (snd (Create http_url c clk ctx long ttl w))))"
proof (cases "http_url long")
  case None
  obtain x s1 where x: "seq_Next (cmd_seq c) ctx (sequence w) = (x, s1)" by (metis prod.exhaust)
  show ?thesis
  proof (cases x)
    case (Ret n)
    obtain y d2 where y: "Insert (cmd_db c) n long (link_expiry (clk 0) ttl) (database w) = (y, d2)" by (metis prod.exhaust)
    have ins: "rows_act coll colt (create_act colt http_url c ctx long (link_expiry (clk 0) ttl) w) (rows (database w)) (rows d2)"
      using Insert_rows_act [of n long "link_expiry (clk 0) ttl" "database w"] y None x Ret by (simp add: create_act_def)
    have look: "rows (snd (GetByLongURL (cmd_db c) long d2)) = rows d2" by (rule link_store.long_rows [OF store])
    have "database (snd (Create http_url c clk ctx long ttl w)) \<in> {d2, snd (GetByLongURL (cmd_db c) long d2)}"
      using None x Ret y
      by (auto simp: Create_def on_seq_def on_db_def Let_def link_expiry_def IncShortenCreated_def record_metric_def
          split: prod.splits outcome.splits)
    then show ?thesis using ins look by auto
  qed (use None x in \<open>simp_all add: Create_def on_seq_def create_act_def\<close>)
qed (simp add: Create_def create_act_def)

lemma Delete_link_rows_act:
  "rows_act coll colt (delete_act c short (database w)) (rows (database w)) (rows (database (snd (Delete_link c short w))))"
proof (cases "Base58Decode short")
  case (Ret n)
  then have "database (snd (Delete_link c short w)) = snd (Delete (cmd_db c) n (database w))"
    by (simp add: Delete_link_def on_db_def on_write_cache_def split: prod.split outcome.split)
  then show ?thesis using Delete_rows_act [of n "database w"] Ret by (simp add: delete_act_def)
qed (simp_all add: Delete_link_def delete_act_def)

lemma Retrieve_rows: "rows (database (snd (Retrieve q clk short w))) = rows (database w)"
  using link_store.short_rows [OF store] same_store
  by (auto simp: Retrieve_def fromCache_def on_query_cache_def on_db_def split: prod.split outcome.split option.split)
    (metis snd_conv)+

lemma query_rows:
  "rows (database (snd (GetByLong http_url q long w))) = rows (database w)"
  "rows (database (snd (query_checkHealth q w))) = rows (database w)"
  "rows (database (snd (command_checkHealth c w))) = rows (database w)"
  using link_store.long_rows [OF store, of long "database w"] link_store.pingdb_rows [OF store, of "database w"] same_store
  by (auto simp: GetByLong_def query_checkHealth_def command_checkHealth_def pingDeps_def on_query_cache_def on_write_cache_def
      on_db_def split: prod.split outcome.split option.split)

lemma node_act_rows:
  assumes "node_act colt c q a X Y"
  shows "rows_act coll colt a (rows (database (snd X))) (rows (database (snd Y)))"
  using assms
proof (induction rule: node_act.induct)
  case (janitor now H w)
  then show ?case using janitor_tick_reap [of now w] by simp
qed (simp_all add: Create_rows_act Delete_link_rows_act Retrieve_rows query_rows)

lemma node_inv_parts:
  "node_inv H w \<longleftrightarrow> (\<forall>t\<in>set (rows (database w)). (Short t, LongURL t, ExpiresAt t) \<in> H) \<and>
     (\<forall>n long e. (n, long, e) \<in> H \<longrightarrow> expiry_ok e) \<and> (\<forall>k v. rh (redis w) k v \<longrightarrow> good H k v) \<and>
     (\<forall>k v. lh (write_local w) k v \<longrightarrow> good H k v) \<and> (\<forall>k v. lh (query_local w) k v \<longrightarrow> good H k v)"
  unfolding node_inv_def held_def by blast

end

section \<open>Numbers across the cluster\<close>

context sequence_table begin

text \<open>A call of \<open>Next\<close> on one of the clients, as steps of the system of all clients.\<close>

lemma hand_lease:
  assumes "lease_inv row S" "i < length (clients S)" "pc (clients S ! i) = Offering v"
  shows "lease_inv row (S\<lparr>clients := (clients S)[i := deliver (self (clients S ! i))], table := table S, handed := handed S @ [v]\<rparr>)"
  using lease_inv_step [OF sys_step.hand [of i S v db _ row] assms(1)] assms(2,3) by (cases S) simp

lemma Next_loop_lease:
  assumes "Next_loop db oor n e (clients S ! i, table S) = (x, c', d')" "i < length (clients S)" "lease_inv row S"
  shows "lease_inv row (S\<lparr>clients := (clients S)[i := c'], table := d',
     handed := handed S @ (case x of Ret v \<Rightarrow> [v] | _ \<Rightarrow> [])\<rparr>)"
  using assms
proof (induction n arbitrary: S)
  case (0 S)
  show ?case
  proof (cases "\<exists>v. pc (clients S ! i) = Offering v")
    case True
    then obtain v where v: "pc (clients S ! i) = Offering v" ..
    then have "x = Ret v" "c' = deliver (self (clients S ! i))" "d' = table S"
      using 0(1) by (simp_all add: Next_loop.simps [of _ _ 0])
    then show ?thesis using hand_lease [OF 0(3,2) v] by simp
  next
    case False
    then have "x = Err e" "c' = clients S ! i" "d' = table S"
      using 0(1) by (auto simp: Next_loop.simps [of _ _ 0] split: worker_pc.splits)
    then show ?thesis using 0(3) by (cases S) simp
  qed
next
  case (Suc n S)
  show ?case
  proof (cases "\<exists>v. pc (clients S ! i) = Offering v")
    case True
    then obtain v where v: "pc (clients S ! i) = Offering v" ..
    then have "x = Ret v" "c' = deliver (self (clients S ! i))" "d' = table S"
      using Suc(2) by (simp_all add: Next_loop.simps [of _ _ "Suc n"])
    then show ?thesis using hand_lease [OF Suc(4,3) v] by simp
  next
    case False
    obtain c1 d1 where s: "internal_step db oor (clients S ! i) (table S) = (c1, d1)" by (metis prod.exhaust)
    let ?S = "S\<lparr>clients := (clients S)[i := c1], table := d1\<rparr>"
    have "Next_loop db oor n e (clients ?S ! i, table ?S) = (x, c', d')"
      using Suc(2,3) False s by (auto simp: Next_loop.simps [of _ _ "Suc n"] split: worker_pc.splits)
    moreover have "lease_inv row ?S" using lease_inv_step [OF sys_step.work [OF Suc(3) s] Suc(4)] .
    ultimately show ?thesis using Suc.IH [of ?S] Suc(3) by simp
  qed
qed

lemma Next_lease:
  assumes "Next db oor ctx (clients S ! i, table S) = (x, c', d')" "i < length (clients S)" "lease_inv row S"
  shows "lease_inv row (S\<lparr>clients := (clients S)[i := c'], table := d',
     handed := handed S @ (case x of Ret v \<Rightarrow> [v] | _ \<Rightarrow> [])\<rparr>)"
proof (cases ctx)
  case (Ctx n e)
  show ?thesis
  proof (cases n)
    case 0
    then show ?thesis using assms Ctx by (cases S) auto
  next
    case (Suc m)
    then show ?thesis using Next_loop_lease [of oor m e S i x c' d' row] assms Ctx by simp
  qed
qed

end

section \<open>The contract of a cluster\<close>

text \<open>One URL and one expiry under each number, the expiry as it was asked for or as the column keeps it.\<close>

definition same_expiry :: "(time \<Rightarrow> time) \<Rightarrow> time option \<Rightarrow> time option \<Rightarrow> bool" where
  "same_expiry colt e e' \<longleftrightarrow> e' = e \<or> e' = map_option colt e \<or> e = map_option colt e'"

definition one_link :: "(time \<Rightarrow> time) \<Rightarrow> links \<Rightarrow> bool" where
  "one_link colt H \<longleftrightarrow> (\<forall>n u e u' e'. (n, u, e) \<in> H \<longrightarrow> (n, u', e') \<in> H \<longrightarrow> u = u' \<and> same_expiry colt e e')"

definition table_links :: "TinyURL list \<Rightarrow> links" where
  "table_links ts = {(Short t, LongURL t, ExpiresAt t) | t. t \<in> set ts}"

text \<open>A cluster that starts: no nodes yet, nothing in redis, and a table whose numbers are below the sequence.\<close>

definition fresh_cluster ::
  "('d \<Rightarrow> TinyURL list) \<Rightarrow> (bytes \<Rightarrow> bytes \<Rightarrow> bool) \<Rightarrow> ('r \<Rightarrow> string \<Rightarrow> bytes \<Rightarrow> bool) \<Rightarrow> ('q \<Rightarrow> nat \<rightharpoonup> uint64 \<times> int) \<Rightarrow> nat \<Rightarrow>
   ('d, 'r, 'l, 'q) cluster \<Rightarrow> bool" where
  "fresh_cluster rows coll rh cell row C \<longleftrightarrow> nodes C = [] \<and> readers C = [] \<and> (\<forall>k v. \<not> rh (shared_redis C) k v) \<and>
     unique_indexes coll (rows (shared_database C)) \<and>
     (\<forall>t\<in>set (rows (shared_database C)). expiry_ok (ExpiresAt t) \<and>
        (\<exists>v k. cell (shared_sequence C) row = Some (v, k) \<and> Short t < v))"

text \<open>A query service of the cluster with the world it sees: that of a node or of a read-only node.\<close>

definition serves ::
  "(nat \<Rightarrow> ('d, 'r, 'l) queryService) \<Rightarrow> (nat \<Rightarrow> ('d, 'r, 'l) queryService) \<Rightarrow> ('d, 'r, 'l, 'q) cluster \<Rightarrow>
   ('d, 'r, 'l) queryService \<Rightarrow> ('d, 'r, 'l, client \<times> 'q) world \<Rightarrow> bool" where
  "serves qs rs C q w \<longleftrightarrow>
     (\<exists>i<length (nodes C). q = qs i \<and> w = node_world C i) \<or> (\<exists>j<length (readers C). q = rs j \<and> w = reader_world C j)"

locale turl_cluster =
  fixes cs :: "nat \<Rightarrow> ('d, 'r, 'l, client \<times> 'q) commandService"
    and qs :: "nat \<Rightarrow> ('d, 'r, 'l) queryService"
    and rs :: "nat \<Rightarrow> ('d, 'r, 'l) queryService"
    and rows :: "'d \<Rightarrow> TinyURL list"
    and coll :: "bytes \<Rightarrow> bytes \<Rightarrow> bool"
    and colt :: "time \<Rightarrow> time"
    and rh :: "'r \<Rightarrow> string \<Rightarrow> bytes \<Rightarrow> bool"
    and lh :: "'l \<Rightarrow> string \<Rightarrow> bytes \<Rightarrow> bool"
    and db :: "'q seq_db"
    and cell :: "'q \<Rightarrow> nat \<rightharpoonup> uint64 \<times> int"
    and oor :: int
    and row :: nat
  assumes node: "turl_node (cs i) (qs i) rows coll colt rh lh"
    and reader: "turl_node (cs i) (rs j) rows coll colt rh lh"
    and tddl: "cmd_seq (cs i) = tddlSequence_iface db oor"
    and seqs: "sequence_table db cell"
begin

abbreviation good_value :: "links \<Rightarrow> string \<Rightarrow> bytes \<Rightarrow> bool" where
  "good_value \<equiv> turl_node.good coll"

abbreviation step :: "links \<times> ('d, 'r, 'l, 'q) cluster \<Rightarrow> links \<times> ('d, 'r, 'l, 'q) cluster \<Rightarrow> bool" where
  "step \<equiv> cluster_step colt lh db oor row cs qs rs"

definition cache_good :: "links \<Rightarrow> 'l \<Rightarrow> bool" where
  "cache_good H l \<longleftrightarrow> (\<forall>k v. lh l k v \<longrightarrow> good_value H k v)"

definition shared_good :: "links \<Rightarrow> 'd \<Rightarrow> 'r \<Rightarrow> bool" where
  "shared_good H d r \<longleftrightarrow> (\<forall>t\<in>set (rows d). (Short t, LongURL t, ExpiresAt t) \<in> H) \<and>
     (\<forall>n long e. (n, long, e) \<in> H \<longrightarrow> expiry_ok e) \<and> (\<forall>k v. rh r k v \<longrightarrow> good_value H k v)"

definition cluster_inv :: "links \<Rightarrow> ('d, 'r, 'l, 'q) cluster \<Rightarrow> bool" where
  "cluster_inv H C \<longleftrightarrow> shared_good H (shared_database C) (shared_redis C) \<and>
     (\<forall>n\<in>set (nodes C). cache_good H (node_write n) \<and> cache_good H (node_query n)) \<and>
     (\<forall>x\<in>set (readers C). cache_good H (fst x))"

definition system_of :: "('d, 'r, 'l, 'q) cluster \<Rightarrow> uint64 list \<Rightarrow> 'q sys" where
  "system_of C hs = \<lparr>clients = map node_client (nodes C), table = shared_sequence C, handed = hs\<rparr>"

definition numbers :: "uint64 list \<Rightarrow> links \<Rightarrow> ('d, 'r, 'l, 'q) cluster \<Rightarrow> bool" where
  "numbers hs H C \<longleftrightarrow> sequence_table.lease_inv cell row (system_of C hs) \<and> fst ` H \<subseteq> set hs \<and> one_link colt H"

definition number_inv :: "links \<Rightarrow> ('d, 'r, 'l, 'q) cluster \<Rightarrow> bool" where
  "number_inv H C \<longleftrightarrow> (\<exists>hs. numbers hs H C)"

text \<open>More numbers handed out, and links added only under numbers that were not handed out before.\<close>

definition grows :: "uint64 list \<Rightarrow> links \<Rightarrow> uint64 list \<Rightarrow> links \<Rightarrow> bool" where
  "grows hs H hs' H' \<longleftrightarrow> set hs \<subseteq> set hs' \<and> fst ` (H' - H) \<inter> set hs = {}"

lemma node_inv_cluster:
  fixes w :: "('d, 'r, 'l, client \<times> 'q) world"
  shows "turl_node.node_inv rows coll rh lh H w \<longleftrightarrow>
    shared_good H (database w) (redis w) \<and> cache_good H (write_local w) \<and> cache_good H (query_local w)"
  unfolding turl_node.node_inv_parts [OF node] shared_good_def cache_good_def by blast

lemma cache_good_mono: "cache_good H l \<Longrightarrow> H \<subseteq> H' \<Longrightarrow> cache_good H' l"
  unfolding cache_good_def using turl_node.good_mono [OF node] by blast

lemma cluster_inv_node: "cluster_inv H C \<Longrightarrow> i < length (nodes C) \<Longrightarrow> turl_node.node_inv rows coll rh lh H (node_world C i)"
  by (simp add: node_inv_cluster cluster_inv_def)

lemma cluster_inv_reader: "cluster_inv H C \<Longrightarrow> j < length (readers C) \<Longrightarrow> turl_node.node_inv rows coll rh lh H (reader_world C j)"
  by (simp add: node_inv_cluster cluster_inv_def)

lemma put_world_inv:
  assumes "cluster_inv H C" "H \<subseteq> H'" "turl_node.node_inv rows coll rh lh H' w"
  shows "cluster_inv H' (put_world i w C)"
  using assms cache_good_mono [OF _ assms(2)]
  by (auto simp: cluster_inv_def node_inv_cluster put_world_def dest!: set_update_subset_insert [THEN subsetD])

lemma put_reader_inv:
  assumes "cluster_inv H C" "turl_node.node_inv rows coll rh lh H w"
  shows "cluster_inv H (put_reader j w C)"
  using assms
  by (auto simp: cluster_inv_def node_inv_cluster put_reader_def dest!: set_update_subset_insert [THEN subsetD])

lemma node_client_inv:
  assumes "cluster_inv H C" "i < length (nodes C)" "node_write n = node_write (nodes C ! i)" "node_query n = node_query (nodes C ! i)"
  shows "cluster_inv H (C\<lparr>nodes := (nodes C)[i := n]\<rparr>)"
  using assms nth_mem [OF assms(2)] by (auto simp: cluster_inv_def dest!: set_update_subset_insert [THEN subsetD])

lemma cluster_inv_sequence [simp]: "cluster_inv H (C\<lparr>shared_sequence := d\<rparr>) = cluster_inv H C"
  by (simp add: cluster_inv_def)

lemma cluster_step_inv:
  assumes "step X Y" "cluster_inv (fst X) (snd X)"
  shows "cluster_inv (fst Y) (snd Y) \<and> fst X \<subseteq> fst Y"
  using assms
proof (induction rule: cluster_step.induct)
  case (call i C H H' w)
  have "turl_node.node_inv rows coll rh lh H' w"
    using turl_node.node_step_inv [OF node call(3)] cluster_inv_node [OF _ call(1)] call(4) by simp
  moreover have "H \<subseteq> H'" using node_step_sequence [OF call(3)] by auto
  ultimately show ?case using put_world_inv call(4) by simp
next
  case (read j C w H)
  have "turl_node.node_inv rows coll rh lh H w"
    using turl_node.node_step_inv [OF reader query_step_node [OF read(2)]] cluster_inv_reader [OF _ read(1)] read(3) by simp
  then show ?case using put_reader_inv read(3) by simp
next
  case (worker i C cl d' H)
  then show ?case using node_client_inv [of H "C\<lparr>shared_sequence := d'\<rparr>" i "(nodes C ! i)\<lparr>node_client := cl\<rparr>"] by simp
next
  case (stop i C H)
  then show ?case
    using node_client_inv [of H C i "(nodes C ! i)\<lparr>node_client := Close_signal (node_client (nodes C ! i)), node_closed := True\<rparr>"]
    by simp
qed (auto simp: cluster_inv_def cache_good_def)

end

context turl_cluster begin

lemmas lease_facts = sequence_table.lease_inv_step [OF seqs] sequence_table.Next_lease [OF seqs]

lemma system_of_fields [simp]:
  "clients (system_of C hs) = map node_client (nodes C)" "table (system_of C hs) = shared_sequence C" "handed (system_of C hs) = hs"
  by (simp_all add: system_of_def)

lemma grows_refl [simp]: "grows hs H hs H"
  by (simp add: grows_def)

lemma numbers_step:
  assumes "sys_step db oor row (system_of C hs) (system_of C' hs)" "numbers hs H C"
  shows "numbers hs H C'"
  using lease_facts(1) [OF assms(1)] assms(2) unfolding numbers_def by blast

lemma numbers_same:
  "numbers hs H C \<Longrightarrow> map node_client (nodes C') = map node_client (nodes C) \<Longrightarrow> shared_sequence C' = shared_sequence C \<Longrightarrow>
    numbers hs H C'"
  by (simp add: numbers_def system_of_def)

lemma clients_put [simp]:
  "i < length (nodes C) \<Longrightarrow> map node_client (nodes (put_world i w C)) = (map node_client (nodes C))[i := fst (sequence w)]"
  by (simp add: put_world_def map_update)

lemma numbers_put:
  assumes "numbers hs H C" "i < length (nodes C)" "sequence w = sequence (node_world C i)"
  shows "numbers hs H (put_world i w C)"
  using assms by (auto intro!: numbers_same [OF assms(1)] nth_equalityI simp: nth_list_update)

text \<open>A number drawn on a node is new.\<close>

lemma numbers_Next:
  assumes "numbers hs H C" "i < length (nodes C)" "Next db oor ctx (node_client (nodes C ! i), shared_sequence C) = (x, sequence w)"
  shows "numbers (hs @ (case x of Ret v \<Rightarrow> [v] | _ \<Rightarrow> [])) H (put_world i w C)" "x = Ret v \<Longrightarrow> v \<notin> set hs"
proof -
  let ?hs = "hs @ (case x of Ret v \<Rightarrow> [v] | _ \<Rightarrow> [])"
  have sys: "system_of (put_world i w C) ?hs =
      (system_of C hs)\<lparr>clients := (clients (system_of C hs))[i := fst (sequence w)], table := snd (sequence w), handed := ?hs\<rparr>"
    using assms(2) by (simp add: system_of_def put_world_def map_update)
  have lease: "sequence_table.lease_inv cell row (system_of (put_world i w C) ?hs)"
    unfolding sys using lease_facts(2) [of oor ctx "system_of C hs" i x "fst (sequence w)" "snd (sequence w)" row] assms by (simp add: numbers_def)
  then show "numbers ?hs H (put_world i w C)" using assms(1) by (auto simp: numbers_def)
  have "distinct ?hs" using lease unfolding sequence_table.lease_inv_def [OF seqs] by simp
  then show "x = Ret v \<Longrightarrow> v \<notin> set hs" by auto
qed

text \<open>A link asked for under a number that was handed out and has no link yet.\<close>

lemma numbers_ask:
  assumes "numbers hs H C" "n \<in> set hs" "n \<notin> fst ` H"
  shows "numbers hs (H \<union> asked colt (Ret n) long e) C"
proof -
  have "one_link colt H" "\<forall>u f. (n, u, f) \<notin> H" using assms(1,3) by (force simp: numbers_def)+
  then have "one_link colt (H \<union> asked colt (Ret n) long e)" unfolding one_link_def asked_def by (auto simp: same_expiry_def)
  then show ?thesis using assms(1,2) by (auto simp: numbers_def asked_def)
qed

lemma call_numbers:
  assumes i: "i < length (nodes C)" and st: "node_step colt (cs i) (qs i) (H, node_world C i) (H', w)" and inv: "numbers hs H C"
  shows "\<exists>hs'. numbers hs' H' (put_world i w C) \<and> grows hs H hs' H'"
proof -
  consider "H' = H" "sequence w = sequence (node_world C i)"
    | ctx long e where "sequence w = snd (Next db oor ctx (node_client (nodes C ! i), shared_sequence C))"
      "H' = H \<union> asked colt (fst (Next db oor ctx (node_client (nodes C ! i), shared_sequence C))) long e"
    using node_step_sequence [OF st] by (auto simp: tddl tddlSequence_iface_def)
  then show ?thesis
  proof cases
    case 1
    then show ?thesis using numbers_put [OF inv i] by fastforce
  next
    case (2 ctx long e)
    obtain x where x: "Next db oor ctx (node_client (nodes C ! i), shared_sequence C) = (x, sequence w)"
      using 2(1) by (metis prod.collapse)
    note nx = numbers_Next [OF inv i x]
    show ?thesis
    proof (cases x)
      case (Ret v)
      have "v \<notin> fst ` H" using nx(2) [OF Ret] inv by (auto simp: numbers_def)
      then have "numbers (hs @ [v]) H' (put_world i w C)"
        using numbers_ask [of "hs @ [v]" H "put_world i w C" v long e] nx(1) 2(2) x Ret by simp
      moreover have "grows hs H (hs @ [v]) H'" using nx(2) [OF Ret] 2(2) x Ret by (auto simp: grows_def asked_def)
      ultimately show ?thesis by blast
    qed (use nx(1) 2(2) x in \<open>force simp: asked_def\<close>)+
  qed
qed

lemma cluster_step_numbers:
  assumes "step X Y" "numbers hs (fst X) (snd X)"
  shows "\<exists>hs'. numbers hs' (fst Y) (snd Y) \<and> grows hs (fst X) hs' (fst Y)"
  using assms
proof (induction rule: cluster_step.induct)
  case (join uuid cfg C cl d' wl ql H)
  let ?C = "C\<lparr>shared_sequence := d', nodes := nodes C @ [\<lparr>node_write = wl, node_query = ql, node_client = cl, node_stats = [],
      node_closed = False\<rparr>]\<rparr>"
  have "sys_step db oor row (system_of C hs) (system_of ?C hs)"
    using sys_step.join [of db uuid cfg "system_of C hs" cl d' row oor] join(1-3) by (simp add: system_of_def)
  from numbers_step [OF this] have "numbers hs H ?C" using join by simp
  then show ?case by force
next
  case (worker i C cl d' H)
  let ?C = "C\<lparr>shared_sequence := d', nodes := (nodes C)[i := (nodes C ! i)\<lparr>node_client := cl\<rparr>]\<rparr>"
  have "sys_step db oor row (system_of C hs) (system_of ?C hs)"
    using sys_step.work [of i "system_of C hs" db oor cl d' row] worker(1-2) by (simp add: system_of_def map_update)
  from numbers_step [OF this] have "numbers hs H ?C" using worker by simp
  then show ?case by force
next
  case (stop i C H)
  let ?C = "C\<lparr>nodes := (nodes C)[i := (nodes C ! i)\<lparr>node_client := Close_signal (node_client (nodes C ! i)), node_closed := True\<rparr>]\<rparr>"
  have "sys_step db oor row (system_of C hs) (system_of ?C hs)"
    using sys_step.close [of i "system_of C hs" db oor row] stop(1-2) by (simp add: system_of_def map_update)
  from numbers_step [OF this] have "numbers hs H ?C" using stop by simp
  then show ?case by force
next
  case (call i C H H' w)
  then show ?case using call_numbers [OF call(1,3)] by simp
next
  case (join_readonly ql H C)
  then have "numbers hs H (C\<lparr>readers := readers C @ [(ql, [])]\<rparr>)" by (auto intro: numbers_same)
  then show ?case by force
next
  case (read j C w H)
  then have "numbers hs H (put_reader j w C)" by (auto intro: numbers_same)
  then show ?case by force
qed

lemma fresh_inv: "fresh_cluster rows coll rh cell row C \<Longrightarrow> cluster_inv (table_links (rows (shared_database C))) C"
  by (auto simp: fresh_cluster_def cluster_inv_def shared_good_def table_links_def)

lemma unique_numbers: "unique_indexes coll xs \<Longrightarrow> distinct (map Short xs)"
  by (induction xs) (auto simp: unique_indexes_def conflict_def)

lemma fresh_numbers:
  assumes "fresh_cluster rows coll rh cell row C"
  shows "number_inv (table_links (rows (shared_database C))) C"
proof -
  let ?rs = "rows (shared_database C)" and ?b = "sequence_table.bound cell row (shared_sequence C)"
  have u: "unique_indexes coll ?rs" using assms by (simp add: fresh_cluster_def)
  have "unat (Short t) < ?b" if "t \<in> set ?rs" for t
    using assms that unfolding sequence_table.bound_def [OF seqs] by (auto simp: fresh_cluster_def word_less_nat_alt)
  then have "sequence_table.lease_inv cell row (system_of C (map Short ?rs))"
    using assms unique_numbers [OF u] unfolding sequence_table.lease_inv_def [OF seqs] by (auto simp: fresh_cluster_def)
  moreover have "one_link colt (table_links ?rs)"
    using unique_eq [OF link_store.coll_eq [OF turl_node.store [OF node]] u]
    by (fastforce simp: one_link_def same_expiry_def table_links_def conflict_def)
  ultimately show ?thesis unfolding number_inv_def numbers_def by (force simp: table_links_def)
qed

lemma run_inv:
  assumes "step\<^sup>*\<^sup>* X Y" "cluster_inv (fst X) (snd X)" "number_inv (fst X) (snd X)"
  shows "cluster_inv (fst Y) (snd Y) \<and> number_inv (fst Y) (snd Y) \<and> fst X \<subseteq> fst Y"
  using assms
proof (induction rule: rtranclp_induct)
  case (step Y Z)
  then show ?case using cluster_step_inv [OF step(2)] cluster_step_numbers [OF step(2)] unfolding number_inv_def by blast
qed simp

abbreviation act where
  "act \<equiv> cluster_act colt lh db oor row cs qs rs"

lemma query_step_rows:
  fixes w w' :: "('d, 'r, 'l, client \<times> 'q) world"
  assumes "query_step (rs j) w w'"
  shows "rows (database w') = rows (database w)"
  using assms turl_node.Retrieve_rows [OF reader] turl_node.query_rows [OF reader]
  by (induction rule: query_step.induct) simp_all

lemma cluster_act_rows:
  assumes "act a X Y"
  shows "rows_act coll colt a (rows (shared_database (snd X))) (rows (shared_database (snd Y)))"
  using assms
proof (induction rule: cluster_act.induct)
  case (call i C a H H' w)
  then show ?case using turl_node.node_act_rows [OF node call(3)] by simp
next
  case (read j C w H)
  then show ?case using query_step_rows [OF read(2)] by simp
qed simp_all

text \<open>A run with labels, seen through the live rows, is a run of the map with the same labels.\<close>

lemma act_run_rows:
  assumes "labelled_run act acts X Y" "unique_indexes coll (rows (shared_database (snd X)))"
  shows "unique_indexes coll (rows (shared_database (snd Y))) \<and>
    labelled_run (link_step coll) acts (links_of (rows (shared_database (snd X)))) (links_of (rows (shared_database (snd Y))))"
  using assms
proof (rule labelled_run_simulation [where I = "\<lambda>X. unique_indexes coll (rows (shared_database (snd X)))"
      and f = "\<lambda>X. links_of (rows (shared_database (snd X)))"], goal_cases)
  case (1 a X Y)
  then show ?case
    using rows_act_unique rows_act_links link_store.coll_eq [OF turl_node.store [OF node]] cluster_act_rows [OF 1(2)] by blast
qed

lemma run_unique:
  assumes "step\<^sup>*\<^sup>* X Y" "unique_indexes coll (rows (shared_database (snd X)))"
  shows "unique_indexes coll (rows (shared_database (snd Y)))"
proof -
  obtain acts where "labelled_run act acts X Y" using run_has_labels [OF assms(1), of act] cluster_step_act by blast
  then show ?thesis using act_run_rows assms(2) by blast
qed

text \<open>What a query service anywhere in the cluster may answer.\<close>

lemma answer_sound:
  assumes "cluster_inv H C" "serves qs rs C q w" "fst (Retrieve q clk short w) = Ret long"
  shows "\<exists>n u e. Base58Decode short = Ret n \<and> (n, u, e) \<in> H \<and> coll u long \<and> (\<not> isExpired e (clk 0) \<or> \<not> isExpired e (clk 1))"
proof -
  consider i where "i < length (nodes C)" "q = qs i" "w = node_world C i"
    | j where "j < length (readers C)" "q = rs j" "w = reader_world C j"
    using assms(2) unfolding serves_def by blast
  then show ?thesis
  proof cases
    case 1
    then show ?thesis using turl_node.Retrieve_sound(2) [OF node cluster_inv_node [OF assms(1)]] assms(3) by blast
  next
    case 2
    then show ?thesis using turl_node.Retrieve_sound(2) [OF reader cluster_inv_reader [OF assms(1)]] assms(3) by blast
  qed
qed

lemma fresh_run:
  assumes "fresh_cluster rows coll rh cell row C0" "step\<^sup>*\<^sup>* (table_links (rows (shared_database C0)), C0) (H, C)"
  shows "cluster_inv H C" "number_inv H C" "unique_indexes coll (rows (shared_database C))"
  using run_inv [OF assms(2)] fresh_inv [OF assms(1)] fresh_numbers [OF assms(1)] run_unique [OF assms(2)] assms(1)
  by (simp_all add: fresh_cluster_def)

lemma same_number_same_url:
  assumes "number_inv H C" "(n, u, e) \<in> H" "(n, u', e') \<in> H"
  shows "u = u'" "same_expiry colt e e'"
  using assms unfolding number_inv_def numbers_def one_link_def by blast+

lemma coll_join: "coll u x \<Longrightarrow> coll u y \<Longrightarrow> coll x y"
  using coll_facts [OF link_store.coll_eq [OF turl_node.store [OF node]]] by metis

text \<open>A link that \<open>Create\<close> has just returned, new or found again, can be retrieved on every node.\<close>

lemma created_links:
  assumes inv: "cluster_inv H C" "number_inv H C" "unique_indexes coll (rows (shared_database C))" and i: "i < length (nodes C)"
    and create: "Create http_url (cs i) clk ctx long ttl (node_world C i) = (Ret m, w)" "expiry_ok (link_expiry (clk 0) ttl)"
  obtains Hc t u where "cluster_inv Hc (put_world i w C)" "number_inv Hc (put_world i w C)" "t \<in> set (rows (database w))" "is_live t"
    "m_ShortURL m = Base58Encode (Short t)" "coll (LongURL t) long" "(Short t, LongURL t, ExpiresAt t) \<in> Hc" "(Short t, u, m_ExpiresAt m) \<in> Hc"
proof -
  let ?n = "fst (seq_Next (cmd_seq (cs i)) ctx (sequence (node_world C i)))"
  let ?H = "H \<union> asked colt ?n long (link_expiry (clk 0) ttl)"
  have valid: "http_url long = None" using create(1) by (cases "http_url long") (simp_all add: Create_def)
  have st: "node_step colt (cs i) (qs i) (H, node_world C i) (?H, w)"
    using node_step.create [of clk ttl colt "cs i" "qs i" H "node_world C i" http_url long ctx] create valid by simp
  have "turl_node.node_inv rows coll rh lh ?H w"
    using turl_node.node_step_inv [OF node st] cluster_inv_node [OF inv(1) i] by simp
  then have ci: "cluster_inv ?H (put_world i w C)" by (rule put_world_inv [OF inv(1) Un_upper1])
  moreover have "number_inv ?H (put_world i w C)" using call_numbers [OF i st] inv(2) unfolding number_inv_def by blast
  moreover obtain t where t: "t \<in> set (rows (database w))" "is_live t" "m_ShortURL m = Base58Encode (Short t)" "coll (LongURL t) long"
    "?n = Ret (Short t) \<and> m_ExpiresAt m = link_expiry (clk 0) ttl \<or> m_ExpiresAt m = ExpiresAt t"
    using Create_rows [OF node _ create(1)] inv(3) unfolding link_expiry_def by auto
  moreover have row: "(Short t, LongURL t, ExpiresAt t) \<in> ?H"
    using ci t(1) unfolding cluster_inv_def shared_good_def by auto
  moreover have "\<exists>u. (Short t, u, m_ExpiresAt m) \<in> ?H" using t(5)
  proof
    assume "?n = Ret (Short t) \<and> m_ExpiresAt m = link_expiry (clk 0) ttl"
    then show ?thesis by (intro exI [of _ long]) (simp add: asked_def)
  qed (use row in auto)
  ultimately show ?thesis using that by blast
qed

lemma created_resolves:
  assumes inv: "cluster_inv H C" "number_inv H C" "unique_indexes coll (rows (shared_database C))" and i: "i < length (nodes C)"
    and create: "Create http_url (cs i) clk ctx long ttl (node_world C i) = (Ret m, w)" "expiry_ok (link_expiry (clk 0) ttl)"
    and follow: "serves qs rs (put_world i w C) q w'" and code: "Base58Decode (m_ShortURL m) = Ret n"
    and early: "\<And>e. same_expiry colt (m_ExpiresAt m) e \<Longrightarrow>
      \<not> isExpired e (clk' 0) \<and> \<not> isExpired e (clk' 1) \<and> 10 \<le> cacheTTL (q_ttl q) e (clk' 2)"
    and calm: "\<And>k s p. fst (Get (q_cache q) k s) \<noteq> Panic p" "\<And>i d p. fst (GetByShortID (q_db q) i d) \<noteq> Panic p"
      "\<And>k v t s p. fst (Set (q_cache q) k v t s) = Panic p \<Longrightarrow> t < 10"
  shows "(\<exists>l. fst (Retrieve q clk' (m_ShortURL m) w') = Ret l \<and> coll l long) \<or>
    (\<exists>err. fst (Retrieve q clk' (m_ShortURL m) w') = Err err \<and>
      (fst (Get (q_cache q) (m_ShortURL m) (redis w', query_local w')) = Err err \<and> \<not> errors_Is err ErrCacheMiss \<or>
       fst (GetByShortID (q_db q) n (database w')) = Err err \<and> \<not> errors_Is err ErrRecordNotFound))"
proof -
  let ?C = "put_world i w C" and ?k = "m_ShortURL m"
  obtain Hc t u where c: "cluster_inv Hc ?C" "number_inv Hc ?C" and t: "t \<in> set (rows (database w))" "is_live t" "?k = Base58Encode (Short t)"
    "coll (LongURL t) long" "(Short t, LongURL t, ExpiresAt t) \<in> Hc" "(Short t, u, m_ExpiresAt m) \<in> Hc"
    by (rule created_links [OF inv i create])
  have n: "Short t = n" using Base58_key [of "Short t" n] code t(3) by simp
  obtain c' :: "('d, 'r, 'l, client \<times> 'q) commandService" where view: "turl_node c' q rows coll colt rh lh" "turl_node.node_inv rows coll rh lh Hc w'" "database w' = database w"
  proof -
    consider j where "j < length (nodes ?C)" "q = qs j" "w' = node_world ?C j" | j where "j < length (readers ?C)" "q = rs j" "w' = reader_world ?C j"
      using follow unfolding serves_def by blast
    then show ?thesis
    proof cases
      case (1 j)
      then show ?thesis using that [of "cs j"] node cluster_inv_node [OF c(1) 1(1)] by simp
    next
      case (2 j)
      then show ?thesis using that [of "cs i"] reader cluster_inv_reader [OF c(1) 2(1)] by simp
    qed
  qed
  have early': "\<not> isExpired e (clk' 0) \<and> \<not> isExpired e (clk' 1) \<and> 10 \<le> cacheTTL (q_ttl q) e (clk' 2)" if "(n, v, e) \<in> Hc" for v e
    using early same_number_same_url(2) [OF c(2) t(6)] that n by blast
  have "coll l long" if ret: "fst (Retrieve q clk' ?k w') = Ret l" for l
  proof -
    obtain v e where v: "(n, v, e) \<in> Hc" "coll v l" using answer_sound [OF c(1) follow ret] code by auto
    have "v = LongURL t" using same_number_same_url(1) [OF c(2) v(1)] t(5) n by blast
    then show ?thesis using coll_join [OF v(2)] t(4) by simp
  qed
  moreover have "t \<in> set (rows (database w'))" using t(1) view(3) by simp
  note live = Retrieve_live [OF view(1,2) this t(2) n code]
  have "(\<exists>l. fst (Retrieve q clk' ?k w') = Ret l) \<or>
    (\<exists>err. fst (Retrieve q clk' ?k w') = Err err \<and>
      (fst (Get (q_cache q) ?k (redis w', query_local w')) = Err err \<and> \<not> errors_Is err ErrCacheMiss \<or>
       fst (GetByShortID (q_db q) n (database w')) = Err err \<and> \<not> errors_Is err ErrRecordNotFound))"
    by (rule live) (use early' calm in blast)+
  ultimately show ?thesis by blast
qed

end

section \<open>A model of a cluster\<close>

text \<open>Nodes on the models of the table, of the caches and of the table of sequences.\<close>

type_synonym demo_cluster =
  "(TinyURL list, string \<rightharpoonup> bytes, string \<rightharpoonup> bytes, (uint64 \<times> int) option) cluster"

definition cluster_command ::
  "nat \<Rightarrow> (TinyURL list, string \<rightharpoonup> bytes, string \<rightharpoonup> bytes, client \<times> (uint64 \<times> int) option) commandService" where
  "cluster_command i = \<lparr>cmd_ttl = 1800 * Second, cmd_db = newStorage list_db, cmd_cache = proxy_iface map_proxy,
     cmd_seq = tddlSequence_iface row_db 0\<rparr>"

interpretation demo_cluster: turl_cluster cluster_command "\<lambda>_. demo_query" "\<lambda>_. demo_query" "\<lambda>rs. rs" "(=)" "\<lambda>t. t"
  "\<lambda>r k v. r k = Some v" "\<lambda>l k v. l k = Some v" row_db row_cell 0 1
proof -
  have node: "turl_node (cluster_command i) demo_query (\<lambda>rs. rs) (=) (\<lambda>t. t) (\<lambda>r k v. r k = Some v) (\<lambda>l k v. l k = Some v)" for i
  proof (rule turl_node.intro)
    show "link_store (cmd_db (cluster_command i)) (\<lambda>rs. rs) (=) (\<lambda>t. t)"
      using list_db.store_contract by (simp add: cluster_command_def)
    show "cache_layer (cmd_cache (cluster_command i)) (\<lambda>s k v. fst s k = Some v \<or> snd s k = Some v)"
      "cache_layer (q_cache demo_query) (\<lambda>s k v. fst s k = Some v \<or> snd s k = Some v)"
      using map_proxy_contract by (simp_all add: cluster_command_def demo_query_def)
  qed (simp_all add: cluster_command_def demo_query_def option.map_ident)
  show "turl_cluster cluster_command (\<lambda>_. demo_query) (\<lambda>_. demo_query) (\<lambda>rs. rs) (=) (\<lambda>t. t)
      (\<lambda>r k v. r k = Some v) (\<lambda>l k v. l k = Some v) row_db row_cell 0"
    by (rule turl_cluster.intro) (simp_all add: node row_db.sequence_table_axioms, simp add: cluster_command_def)
qed

abbreviation demo_run :: "links \<times> demo_cluster \<Rightarrow> links \<times> demo_cluster \<Rightarrow> bool" where
  "demo_run \<equiv> (cluster_step (\<lambda>t. t) (\<lambda>l k v. l k = Some v) row_db 0 1 cluster_command (\<lambda>_. demo_query) (\<lambda>_. demo_query))\<^sup>*\<^sup>*"

fun work :: "'q seq_db \<Rightarrow> int \<Rightarrow> nat \<Rightarrow> client \<times> 'q \<Rightarrow> client \<times> 'q" where
  "work db oor 0 cd = cd"
| "work db oor (Suc n) cd = work db oor n (internal_step db oor (fst cd) (snd cd))"

lemma work_run:
  assumes "i < length (nodes C)"
  shows "(cluster_step colt lh db oor row cs qs rs)\<^sup>*\<^sup>* (H, C)
    (H, C\<lparr>shared_sequence := snd (work db oor n (node_client (nodes C ! i), shared_sequence C)),
          nodes := (nodes C)[i := (nodes C ! i)\<lparr>node_client := fst (work db oor n (node_client (nodes C ! i), shared_sequence C))\<rparr>]\<rparr>)"
  using assms
proof (induction n arbitrary: C)
  case (Suc n)
  obtain cl d' where s: "internal_step db oor (node_client (nodes C ! i)) (shared_sequence C) = (cl, d')" by (metis prod.exhaust)
  let ?C = "C\<lparr>shared_sequence := d', nodes := (nodes C)[i := (nodes C ! i)\<lparr>node_client := cl\<rparr>]\<rparr>"
  have "(cluster_step colt lh db oor row cs qs rs) (H, C) (H, ?C)" using Suc(2) s by (rule cluster_step.worker)
  from converse_rtranclp_into_rtranclp [OF this Suc.IH [of ?C]] show ?case using Suc(2) s by simp
qed simp

definition empty_cluster :: demo_cluster where
  "empty_cluster = \<lparr>shared_database = [], shared_redis = Map.empty, shared_sequence = None, nodes = [], readers = []\<rparr>"

definition demo_node :: "(string \<rightharpoonup> bytes) node" where
  "demo_node = \<lparr>node_write = Map.empty, node_query = Map.empty,
     node_client = \<lparr>self = \<lparr>clientID = ''a'', rowID = 1, tddl_step = 2, tddl_max = 9, tddl_curr = 7, tddl_stop = False,
       rateLimiter = NewItemExponentialFailureRateLimiter retryInterval (60 * Second)\<rparr>, pc = Offering 7\<rparr>,
     node_stats = [], node_closed = False\<rparr>"

definition started_cluster :: demo_cluster where
  "started_cluster = empty_cluster\<lparr>shared_sequence := Some (9, 2), nodes := [demo_node]\<rparr>"

definition joining_client :: client where
  "joining_client = \<lparr>self = (self (node_client demo_node))\<lparr>tddl_max := 0, tddl_curr := 0\<rparr>, pc = Starting RTop\<rparr>"

lemma joining:
  "newSequence row_db ''a'' \<lparr>tddl_Step = 2, tddl_SeqName = ''tiny_url'', tddl_StartNum = 7\<rparr> None = (Ret joining_client, Some (7, 1))"
  by (simp add: newSequence_def getRowID_def createRecord_def row_db_def row_cell_def zero_Sequence_def
      joining_client_def demo_node_def)

lemma first_lease: "work row_db 0 (Suc (Suc (Suc (Suc (Suc 0))))) (joining_client, Some (7, 1)) = (node_client demo_node, Some (9, 2))"
  by (simp add: joining_client_def demo_node_def internal_step_def row_db_def row_cell_def row_struct_def
      renew_return_def exp_Forget_def NewItemExponentialFailureRateLimiter_def)

lemma started: "demo_run ({}, empty_cluster) ({}, started_cluster)"
proof -
  let ?C = "empty_cluster\<lparr>shared_sequence := Some (7, 1), nodes := nodes empty_cluster @ [\<lparr>node_write = Map.empty,
    node_query = Map.empty, node_client = joining_client, node_stats = [], node_closed = False\<rparr>]\<rparr>"
  have "demo_run ({}, empty_cluster) ({}, ?C)"
  proof (rule r_into_rtranclp, rule cluster_step.join)
    show "newSequence row_db ''a'' \<lparr>tddl_Step = 2, tddl_SeqName = ''tiny_url'', tddl_StartNum = 7\<rparr> (shared_sequence empty_cluster) =
      (Ret joining_client, Some (7, 1))" using joining by (simp add: empty_cluster_def)
  qed (simp_all add: joining_client_def demo_node_def)
  moreover have "demo_run ({}, ?C) ({}, started_cluster)"
    using work_run [of 0 ?C "\<lambda>t. t" "\<lambda>l k v. l k = Some v" row_db 0 1 cluster_command "\<lambda>_. demo_query" "\<lambda>_. demo_query" "{}"
      "Suc (Suc (Suc (Suc (Suc 0))))"]
      first_lease by (simp add: started_cluster_def demo_node_def empty_cluster_def)
  ultimately show ?thesis by (rule rtranclp_trans)
qed

definition shared_row :: TinyURL where
  "shared_row = zero_TinyURL\<lparr>Short := 7, LongURL := ''https://a'', ExpiresAt := Some 1000\<rparr>"

definition shared_value :: bytes where
  "shared_value = encodeCacheValue ''https://a'' (Some 1000)"

definition shortened :: "(TinyURL list, string \<rightharpoonup> bytes, string \<rightharpoonup> bytes, client \<times> (uint64 \<times> int) option) world" where
  "shortened = \<lparr>database = [shared_row], redis = [''8'' \<mapsto> shared_value], write_local = [''8'' \<mapsto> shared_value],
     query_local = Map.empty, sequence = (deliver (self (node_client demo_node)), Some (9, 2)), stats = [ShortenCreated],
     janitor_closed = False\<rparr>"

lemma cluster_Next: "seq_Next (cmd_seq (cluster_command i)) (Ctx 1 Canceled) (node_client demo_node, Some (9, 2)) =
    (Ret 7, deliver (self (node_client demo_node)), Some (9, 2))"
  by (simp add: cluster_command_def tddlSequence_iface_def demo_node_def Next_loop.simps)

lemma cluster_Create:
  "Create (\<lambda>_. None) (cluster_command 0) (\<lambda>_. 400) (Ctx 1 Canceled) ''https://a'' 600 (node_world started_cluster 0) =
   (Ret \<lparr>m_ShortURL = ''8'', m_LongURL = ''https://a'', m_CreatedAt = 0, m_DeletedAt = None, m_ExpiresAt = Some 1000\<rparr>, shortened)"
proof -
  have code: "Base58Encode 7 = ''8''" by (simp add: Base58Encode_eq string58_def digits58.simps chars_def)
  have ttl: "cacheTTL (1800 * Second) (Some 1000) 400 = 600" by (simp add: cacheTTL_def Until_def Second_def Let_def)
  have w: "node_world started_cluster 0 = \<lparr>database = [], redis = Map.empty, write_local = Map.empty, query_local = Map.empty,
      sequence = (node_client demo_node, Some (9, 2)), stats = [], janitor_closed = False\<rparr>"
    by (simp add: node_world_def started_cluster_def empty_cluster_def demo_node_def)
  show ?thesis
    unfolding w using cluster_Next [of 0]
    by (simp add: Create_def on_seq_def)
      (simp add: cluster_command_def on_db_def storage_Insert_def list_db_def Let_def zero_TinyURL_def IncShortenCreated_def
        record_metric_def Create_finish_def code ttl on_write_cache_def proxy_Set_def map_proxy_def on_dist_def on_local_def
        redisCache_Set_def localCache_Set_def map_redis_def map_big_def tdiv_def shortened_def shared_row_def shared_value_def)
qed

definition reading_cluster :: demo_cluster where
  "reading_cluster = (put_world 0 shortened started_cluster)\<lparr>readers := [(Map.empty, [])]\<rparr>"

lemma reading_run: "demo_run (H, put_world 0 shortened started_cluster) (H, reading_cluster)"
proof (rule r_into_rtranclp)
  let ?C = "put_world 0 shortened started_cluster"
  have "cluster_step (\<lambda>t. t) (\<lambda>l k v. l k = Some v) row_db 0 1 cluster_command (\<lambda>_. demo_query) (\<lambda>_. demo_query) (H, ?C)
      (H, ?C\<lparr>readers := readers ?C @ [(Map.empty, [])]\<rparr>)"
    by (rule cluster_step.join_readonly) simp
  then show "cluster_step (\<lambda>t. t) (\<lambda>l k v. l k = Some v) row_db 0 1 cluster_command (\<lambda>_. demo_query) (\<lambda>_. demo_query) (H, ?C)
      (H, reading_cluster)"
    by (simp add: reading_cluster_def started_cluster_def empty_cluster_def)
qed

lemma reading_serves: "serves (\<lambda>_. demo_query) (\<lambda>_. demo_query) reading_cluster demo_query (reader_world reading_cluster 0)"
  unfolding serves_def by (auto simp: reading_cluster_def)

lemma reading_answer_at:
  assumes "now < 1000"
  shows "fst (Retrieve demo_query (\<lambda>_. now) ''8'' (reader_world reading_cluster 0)) = Ret ''https://a''"
proof -
  have "decodeCacheValue shared_value = Some (''https://a'', Some 1000)"
    unfolding shared_value_def by (rule decode_encode_ok) (simp add: expiry_ok_def int64_range_def)
  moreover have "shared_value \<noteq> []" by (simp add: shared_value_def encodeCacheValue_def PutUint64_def)
  moreover have "redis (reader_world reading_cluster 0) = [''8'' \<mapsto> shared_value]"
    "query_local (reader_world reading_cluster 0) = Map.empty"
    by (simp_all add: reading_cluster_def shortened_def)
  ultimately show ?thesis
    using assms
    by (simp add: Retrieve_def demo_code fromCache_def on_query_cache_def demo_query_def
        proxy_Get_def map_proxy_def on_local_def on_dist_def localCache_Get_def localCache_Set_def redisCache_Get_def
        map_redis_def map_big_def isExpired_def)
qed

lemmas reading_answer = reading_answer_at [of 500, simplified]

lemma empty_fresh: "fresh_cluster (\<lambda>rs. rs) (=) (\<lambda>r k v. r k = Some v) row_cell 1 empty_cluster"
  by (simp add: fresh_cluster_def empty_cluster_def unique_indexes_def)

lemma empty_links: "table_links (shared_database empty_cluster) = {}"
  by (simp add: table_links_def empty_cluster_def)

section \<open>Runs of whole calls\<close>

text \<open>
  A short link leads where it was made to lead, everywhere and for ever: let any number of nodes and read-only
  nodes share a database, a redis server and a table of sequences, starting from a table whose numbers are below the
  sequence, and let their calls, janitors, sequence workers, joins and stops interleave in any way, with failures of the
  database and of the caches. When \<open>Create\<close> on one node returns a code for a URL, then whatever happens afterwards,
  deletions and the reaping of the row included, whenever any node answers a redirect for that code, it answers that URL
  (up to the collation of the column).
\<close>

lemma link_stable:
  assumes cluster: "turl_cluster cs qs rs rows coll colt rh lh db cell oor"
    and start: "fresh_cluster rows coll rh cell row C0"
    and run: "(cluster_step colt lh db oor row cs qs rs)\<^sup>*\<^sup>* (table_links (rows (shared_database C0)), C0) (H, C)"
    and node: "i < length (nodes C)" "\<And>r. pc (node_client (nodes C ! i)) \<noteq> Starting r"
    and create: "Create http_url (cs i) clk ctx long ttl (node_world C i) = (Ret m, w)" "expiry_ok (link_expiry (clk 0) ttl)"
    and asked: "Hc = H \<union> asked colt (fst (seq_Next (cmd_seq (cs i)) ctx (sequence (node_world C i)))) long (link_expiry (clk 0) ttl)"
    and later: "(cluster_step colt lh db oor row cs qs rs)\<^sup>*\<^sup>* (Hc, put_world i w C) (H2, C2)"
    and follow: "serves qs rs C2 q w'" "fst (Retrieve q clk' (m_ShortURL m) w') = Ret long'"
  shows "coll long long'"
proof -
  note cl = turl_cluster.fresh_run [OF cluster start]
  have valid: "http_url long = None" using create(1) by (cases "http_url long") (simp_all add: Create_def)
  have "node_step colt (cs i) (qs i) (H, node_world C i) (Hc, w)"
    using node_step.create [of clk ttl colt "cs i" "qs i" H "node_world C i" http_url long ctx] create valid asked by simp
  then have "cluster_step colt lh db oor row cs qs rs (H, C) (Hc, put_world i w C)"
    using node by (intro cluster_step.call)
  then have run1: "(cluster_step colt lh db oor row cs qs rs)\<^sup>*\<^sup>* (table_links (rows (shared_database C0)), C0) (Hc, put_world i w C)"
    using run by (rule rtranclp.rtrancl_into_rtrancl [rotated])
  obtain t where t: "t \<in> set (rows (database w))" "m_ShortURL m = Base58Encode (Short t)" "coll (LongURL t) long"
    using Create_rows [OF turl_cluster.node [OF cluster] _ create(1)] cl(3) [OF run] by auto
  have "(Short t, LongURL t, ExpiresAt t) \<in> Hc"
    using cl(1) [OF run1] t(1)
    unfolding turl_cluster.cluster_inv_def [OF cluster] turl_cluster.shared_good_def [OF cluster] by auto
  moreover have "Hc \<subseteq> H2"
    using turl_cluster.run_inv [OF cluster later] cl(1,2) [OF run1] by simp
  moreover have end2: "turl_cluster.cluster_inv rows coll rh lh H2 C2" "turl_cluster.number_inv colt cell row H2 C2"
    using cl(1,2) [OF rtranclp_trans [OF run1 later]] .
  moreover obtain n u e where "Base58Decode (m_ShortURL m) = Ret n" "(n, u, e) \<in> H2" "coll u long'"
    using turl_cluster.answer_sound [OF cluster end2(1) follow] by blast
  ultimately have "u = LongURL t"
    using turl_cluster.same_number_same_url(1) [OF cluster end2(2), of n u e "LongURL t" "ExpiresAt t"] Base58_key t(2) by auto
  then show ?thesis using turl_cluster.coll_join [OF cluster t(3)] \<open>coll u long'\<close> by simp
qed

lemma link_stable_witness:
  "\<exists>m w. Create (\<lambda>_. None) (cluster_command 0) (\<lambda>_. 400) (Ctx 1 Canceled) ''https://a'' 600 (node_world started_cluster 0) = (Ret m, w) \<and>
    (\<exists>u. fst (Retrieve demo_query (\<lambda>_. 500) (m_ShortURL m) (reader_world reading_cluster 0)) = Ret u \<and> ''https://a'' = u)"
proof -
  have run: "demo_run (table_links (shared_database empty_cluster), empty_cluster) ({}, started_cluster)"
    unfolding empty_links by (rule started)
  have "''https://a'' = ''https://a''"
    by (rule link_stable [where clk' = "\<lambda>_. 500", OF demo_cluster.turl_cluster_axioms empty_fresh run _ _ cluster_Create _ refl reading_run reading_serves])
      (simp_all add: reading_answer expiry_ok_def int64_range_def link_expiry_def started_cluster_def demo_node_def)
  then show ?thesis using cluster_Create reading_answer by auto
qed

text \<open>
  A code never changes its target: in a cluster as above, take two redirects of the same number (by the same code
  or by two codes that denote it), on any two nodes and at any two moments of the run. If both are answered, both are
  answered with the same URL, up to collation.
\<close>

lemma code_one_target:
  assumes cluster: "turl_cluster cs qs rs rows coll colt rh lh db cell oor"
    and start: "fresh_cluster rows coll rh cell row C0"
    and run: "(cluster_step colt lh db oor row cs qs rs)\<^sup>*\<^sup>* (table_links (rows (shared_database C0)), C0) (H, C)"
    and first: "serves qs rs C q w" "fst (Retrieve q clk short w) = Ret long"
    and later: "(cluster_step colt lh db oor row cs qs rs)\<^sup>*\<^sup>* (H, C) (H', C')"
    and second: "serves qs rs C' q' w'" "fst (Retrieve q' clk' short' w') = Ret long'"
    and same: "Base58Decode short' = Base58Decode short"
  shows "coll long long'"
proof -
  note cl = turl_cluster.fresh_run [OF cluster start]
  note end2 = cl [OF rtranclp_trans [OF run later]]
  obtain n u e where n: "Base58Decode short = Ret n" "(n, u, e) \<in> H" "coll u long"
    using turl_cluster.answer_sound [OF cluster cl(1) [OF run] first] by blast
  obtain n' u' e' where n': "Base58Decode short' = Ret n'" "(n', u', e') \<in> H'" "coll u' long'"
    using turl_cluster.answer_sound [OF cluster end2(1) second] by blast
  have "H \<subseteq> H'" using turl_cluster.run_inv [OF cluster later] cl(1,2) [OF run] by simp
  then have "u = u'" using turl_cluster.same_number_same_url(1) [OF cluster end2(2), of n u e u' e'] n n' same by auto
  then show ?thesis using turl_cluster.coll_join [OF cluster n(3)] n'(3) by simp
qed

lemma reading_reachable:
  "\<exists>H. demo_run (table_links (shared_database empty_cluster), empty_cluster) (H, reading_cluster)"
proof -
  let ?n = "node_step (\<lambda>t. t) (cluster_command 0) demo_query"
  have "?n ({}, node_world started_cluster 0) ({} \<union> (if (\<lambda>_. None :: goerr option) ''https://a'' = None then asked (\<lambda>t. t)
      (fst (seq_Next (cmd_seq (cluster_command 0)) (Ctx 1 Canceled) (sequence (node_world started_cluster 0)))) ''https://a''
      (link_expiry 400 600) else {}), snd (Create (\<lambda>_. None) (cluster_command 0) (\<lambda>_. 400) (Ctx 1 Canceled) ''https://a'' 600
        (node_world started_cluster 0)))"
    by (rule node_step.create [of "\<lambda>_. 400"]) (simp add: link_expiry_def expiry_ok_def int64_range_def)
  then obtain H where "?n ({}, node_world started_cluster 0) (H, shortened)" unfolding cluster_Create by auto
  then have "demo_run ({}, started_cluster) (H, put_world 0 shortened started_cluster)"
    by (intro r_into_rtranclp cluster_step.call) (simp_all add: started_cluster_def demo_node_def)
  then show ?thesis
    unfolding empty_links using started reading_run by (meson rtranclp_trans)
qed

lemma code_one_target_witness:
  "\<exists>u v. fst (Retrieve demo_query (\<lambda>_. 500) ''8'' (reader_world reading_cluster 0)) = Ret u \<and>
    fst (Retrieve demo_query (\<lambda>_. 600) ''8'' (reader_world reading_cluster 0)) = Ret v \<and> u = v"
proof -
  obtain H where run: "demo_run (table_links (shared_database empty_cluster), empty_cluster) (H, reading_cluster)"
    using reading_reachable by blast
  have later: "fst (Retrieve demo_query (\<lambda>_. 600) ''8'' (reader_world reading_cluster 0)) = Ret ''https://a''"
    using reading_answer_at [of 600] by simp
  show ?thesis
    using code_one_target [OF demo_cluster.turl_cluster_axioms empty_fresh run reading_serves reading_answer
        rtranclp.rtrancl_refl reading_serves later refl] reading_answer later by simp
qed

section \<open>Properties\<close>

text \<open>
  C8. What \<open>newService\<close> builds is a cluster: take any number of services that it has built from configurations that are not read-only and any
  number that it has built from any configurations, on one table of links and one table of sequences, with redis servers that keep one
  contract and bigcaches that keep theirs. Then the command and query parts of the former and the query parts of the
  latter satisfy the contract of a cluster, from which the properties of clusters follow.
\<close>

theorem deployed_cluster:
  assumes nodes: "\<And>i. newService (env i) (cfg i) = Some (Ret (sv i, w i))" "\<And>i. \<not> Readonly (cfg i)"
    and readers: "\<And>j. newService (renv j) (rcfg j) = Some (Ret (rv j, rw j))"
    and shared: "\<And>i. link_table (env i) = T \<and> seq_table (env i) = Q \<and> conv_oor (env i) = oor" "\<And>j. link_table (renv j) = T"
    and tables: "tiny_urls_table T rows coll colt" "sequence_table Q cell" "\<And>e. expiry_ok e \<Longrightarrow> expiry_ok (map_option colt e)"
    and redis: "\<And>i rc. redis_server (redis_Client (env i) rc) stored (rand_IntN (env i))"
      "\<And>j rc. redis_server (redis_Client (renv j) rc) stored (rand_IntN (renv j))"
    and big: "\<And>i bc b l. bigcache_New (env i) bc = Inr (b, l) \<Longrightarrow> local_store b entries"
      "\<And>j bc b l. bigcache_New (renv j) bc = Inr (b, l) \<Longrightarrow> local_store b entries"
  shows "turl_cluster (\<lambda>i. the (commandPart (sv i))) (\<lambda>i. the (queryPart (sv i))) (\<lambda>j. the (queryPart (rv j))) rows coll colt
    (\<lambda>r k v. stored (fst r) k = Some v) (\<lambda>l k v. entries (fst l) k = Some v) Q cell oor"
proof (rule turl_cluster.intro)
  fix i j
  have c: "commandPart (sv i) = Some (the (commandPart (sv i)))" using newService_parts(2) [OF nodes(1)] nodes(2) by auto
  have q: "queryPart (sv i) = Some (the (queryPart (sv i)))" "queryPart (rv j) = Some (the (queryPart (rv j)))"
    using newService_parts(1) [OF nodes(1)] newService_parts(1) [OF readers] by auto
  have t: "tiny_urls_table (link_table (env i)) rows coll colt" "link_table (renv j) = link_table (env i)" using tables(1) shared by simp_all
  show "turl_node (the (commandPart (sv i))) (the (queryPart (sv i))) rows coll colt
      (\<lambda>r k v. stored (fst r) k = Some v) (\<lambda>l k v. entries (fst l) k = Some v)"
    by (rule newService_pair [OF nodes(1) nodes(1) c q(1) refl t(1) redis(1) redis(1) big(1) big(1) tables(3)])
  show "turl_node (the (commandPart (sv i))) (the (queryPart (rv j))) rows coll colt
      (\<lambda>r k v. stored (fst r) k = Some v) (\<lambda>l k v. entries (fst l) k = Some v)"
    by (rule newService_pair [OF nodes(1) readers c q(2) t(2,1) redis big tables(3)])
  show "cmd_seq (the (commandPart (sv i))) = tddlSequence_iface Q oor"
    using newService_parts(5) [OF nodes(1) c] shared(1) [of i] by simp
qed (rule tables(2))

theorem deployed_cluster_witness:
  "\<exists>s w r v. newService demo_env (example_config\<lparr>Cache := Some example_cache_config\<rparr>) = Some (Ret (s, w)) \<and>
    newService demo_env (example_config\<lparr>Cache := Some example_cache_config, Readonly := True\<rparr>) = Some (Ret (r, v)) \<and>
    turl_cluster (\<lambda>i. the (commandPart s)) (\<lambda>i. the (queryPart s)) (\<lambda>j. the (queryPart r)) (\<lambda>rs. rs) (=) (\<lambda>t. t)
      (\<lambda>r k v. fst r k = Some v) (\<lambda>l k v. fst l k = Some v) row_db row_cell 0"
proof -
  let ?c = "example_config\<lparr>Cache := Some example_cache_config\<rparr>"
  obtain s w where s: "newService demo_env ?c = Some (Ret (s, w))" using demo_newService [of ?c] by (auto simp: example_config_def)
  obtain r v where r: "newService demo_env (?c\<lparr>Readonly := True\<rparr>) = Some (Ret (r, v))"
    using demo_newService [of "?c\<lparr>Readonly := True\<rparr>"] by (auto simp: example_config_def)
  have "turl_cluster (\<lambda>i. the (commandPart s)) (\<lambda>i. the (queryPart s)) (\<lambda>j. the (queryPart r)) (\<lambda>rs. rs) (=) (\<lambda>t. t)
      (\<lambda>r k v. fst r k = Some v) (\<lambda>l k v. fst l k = Some v) row_db row_cell 0"
    by (rule deployed_cluster [OF s _ r, where T = list_db and stored = "\<lambda>r. r" and entries = "\<lambda>l. l"])
      (use list_db.tiny_urls_table_axioms map_redis.redis_server_axioms map_big.local_store_axioms row_db.sequence_table_axioms
        in \<open>auto simp: demo_env_def example_config_def option.map_ident\<close>)
  with s r show ?thesis by auto
qed

end
