(* ===== verification/Requests.thy ===== *)
theory Requests
  imports Cluster
begin

text \<open>
  The calls of the services as the code runs them, in goroutines of their own: between two calls on the cache, the table or
  the sequence, any other request of any node may run. The methods \<open>Create\<close>, \<open>Delete\<close> and \<open>Retrieve\<close> of
  \<open>app/turl/service.go\<close> are cut at these calls. What a call has done and holds in its variables is its position, and a
  step of a call is what it does up to its next call on a component. \<open>GetByLong\<close> and a tick of the janitor make one such call and
  the pings of the health checks keep all state that matters, so they stay as they are in \<open>Cluster\<close>.

  The first part shows that a call that is not interrupted does exactly what the function of \<open>Service\<close> does. The second is the
  interleaving of any number of calls with the steps of a cluster, and its invariants: what is known of a call at its position, which
  numbers are drawn and not yet used, and which rows stay. The properties are in \<open>Interleaving\<close>.
\<close>

section \<open>The positions of a call\<close>

datatype retrieve_pc = RLookup | RRow uint64 | RFill TinyURL | RDone "bytes outcome"

datatype create_pc = CNext | CInsert uint64 | CFind | CCache uint64 TinyURL | CDone "TinyURL_model outcome"

datatype delete_pc = DRow | DCache | DDone "unit outcome"

section \<open>The steps of a call\<close>

text \<open>The reading of the clock is that of the step.\<close>

fun retrieve_step ::
  "('d, 'r, 'l) queryService \<Rightarrow> bytes \<Rightarrow> time \<Rightarrow> retrieve_pc \<Rightarrow> ('d, 'r, 'l, 's) world \<Rightarrow> retrieve_pc \<times> ('d, 'r, 'l, 's) world" where
  "retrieve_step q short now RLookup w =
     (case Base58Decode short of
        Err err \<Rightarrow> (RDone (Err err), w)
      | Panic p \<Rightarrow> (RDone (Panic p), w)
      | Ret seq \<Rightarrow>
          (case fromCache q now short w of
             (Err err, w1) \<Rightarrow> (RDone (Err err), w1)
           | (Panic p, w1) \<Rightarrow> (RDone (Panic p), w1)
           | (Ret (Some long), w1) \<Rightarrow> (RDone (Ret long), w1)
           | (Ret None, w1) \<Rightarrow> (RRow seq, w1)))"
| "retrieve_step q short now (RRow seq) w =
     (case on_db (GetByShortID (q_db q) seq) w of
        (Err err, w2) \<Rightarrow> (RDone (Err err), w2)
      | (Panic p, w2) \<Rightarrow> (RDone (Panic p), w2)
      | (Ret res, w2) \<Rightarrow> if isExpired (ExpiresAt res) now then (RDone (Err ErrExpired), w2) else (RFill res, w2))"
| "retrieve_step q short now (RFill res) w =
     (case on_query_cache (Set (q_cache q) short (encodeCacheValue (LongURL res) (ExpiresAt res))
             (cacheTTL (q_ttl q) (ExpiresAt res) now)) w of
        (Panic p, w3) \<Rightarrow> (RDone (Panic p), w3)
      | (_, w3) \<Rightarrow> (RDone (Ret (LongURL res)), w3))"
| "retrieve_step q short now (RDone x) w = (RDone x, w)"

fun create_step ::
  "(bytes \<Rightarrow> goerr option) \<Rightarrow> ('d, 'r, 'l, 's) commandService \<Rightarrow> ctx \<Rightarrow> bytes \<Rightarrow> duration \<Rightarrow> time \<Rightarrow> create_pc \<Rightarrow>
   ('d, 'r, 'l, 's) world \<Rightarrow> create_pc \<times> ('d, 'r, 'l, 's) world" where
  "create_step http_url c ctx long ttl now CNext w =
     (case http_url long of
        Some err \<Rightarrow> (CDone (Err err), w)
      | None \<Rightarrow>
          (case on_seq (seq_Next (cmd_seq c) ctx) w of
             (Err err, w1) \<Rightarrow> (CDone (Err (Wrapped ''failed to generate sequence'' err)), w1)
           | (Panic p, w1) \<Rightarrow> (CDone (Panic p), w1)
           | (Ret seq, w1) \<Rightarrow> (CInsert seq, w1)))"
| "create_step http_url c ctx long ttl now (CInsert seq) w =
     (let expiresAt = (if ttl > 0 then Some (now + ttl) else None) in
      (case on_db (Insert (cmd_db c) seq long expiresAt) w of
         (Panic p, w2) \<Rightarrow> (CDone (Panic p), w2)
       | (Ret record, w2) \<Rightarrow> (CCache seq record, IncShortenCreated w2)
       | (Err err, w2) \<Rightarrow>
           if errors_Is err ErrDuplicatedKey then (CFind, w2)
           else (CDone (Err (Wrapped ''failed to insert into db'' err)), w2)))"
| "create_step http_url c ctx long ttl now CFind w =
     (case on_db (GetByLongURL (cmd_db c) long) w of
        (Err err, w3) \<Rightarrow> (CDone (Err (Wrapped ''failed to get from db'' err)), w3)
      | (Panic p, w3) \<Rightarrow> (CDone (Panic p), w3)
      | (Ret record, w3) \<Rightarrow> (CCache (Short record) record, w3))"
| "create_step http_url c ctx long ttl now (CCache seq record) w =
     (case Create_finish c now long seq record w of (x, w') \<Rightarrow> (CDone x, w'))"
| "create_step http_url c ctx long ttl now (CDone x) w = (CDone x, w)"

fun delete_step ::
  "('d, 'r, 'l, 's) commandService \<Rightarrow> bytes \<Rightarrow> delete_pc \<Rightarrow> ('d, 'r, 'l, 's) world \<Rightarrow> delete_pc \<times> ('d, 'r, 'l, 's) world" where
  "delete_step c short DRow w =
     (case Base58Decode short of
        Err err \<Rightarrow> (DDone (Err err), w)
      | Panic p \<Rightarrow> (DDone (Panic p), w)
      | Ret seq \<Rightarrow>
          (case on_db (Delete (cmd_db c) seq) w of
             (Ret _, w1) \<Rightarrow> (DCache, w1)
           | (Err err, w1) \<Rightarrow> (DDone (Err err), w1)
           | (Panic p, w1) \<Rightarrow> (DDone (Panic p), w1)))"
| "delete_step c short DCache w = (case on_write_cache (Del (cmd_cache c) short) w of (x, w') \<Rightarrow> (DDone x, w'))"
| "delete_step c short (DDone x) w = (DDone x, w)"

section \<open>Calls that are not interrupted\<close>

text \<open>The steps of a call in a row, with a reading of the clock for each.\<close>

fun in_a_row :: "(time \<Rightarrow> 'p \<Rightarrow> 'w \<Rightarrow> 'p \<times> 'w) \<Rightarrow> time list \<Rightarrow> 'p \<Rightarrow> 'w \<Rightarrow> 'p \<times> 'w" where
  "in_a_row st [] p w = (p, w)"
| "in_a_row st (t # ts) p w = (case st t p w of (p', w') \<Rightarrow> in_a_row st ts p' w')"

lemma retrieve_in_a_row:
  "in_a_row (retrieve_step q short) [clk 0, clk 1, clk 2] RLookup w = apfst RDone (Retrieve q clk short w)"
  by (auto simp: Retrieve_def numeral_2_eq_2 split: outcome.splits prod.splits option.splits)

lemma create_in_a_row:
  "in_a_row (create_step http_url c ctx long ttl) [t, clk 0, t', clk 1] CNext w = apfst CDone (Create http_url c clk ctx long ttl w) \<or>
   in_a_row (create_step http_url c ctx long ttl) [t, clk 0, clk 1] CNext w = apfst CDone (Create http_url c clk ctx long ttl w)"
proof (cases "http_url long")
  case None
  obtain x w1 where x: "on_seq (seq_Next (cmd_seq c) ctx) w = (x, w1)" by (metis prod.exhaust)
  show ?thesis
  proof (cases x)
    case (Ret n)
    obtain y w2 where y: "on_db (Insert (cmd_db c) n long (if ttl > 0 then Some (clk 0 + ttl) else None)) w1 = (y, w2)"
      by (metis prod.exhaust)
    obtain z w3 where z: "on_db (GetByLongURL (cmd_db c) long) w2 = (z, w3)" by (metis prod.exhaust)
    show ?thesis
      using None x Ret y z
      by (cases y; cases z) (simp_all add: Create_def Let_def apfst_def map_prod_def split: prod.split)
  qed (use None x in \<open>simp_all add: Create_def\<close>)
qed (simp add: Create_def)

lemma delete_in_a_row:
  "in_a_row (\<lambda>_. delete_step c short) [t, t'] DRow w = apfst DDone (Delete_link c short w)"
  by (auto simp: Delete_link_def split: outcome.splits prod.splits)

section \<open>Calls that interleave\<close>

text \<open>
  A call that was begun, with its arguments and its position, and where it runs: on a node or on a read-only node. The validator
  and the context of a call of \<open>Create\<close> are its own.
\<close>

datatype call =
    Creating "bytes \<Rightarrow> goerr option" ctx bytes duration create_pc
  | Deleting bytes delete_pc
  | Retrieving bytes retrieve_pc

datatype site = AtNode nat | AtReader nat

fun advance ::
  "('d, 'r, 'l, 's) commandService \<Rightarrow> ('d, 'r, 'l) queryService \<Rightarrow> time \<Rightarrow> call \<Rightarrow> ('d, 'r, 'l, 's) world \<Rightarrow> call \<times> ('d, 'r, 'l, 's) world" where
  "advance c q now (Creating http_url ctx long ttl p) w = apfst (Creating http_url ctx long ttl) (create_step http_url c ctx long ttl now p w)"
| "advance c q now (Deleting short p) w = apfst (Deleting short) (delete_step c short p w)"
| "advance c q now (Retrieving short p) w = apfst (Retrieving short) (retrieve_step q short now p w)"

fun begun :: "call \<Rightarrow> bool" where
  "begun (Creating http_url ctx long ttl p) = (p = CNext)"
| "begun (Deleting short p) = (p = DRow)"
| "begun (Retrieving short p) = (p = RLookup)"

fun steps_left :: "call \<Rightarrow> nat" where
  "steps_left (Creating http_url ctx long ttl p) = (case p of CNext \<Rightarrow> 4 | CInsert _ \<Rightarrow> 3 | CFind \<Rightarrow> 2 | CCache _ _ \<Rightarrow> 1 | CDone _ \<Rightarrow> 0)"
| "steps_left (Deleting short p) = (case p of DRow \<Rightarrow> 2 | DCache \<Rightarrow> 1 | DDone _ \<Rightarrow> 0)"
| "steps_left (Retrieving short p) = (case p of RLookup \<Rightarrow> 3 | RRow _ \<Rightarrow> 2 | RFill _ \<Rightarrow> 1 | RDone _ \<Rightarrow> 0)"

text \<open>The number a call has drawn and not yet used, and the link it asks for in its next step.\<close>

fun drawn :: "call \<Rightarrow> uint64 option" where
  "drawn (Creating http_url ctx long ttl (CInsert n)) = Some n"
| "drawn _ = None"

fun asking :: "(time \<Rightarrow> time) \<Rightarrow> time \<Rightarrow> call \<Rightarrow> links" where
  "asking colt now (Creating http_url ctx long ttl (CInsert n)) = asked colt (Ret n) long (link_expiry now ttl)"
| "asking colt now _ = {}"

fun expiry_fits :: "time \<Rightarrow> call \<Rightarrow> bool" where
  "expiry_fits now (Creating http_url ctx long ttl (CInsert n)) = expiry_ok (link_expiry now ttl)"
| "expiry_fits now _ = True"

text \<open>
  A step of a cluster with its calls: a call begins, a call makes its next step, or the cluster makes a step of its own, among them
  the steps of the janitors and of the workers of the sequence clients. The list keeps the calls that are done.
\<close>

inductive busy_step ::
  "(time \<Rightarrow> time) \<Rightarrow> ('l \<Rightarrow> string \<Rightarrow> bytes \<Rightarrow> bool) \<Rightarrow> 'q seq_db \<Rightarrow> int \<Rightarrow> nat \<Rightarrow>
   (nat \<Rightarrow> ('d, 'r, 'l, client \<times> 'q) commandService) \<Rightarrow> (nat \<Rightarrow> ('d, 'r, 'l) queryService) \<Rightarrow> (nat \<Rightarrow> ('d, 'r, 'l) queryService) \<Rightarrow>
   links \<times> ('d, 'r, 'l, 'q) cluster \<times> (site \<times> call) list \<Rightarrow> links \<times> ('d, 'r, 'l, 'q) cluster \<times> (site \<times> call) list \<Rightarrow> bool"
  for colt lh db oor row cs qs rs where
  begin_node: "i < length (nodes C) \<Longrightarrow> (\<And>r. pc (node_client (nodes C ! i)) \<noteq> Starting r) \<Longrightarrow> begun x \<Longrightarrow>
    busy_step colt lh db oor row cs qs rs (H, C, A) (H, C, A @ [(AtNode i, x)])"
| begin_reader: "j < length (readers C) \<Longrightarrow>
    busy_step colt lh db oor row cs qs rs (H, C, A) (H, C, A @ [(AtReader j, Retrieving short RLookup)])"
| at_node: "k < length A \<Longrightarrow> A ! k = (AtNode i, x) \<Longrightarrow> i < length (nodes C) \<Longrightarrow> expiry_fits now x \<Longrightarrow>
    advance (cs i) (qs i) now x (node_world C i) = (x', w) \<Longrightarrow>
    busy_step colt lh db oor row cs qs rs (H, C, A) (H \<union> asking colt now x, put_world i w C, A[k := (AtNode i, x')])"
| at_reader: "k < length A \<Longrightarrow> A ! k = (AtReader j, Retrieving short p) \<Longrightarrow> j < length (readers C) \<Longrightarrow>
    retrieve_step (rs j) short now p (reader_world C j) = (p', w) \<Longrightarrow>
    busy_step colt lh db oor row cs qs rs (H, C, A) (H, put_reader j w C, A[k := (AtReader j, Retrieving short p')])"
| cluster: "cluster_step colt lh db oor row cs qs rs (H, C) (H', C') \<Longrightarrow>
    busy_step colt lh db oor row cs qs rs (H, C, A) (H', C', A)"

text \<open>
  The same steps with the labels of \<open>Cluster\<close>: the insertion of a row by \<open>Create\<close> and its deletion by \<open>Delete\<close> are labelled as the calls they
  are, and the other steps of a call leave the table alone.
\<close>

fun call_act :: "(time \<Rightarrow> time) \<Rightarrow> ('d, 'r, 'l, 's) commandService \<Rightarrow> time \<Rightarrow> call \<Rightarrow> 'd \<Rightarrow> act" where
  "call_act colt c now (Creating http_url ctx long ttl (CInsert n)) d = insert_act colt c n long (link_expiry now ttl) d"
| "call_act colt c now (Deleting short DRow) d = delete_act c short d"
| "call_act colt c now _ d = Quiet"

inductive busy_act ::
  "(time \<Rightarrow> time) \<Rightarrow> ('l \<Rightarrow> string \<Rightarrow> bytes \<Rightarrow> bool) \<Rightarrow> 'q seq_db \<Rightarrow> int \<Rightarrow> nat \<Rightarrow>
   (nat \<Rightarrow> ('d, 'r, 'l, client \<times> 'q) commandService) \<Rightarrow> (nat \<Rightarrow> ('d, 'r, 'l) queryService) \<Rightarrow> (nat \<Rightarrow> ('d, 'r, 'l) queryService) \<Rightarrow> act \<Rightarrow>
   links \<times> ('d, 'r, 'l, 'q) cluster \<times> (site \<times> call) list \<Rightarrow> links \<times> ('d, 'r, 'l, 'q) cluster \<times> (site \<times> call) list \<Rightarrow> bool"
  for colt lh db oor row cs qs rs where
  begin_node: "i < length (nodes C) \<Longrightarrow> (\<And>r. pc (node_client (nodes C ! i)) \<noteq> Starting r) \<Longrightarrow> begun x \<Longrightarrow>
    busy_act colt lh db oor row cs qs rs Quiet (H, C, A) (H, C, A @ [(AtNode i, x)])"
| begin_reader: "j < length (readers C) \<Longrightarrow>
    busy_act colt lh db oor row cs qs rs Quiet (H, C, A) (H, C, A @ [(AtReader j, Retrieving short RLookup)])"
| at_node: "k < length A \<Longrightarrow> A ! k = (AtNode i, x) \<Longrightarrow> i < length (nodes C) \<Longrightarrow> expiry_fits now x \<Longrightarrow>
    advance (cs i) (qs i) now x (node_world C i) = (x', w) \<Longrightarrow>
    busy_act colt lh db oor row cs qs rs (call_act colt (cs i) now x (shared_database C)) (H, C, A)
      (H \<union> asking colt now x, put_world i w C, A[k := (AtNode i, x')])"
| at_reader: "k < length A \<Longrightarrow> A ! k = (AtReader j, Retrieving short p) \<Longrightarrow> j < length (readers C) \<Longrightarrow>
    retrieve_step (rs j) short now p (reader_world C j) = (p', w) \<Longrightarrow>
    busy_act colt lh db oor row cs qs rs Quiet (H, C, A) (H, put_reader j w C, A[k := (AtReader j, Retrieving short p')])"
| cluster: "cluster_act colt lh db oor row cs qs rs a (H, C) (H', C') \<Longrightarrow>
    busy_act colt lh db oor row cs qs rs a (H, C, A) (H', C', A)"

lemma busy_act_step: "busy_act colt lh db oor row cs qs rs a X Y \<Longrightarrow> busy_step colt lh db oor row cs qs rs X Y"
  by (induction rule: busy_act.induct) (auto intro: busy_step.intros dest: cluster_act_step)

lemma busy_step_act:
  assumes "busy_step colt lh db oor row cs qs rs X Y"
  shows "\<exists>a. busy_act colt lh db oor row cs qs rs a X Y"
  using assms
proof (induction rule: busy_step.induct)
  case (cluster H C H' C' A)
  then show ?case using cluster_step_act [OF cluster] by (blast intro: busy_act.cluster)
qed (blast intro: busy_act.intros)+

section \<open>What a step of a call keeps\<close>

lemma create_step_sequence: "create_step http_url c ctx long ttl now p w = (p', w') \<Longrightarrow> p \<noteq> CNext \<Longrightarrow> sequence w' = sequence w"
  by (cases p; auto simp: Create_finish_def on_write_cache_def on_db_def Let_def IncShortenCreated_def record_metric_def
      split: prod.splits outcome.splits if_splits)

lemma create_step_drawn: "create_step http_url c ctx long ttl now p w = (p', w') \<Longrightarrow> p \<noteq> CNext \<Longrightarrow> drawn (Creating http_url ctx long ttl p') = None"
  by (cases p; auto simp: Let_def split: prod.splits outcome.splits if_splits)

lemma delete_step_sequence: "delete_step c short p w = (p', w') \<Longrightarrow> sequence w' = sequence w"
  by (cases p; auto simp: on_write_cache_def on_db_def split: prod.splits outcome.splits)

lemma retrieve_step_sequence: "retrieve_step q short now p w = (p', w') \<Longrightarrow> sequence w' = sequence w"
  by (cases p; auto simp: fromCache_def on_query_cache_def on_db_def split: prod.splits outcome.splits option.splits if_splits)

text \<open>What is known of a call at its position, for the set of the links asked for so far.\<close>

fun call_ok :: "(bytes \<Rightarrow> bytes \<Rightarrow> bool) \<Rightarrow> links \<Rightarrow> call \<Rightarrow> bool" where
  "call_ok coll H (Retrieving short (RRow n)) = (Base58Decode short = Ret n)"
| "call_ok coll H (Retrieving short (RFill t)) = (Base58Decode short = Ret (Short t) \<and> (Short t, LongURL t, ExpiresAt t) \<in> H)"
| "call_ok coll H (Retrieving short (RDone (Ret l))) = (\<exists>n u e. Base58Decode short = Ret n \<and> (n, u, e) \<in> H \<and> coll u l)"
| "call_ok coll H (Creating http_url ctx long ttl (CCache n t)) = (\<exists>u. (n, u, ExpiresAt t) \<in> H \<and> coll u long)"
| "call_ok coll H (Creating http_url ctx long ttl (CDone (Ret m))) =
     (\<exists>n u e. m_ShortURL m = Base58Encode n \<and> (n, u, e) \<in> H \<and> coll u long)"
| "call_ok coll H _ = True"

lemma call_ok_mono: "call_ok coll H x \<Longrightarrow> H \<subseteq> H' \<Longrightarrow> call_ok coll H' x"
  by (cases "(coll, H, x)" rule: call_ok.cases) auto

lemma begun_ok: "begun x \<Longrightarrow> call_ok coll H x \<and> drawn x = None"
  by (cases x) auto

context turl_node begin

lemma retrieve_step_ok:
  assumes inv: "node_inv H w" and ok: "call_ok coll H (Retrieving short p)" and st: "retrieve_step q short now p w = (p', w')"
  shows "node_inv H w' \<and> call_ok coll H (Retrieving short p') \<and> rows (database w') = rows (database w)"
proof (cases p)
  case RLookup
  show ?thesis
  proof (cases "Base58Decode short")
    case (Ret n)
    obtain x w1 where x: "fromCache q now short w = (x, w1)" by (metis prod.exhaust)
    have "database w1 = database w" using fromCache_state [of now short w] x by simp
    moreover have "\<exists>u. (\<exists>e. (n, u, e) \<in> H) \<and> coll u l" if "x = Ret (Some l)" for l
      using fromCache_hit [OF inv, of now short l n] x Ret that by auto
    ultimately show ?thesis
      using st RLookup Ret x fromCache_inv [OF inv, of now short] by (cases x) (auto split: option.splits, blast)
  qed (use st RLookup inv in auto)
next
  case (RRow n)
  obtain y d where y: "GetByShortID (cmd_db c) n (database w) = (y, d)" by (metis prod.exhaust)
  have same: "rows d = rows (database w)" using link_store.short_rows [OF store, of n "database w"] y by simp
  then have inv2: "node_inv H (w\<lparr>database := d\<rparr>)" by (intro node_inv_shrink [OF inv]) simp_all
  show ?thesis
  proof (cases y)
    case (Ret t)
    have "t \<in> set (rows (database w))" "Short t = n" using link_store.short_ok [OF store, of n "database w" t] y Ret by simp_all
    then have "(Short t, LongURL t, ExpiresAt t) \<in> H" "Short t = n" using inv by (auto simp: node_inv_def)
    then show ?thesis using st RRow ok y Ret inv2 same same_store by (auto simp: on_db_def split: if_splits)
  qed (use st RRow y inv2 same same_store in \<open>auto simp: on_db_def\<close>)
next
  case (RFill t)
  let ?set = "on_query_cache (Set (q_cache q) short (encodeCacheValue (LongURL t) (ExpiresAt t)) (cacheTTL (q_ttl q) (ExpiresAt t) now)) w"
  have "good H short (encodeCacheValue (LongURL t) (ExpiresAt t))"
    using ok RFill unfolding good_def by (auto intro: coll_refl)
  then have "node_inv H (snd ?set)" by (intro node_inv_add [OF inv _ held_query_set]) simp_all
  moreover have "w' = snd ?set" "(\<exists>m. p' = RDone (Panic m)) \<or> p' = RDone (Ret (LongURL t))"
    using st RFill by (cases ?set; auto simp del: on_part_simps split: outcome.splits)+
  moreover from this have "call_ok coll H (Retrieving short p')" using ok RFill coll_refl by (elim disjE exE) (simp, force)
  ultimately show ?thesis by simp
qed (use inv ok st in auto)

lemma delete_step_ok:
  assumes inv: "node_inv H w" and st: "delete_step c short p w = (p', w')"
  shows "node_inv H w' \<and> rows_act coll colt (call_act colt c now (Deleting short p) (database w)) (rows (database w)) (rows (database w'))"
proof (cases p)
  case DRow
  show ?thesis
  proof (cases "Base58Decode short")
    case (Ret n)
    have "w' = snd (on_db (Delete (cmd_db c) n) w)"
      using st DRow Ret by (cases "on_db (Delete (cmd_db c) n) w") (auto simp del: on_part_simps split: outcome.splits)
    then show ?thesis
      using delete_rows_inv [OF inv, of n] Delete_rows_act [of n "database w"] DRow Ret
      by (simp add: delete_act_def del: rows_act.simps)
  qed (use st DRow inv in \<open>auto simp: delete_act_def\<close>)
next
  case DCache
  have "node_inv H (snd (on_write_cache (Del (cmd_cache c) short) w))" by (rule node_inv_shrink [OF inv _ held_write_del]) simp_all
  then show ?thesis using st DCache by (auto simp: on_write_cache_def split: prod.splits)
qed (use inv st in auto)

lemma insert_step_ok:
  assumes inv: "node_inv H w" and e: "expiry_ok (link_expiry now ttl)"
    and st: "create_step http_url c ctx long ttl now (CInsert n) w = (p', w')"
  shows "node_inv (H \<union> asked colt (Ret n) long (link_expiry now ttl)) w' \<and>
    call_ok coll (H \<union> asked colt (Ret n) long (link_expiry now ttl)) (Creating http_url ctx long ttl p') \<and>
    rows_act coll colt (insert_act colt c n long (link_expiry now ttl) (database w)) (rows (database w)) (rows (database w'))"
proof -
  let ?H = "H \<union> {(n, long, link_expiry now ttl), (n, long, map_option colt (link_expiry now ttl))}"
  obtain y d where y: "Insert (cmd_db c) n long (link_expiry now ttl) (database w) = (y, d)" by (metis prod.exhaust)
  have inv2: "node_inv ?H (w\<lparr>database := d\<rparr>)" using insert_inv [OF inv e, of n long] y by simp
  then have inv3: "node_inv ?H (IncShortenCreated (w\<lparr>database := d\<rparr>))"
    by (rule node_inv_shrink) (simp_all add: IncShortenCreated_def record_metric_def)
  have "rows_act coll colt (insert_act colt c n long (link_expiry now ttl) (database w)) (rows (database w)) (rows d)"
    using Insert_rows_act [of n long "link_expiry now ttl" "database w"] y by simp
  moreover have "(n, long, ExpiresAt t) \<in> ?H" if "y = Ret t" for t
    using link_store.insert_ok [OF store, of n long "link_expiry now ttl" "database w" t] y that by (auto simp: new_row_def)
  ultimately show ?thesis
    using st y inv2 inv3
    by (cases y) (auto simp: on_db_def Let_def link_expiry_def asked_def IncShortenCreated_def record_metric_def split: if_splits intro!: exI [of _ long])
qed

lemma create_step_ok:
  assumes inv: "node_inv H w" and ok: "call_ok coll H (Creating http_url ctx long ttl p)" and other: "\<And>n. p \<noteq> CInsert n"
    and st: "create_step http_url c ctx long ttl now p w = (p', w')"
  shows "node_inv H w' \<and> call_ok coll H (Creating http_url ctx long ttl p') \<and> rows (database w') = rows (database w)"
proof (cases p)
  case CNext
  show ?thesis
  proof (cases "http_url long")
    case None
    obtain x s where x: "seq_Next (cmd_seq c) ctx (sequence w) = (x, s)" by (metis prod.exhaust)
    have "node_inv H (w\<lparr>sequence := s\<rparr>)" using inv by (rule node_inv_shrink) simp_all
    then show ?thesis using st CNext None x by (cases x) (auto simp: on_seq_def)
  qed (use st CNext inv in auto)
next
  case CFind
  obtain y d where y: "GetByLongURL (cmd_db c) long (database w) = (y, d)" by (metis prod.exhaust)
  have same: "rows d = rows (database w)" using link_store.long_rows [OF store, of long "database w"] y by simp
  then have inv2: "node_inv H (w\<lparr>database := d\<rparr>)" by (intro node_inv_shrink [OF inv]) simp_all
  have "(Short t, LongURL t, ExpiresAt t) \<in> H" "coll (LongURL t) long" if "y = Ret t" for t
    using link_store.long_ok [OF store, of long "database w" t] y that inv by (auto simp: node_inv_def)
  then show ?thesis using st CFind y inv2 same by (cases y) (auto simp: on_db_def)
next
  case (CCache n t)
  then obtain u where u: "(n, u, ExpiresAt t) \<in> H" "coll u long" using ok by auto
  have w': "w' = snd (Create_finish c now long n t w)" "p' = CDone (fst (Create_finish c now long n t w))"
    using st CCache by (auto split: prod.splits)
  have "m_ShortURL m = Base58Encode n" if "fst (Create_finish c now long n t w) = Ret m" for m
    using that by (auto simp: Create_finish_def Let_def split: prod.splits outcome.splits)
  then show ?thesis
    using finish_inv [OF inv u, of now] u w' by (cases "fst (Create_finish c now long n t w)") auto
qed (use inv ok st other in auto)

text \<open>A step of a call on a node.\<close>

lemma advance_ok:
  assumes inv: "node_inv H w" and ok: "call_ok coll H x" and e: "expiry_fits now x" and st: "advance c q now x w = (x', w')"
  shows "node_inv (H \<union> asking colt now x) w' \<and> call_ok coll (H \<union> asking colt now x) x' \<and>
    rows_act coll colt (call_act colt c now x (database w)) (rows (database w)) (rows (database w'))"
proof (cases x)
  case (Creating http_url ctx long ttl p)
  obtain p' where p': "create_step http_url c ctx long ttl now p w = (p', w')" "x' = Creating http_url ctx long ttl p'"
    using st Creating by (cases "create_step http_url c ctx long ttl now p w") auto
  show ?thesis
  proof (cases "\<exists>n. p = CInsert n")
    case True
    then show ?thesis using insert_step_ok [OF inv _ , of now ttl http_url ctx long] p' Creating e by auto
  next
    case False
    then have "asking colt now x = {}" "call_act colt c now x (database w) = Quiet" using Creating by (cases p; auto)+
    then show ?thesis using create_step_ok [OF inv _ _ p'(1)] p'(2) Creating ok False by auto
  qed
next
  case (Deleting short p)
  then obtain p' where "delete_step c short p w = (p', w')" "x' = Deleting short p'"
    using st by (cases "delete_step c short p w") auto
  then show ?thesis using delete_step_ok [OF inv] Deleting by auto
next
  case (Retrieving short p)
  then obtain p' where "retrieve_step q short now p w = (p', w')" "x' = Retrieving short p'"
    using st by (cases "retrieve_step q short now p w") auto
  then show ?thesis using retrieve_step_ok [OF inv] Retrieving ok by auto
qed

end

section \<open>The invariant of a cluster with its calls\<close>

text \<open>Numbers drawn and not yet used: handed out, without a link, and no two calls hold the same.\<close>

definition pending :: "uint64 list \<Rightarrow> links \<Rightarrow> (site \<times> call) list \<Rightarrow> bool" where
  "pending hs H A \<longleftrightarrow> (\<forall>k<length A. \<forall>n. drawn (snd (A ! k)) = Some n \<longrightarrow> n \<in> set hs \<and> n \<notin> fst ` H \<and>
     (\<forall>l<length A. drawn (snd (A ! l)) = Some n \<longrightarrow> l = k))"

lemma pending_begin: "pending hs H A \<Longrightarrow> drawn x = None \<Longrightarrow> pending hs H (A @ [(s, x)])"
  by (auto simp: pending_def nth_append less_Suc_eq)

lemma drawn_update [simp]: "l < length A \<Longrightarrow> drawn (snd (A[k := (s, x)] ! l)) = (if l = k then drawn x else drawn (snd (A ! l)))"
  by (cases "l = k") auto

lemma pending_draw:
  assumes "pending hs H A" "drawn x = Some n" "n \<notin> set hs" "fst ` H \<subseteq> set hs"
  shows "pending (hs @ [n]) H (A[k := (s, x)])"
  using assms by (auto simp: pending_def)

lemma pending_use:
  assumes "pending hs H A" "k < length A" "drawn (snd (A ! k)) = Some n" "drawn x = None" "fst ` H' \<subseteq> insert n (fst ` H)"
  shows "pending hs H' (A[k := (s, x)])"
  unfolding pending_def length_list_update
proof (intro allI impI)
  fix l m assume "l < length A" "drawn (snd (A[k := (s, x)] ! l)) = Some m"
  then have l: "l < length A" "l \<noteq> k" "drawn (snd (A ! l)) = Some m" using assms(4) by (auto split: if_splits)
  then have "m \<in> set hs" "m \<notin> fst ` H" "m \<noteq> n" and one: "\<And>j. j < length A \<Longrightarrow> drawn (snd (A ! j)) = Some m \<Longrightarrow> j = l"
    using assms(1-3) unfolding pending_def by blast+
  then show "m \<in> set hs \<and> m \<notin> fst ` H' \<and> (\<forall>j<length A. drawn (snd (A[k := (s, x)] ! j)) = Some m \<longrightarrow> j = l)"
    using assms(4,5) by (auto split: if_splits)
qed

lemma pending_keep: "pending hs H A \<Longrightarrow> drawn x = None \<Longrightarrow> pending hs H (A[k := (s, x)])"
  unfolding pending_def by (auto split: if_splits) 

context turl_cluster begin

abbreviation busy where
  "busy \<equiv> busy_step colt lh db oor row cs qs rs"

definition busy_inv :: "links \<times> ('d, 'r, 'l, 'q) cluster \<times> (site \<times> call) list \<Rightarrow> bool" where
  "busy_inv X \<longleftrightarrow> (case X of (H, C, A) \<Rightarrow> cluster_inv H C \<and> (\<forall>y\<in>set A. call_ok coll H (snd y)) \<and> (\<exists>hs. numbers hs H C \<and> pending hs H A))"

lemma calls_mono: "\<forall>y\<in>set A. call_ok coll H (snd y) \<Longrightarrow> H \<subseteq> H' \<Longrightarrow> \<forall>y\<in>set A. call_ok coll H' (snd y)"
  using call_ok_mono by blast

lemma calls_update:
  assumes "\<forall>y\<in>set A. call_ok coll H (snd y)" "H \<subseteq> H'" "call_ok coll H' x"
  shows "\<forall>y\<in>set (A[k := (s, x)]). call_ok coll H' (snd y)"
  using calls_mono [OF assms(1,2)] assms(3) by (auto dest!: set_update_subset_insert [THEN subsetD])

text \<open>A step of a call and the numbers: it draws one, it asks for a link under the one drawn, or it does neither.\<close>

lemma advance_kinds:
  assumes "advance c q now x w = (x', w')"
  obtains (draw) http_url ctx long ttl where "x = Creating http_url ctx long ttl CNext"
    | (insertion) http_url ctx long ttl n where "x = Creating http_url ctx long ttl (CInsert n)" "drawn x' = None" "sequence w' = sequence w"
    | (other) "asking colt now x = {}" "drawn x' = None" "sequence w' = sequence w"
proof (cases x)
  case (Creating http_url ctx long ttl p)
  then obtain p' where p': "create_step http_url c ctx long ttl now p w = (p', w')" "x' = Creating http_url ctx long ttl p'"
    using assms by (cases "create_step http_url c ctx long ttl now p w") auto
  note keep = create_step_sequence [OF p'(1)] create_step_drawn [OF p'(1)]
  show ?thesis
  proof (cases p)
    case CNext
    then show ?thesis using Creating draw by simp
  next
    case (CInsert n)
    then show ?thesis using Creating insertion keep p'(2) by simp
  qed (use Creating other keep p'(2) in simp_all)
next
  case (Deleting short p)
  then show ?thesis
    using assms other delete_step_sequence [of c short p w _ w'] by (auto simp: apfst_def map_prod_def split: prod.splits)
next
  case (Retrieving short p)
  then show ?thesis
    using assms other retrieve_step_sequence [of q short now p w _ w'] by (auto simp: apfst_def map_prod_def split: prod.splits)
qed

lemma draw_numbers:
  assumes i: "i < length (nodes C)" and inv: "numbers hs H C" "pending hs H A"
    and st: "advance (cs i) (qs i) now (Creating http_url ctx long ttl CNext) (node_world C i) = (x', w)"
  shows "\<exists>hs'. numbers hs' H (put_world i w C) \<and> pending hs' H (A[k := (s, x')])"
proof (cases "http_url long")
  case None
  obtain y s' where y: "Next db oor ctx (node_client (nodes C ! i), shared_sequence C) = (y, s')" by (metis prod.exhaust)
  then have w: "sequence w = s'" "drawn x' = (case y of Ret n \<Rightarrow> Some n | _ \<Rightarrow> None)"
    using st None by (cases y; auto simp: on_seq_def tddl tddlSequence_iface_def)+
  note nx = numbers_Next [OF inv(1) i y [folded w(1)]]
  have "fst ` H \<subseteq> set hs" using inv(1) by (simp add: numbers_def)
  then show ?thesis using nx pending_draw [OF inv(2)] pending_keep [OF inv(2)] w(2) by (cases y) fastforce+
next
  case (Some err)
  then have "w = node_world C i" "drawn x' = None" using st by auto
  then show ?thesis using numbers_put [OF inv(1) i] pending_keep [OF inv(2)] by fastforce
qed

lemma advance_numbers:
  assumes i: "i < length (nodes C)" and k: "k < length A" "snd (A ! k) = x"
    and st: "advance (cs i) (qs i) now x (node_world C i) = (x', w)" and inv: "numbers hs H C" "pending hs H A"
  shows "\<exists>hs'. numbers hs' (H \<union> asking colt now x) (put_world i w C) \<and> pending hs' (H \<union> asking colt now x) (A[k := (s, x')])"
  using st
proof (cases rule: advance_kinds)
  case (draw http_url ctx long ttl)
  then show ?thesis using draw_numbers [OF i inv, of now http_url ctx long ttl x' w k s] st by simp
next
  case (insertion http_url ctx long ttl n)
  have n: "n \<in> set hs" "n \<notin> fst ` H" using inv(2) k insertion(1) by (auto simp: pending_def)
  have "pending hs (H \<union> asking colt now x) (A[k := (s, x')])"
    using pending_use [OF inv(2) k(1), of n x' "H \<union> asking colt now x" s] k(2) insertion by (auto simp: asked_def)
  moreover have "numbers hs (H \<union> asking colt now x) (put_world i w C)"
    using numbers_ask [OF numbers_put [OF inv(1) i insertion(3)] n] insertion(1) by simp
  ultimately show ?thesis by blast
next
  case other
  then show ?thesis using numbers_put [OF inv(1) i, of w] pending_keep [OF inv(2), of x' k s] by (intro exI [of _ hs]) simp
qed

lemma busy_step_inv:
  assumes "busy X Y" "busy_inv X"
  shows "busy_inv Y \<and> fst X \<subseteq> fst Y"
  using assms
proof (induction rule: busy_step.induct)
  case (begin_node i C x H A)
  then show ?case using begun_ok [OF begin_node(3)] pending_begin by (fastforce simp: busy_inv_def)
next
  case (begin_reader j C H A short)
  then show ?case using pending_begin by (fastforce simp: busy_inv_def)
next
  case (at_node k A i x C now x' w H)
  then obtain hs where inv: "cluster_inv H C" "\<forall>y\<in>set A. call_ok coll H (snd y)" "numbers hs H C" "pending hs H A"
    by (auto simp: busy_inv_def)
  have "call_ok coll H x" using inv(2) at_node(1,2) nth_mem by fastforce
  note adv = turl_node.advance_ok [OF node cluster_inv_node [OF inv(1) at_node(3)] this at_node(4,5)]
  have "cluster_inv (H \<union> asking colt now x) (put_world i w C)" using put_world_inv [OF inv(1)] adv by simp
  moreover have "\<forall>y\<in>set (A[k := (AtNode i, x')]). call_ok coll (H \<union> asking colt now x) (snd y)"
    using calls_update [OF inv(2)] adv by blast
  ultimately show ?case
    using advance_numbers [OF at_node(3,1) _ at_node(5) inv(3,4)] at_node(2) unfolding busy_inv_def by fastforce
next
  case (at_reader k A j short p C now p' w H)
  then obtain hs where inv: "cluster_inv H C" "\<forall>y\<in>set A. call_ok coll H (snd y)" "numbers hs H C" "pending hs H A"
    by (auto simp: busy_inv_def)
  have "call_ok coll H (Retrieving short p)" using inv(2) at_reader(1,2) nth_mem by fastforce
  note ret = turl_node.retrieve_step_ok [OF reader cluster_inv_reader [OF inv(1) at_reader(3)] this at_reader(4)]
  have "cluster_inv H (put_reader j w C)" using put_reader_inv [OF inv(1)] ret by simp
  moreover have "numbers hs H (put_reader j w C)" using inv(3) by (auto intro: numbers_same)
  moreover have "\<forall>y\<in>set (A[k := (AtReader j, Retrieving short p')]). call_ok coll H (snd y)"
    using calls_update [OF inv(2)] ret by blast
  ultimately show ?case using pending_keep [OF inv(4), of "Retrieving short p'"] unfolding busy_inv_def by fastforce
next
  case (cluster H C H' C' A)
  then obtain hs where inv: "cluster_inv H C" "\<forall>y\<in>set A. call_ok coll H (snd y)" "numbers hs H C" "pending hs H A"
    by (auto simp: busy_inv_def)
  obtain hs' where hs': "numbers hs' H' C'" "grows hs H hs' H'" using cluster_step_numbers [OF cluster(1)] inv(3) by auto
  have "cluster_inv H' C'" "H \<subseteq> H'" using cluster_step_inv [OF cluster(1)] inv(1) by auto
  moreover have "pending hs' H' A" using inv(4) hs'(2) unfolding pending_def grows_def by blast
  ultimately show ?case using hs'(1) calls_mono [OF inv(2)] unfolding busy_inv_def by auto
qed

abbreviation busy_labelled where
  "busy_labelled \<equiv> busy_act colt lh db oor row cs qs rs"

lemma busy_act_rows:
  assumes "busy_labelled a X Y" "busy_inv X"
  shows "rows_act coll colt a (rows (shared_database (fst (snd X)))) (rows (shared_database (fst (snd Y))))"
  using assms
proof (induction rule: busy_act.induct)
  case (at_node k A i x C now x' w H)
  have "call_ok coll H x" "cluster_inv H C" using at_node(1,2,6) nth_mem by (fastforce simp: busy_inv_def)+
  then show ?case using turl_node.advance_ok [OF node cluster_inv_node [OF _ at_node(3)] _ at_node(4,5)] by simp
next
  case (at_reader k A j short p C now p' w H)
  have "call_ok coll H (Retrieving short p)" "cluster_inv H C" using at_reader(1,2,5) nth_mem by (fastforce simp: busy_inv_def)+
  then show ?case using turl_node.retrieve_step_ok [OF reader cluster_inv_reader [OF _ at_reader(3)] _ at_reader(4)] by simp
next
  case (cluster a H C H' C' A)
  then show ?case using cluster_act_rows [OF cluster(1)] by simp
qed simp_all

lemma busy_step_rows:
  assumes "busy X Y" "busy_inv X"
  shows "rows_step coll colt (rows (shared_database (fst (snd X)))) (rows (shared_database (fst (snd Y))))"
  using busy_step_act [OF assms(1)] busy_act_rows assms(2) rows_stepI by blast

end

context turl_cluster begin

lemma fresh_busy: "fresh_cluster rows coll rh cell row C \<Longrightarrow> busy_inv (table_links (rows (shared_database C)), C, [])"
  using fresh_inv fresh_numbers by (auto simp: busy_inv_def number_inv_def pending_def)

lemma busy_run_inv:
  assumes "busy\<^sup>*\<^sup>* X Y" "busy_inv X"
  shows "busy_inv Y \<and> fst X \<subseteq> fst Y"
  using assms
proof (induction rule: rtranclp_induct)
  case (step Y Z)
  then show ?case using busy_step_inv [OF step(2)] by blast
qed simp

text \<open>A run with labels, seen through the live rows, is a run of the map of links with the same labels.\<close>

lemma busy_run_rows:
  assumes "labelled_run busy_labelled acts X Y" "busy_inv X" "unique_indexes coll (rows (shared_database (fst (snd X))))"
  shows "unique_indexes coll (rows (shared_database (fst (snd Y)))) \<and>
    labelled_run (link_step coll) acts (links_of (rows (shared_database (fst (snd X))))) (links_of (rows (shared_database (fst (snd Y)))))"
proof -
  let ?I = "\<lambda>X. busy_inv X \<and> unique_indexes coll (rows (shared_database (fst (snd X))))"
  let ?f = "\<lambda>X. links_of (rows (shared_database (fst (snd X))))"
  have "?I Y \<and> labelled_run (link_step coll) acts (?f X) (?f Y)"
  proof (rule labelled_run_simulation [where I = ?I and f = ?f, OF assms(1)], goal_cases)
    case (2 a X Y)
    then have r: "rows_act coll colt a (rows (shared_database (fst (snd X)))) (rows (shared_database (fst (snd Y))))" using busy_act_rows by blast
    have "busy_inv Y" using busy_step_inv [OF busy_act_step [OF 2(2)]] 2(1) by blast
    then show ?case
      using rows_act_unique [OF r] rows_act_links [OF r link_store.coll_eq [OF turl_node.store [OF node]]] 2(1) by blast
  qed (use assms in simp)
  then show ?thesis by blast
qed

lemma busy_run_unique:
  assumes "busy\<^sup>*\<^sup>* X Y" "busy_inv X" "unique_indexes coll (rows (shared_database (fst (snd X))))"
  shows "unique_indexes coll (rows (shared_database (fst (snd Y))))"
proof -
  obtain acts where "labelled_run busy_labelled acts X Y" using run_has_labels [OF assms(1), of busy_labelled] busy_step_act by blast
  then show ?thesis using busy_run_rows assms(2,3) by blast
qed

text \<open>What the calls of a run that are done have answered.\<close>

lemma answered:
  assumes "busy_inv (H, C, A)" "(s, Retrieving short (RDone (Ret l))) \<in> set A"
  shows "\<exists>n u e. Base58Decode short = Ret n \<and> (n, u, e) \<in> H \<and> coll u l"
  using assms by (force simp: busy_inv_def)

lemma created:
  assumes "busy_inv (H, C, A)" "(s, Creating http_url ctx long ttl (CDone (Ret m))) \<in> set A"
  shows "\<exists>n u e. m_ShortURL m = Base58Encode n \<and> (n, u, e) \<in> H \<and> coll u long"
  using assms by (force simp: busy_inv_def)

lemma busy_number_inv: "busy_inv (H, C, A) \<Longrightarrow> number_inv H C"
  by (auto simp: busy_inv_def number_inv_def)

end

section \<open>Links that never expire\<close>

text \<open>A row that never expires stays in the table, deleted or not, since only expired rows are reaped.\<close>

definition row_for :: "(bytes \<Rightarrow> bytes \<Rightarrow> bool) \<Rightarrow> TinyURL list \<Rightarrow> uint64 \<Rightarrow> bytes \<Rightarrow> bool" where
  "row_for coll ts n long \<longleftrightarrow> (\<exists>t\<in>set ts. Short t = n \<and> coll (LongURL t) long \<and> ExpiresAt t = None)"

lemma rows_step_cases:
  assumes "rows_step coll colt rs rs'"
  obtains (same) "rs' = rs" | (row) n long e t where "new_row coll rs n long e t" "rs' = rs @ [column colt t]"
    | (gone) n w where "rs' = soft_delete (\<lambda>t. is_live t \<and> Short t = n) w rs"
    | (late) now where "subseq rs' rs" "\<forall>t\<in>set rs - set rs'. expired_at now t"
proof -
  obtain a where "rows_act coll colt a rs rs'" using assms unfolding rows_step_def by blast
  then show ?thesis using that by (cases a) auto
qed

lemma row_for_step:
  assumes "rows_step coll colt ts ts'" "row_for coll ts n long"
  shows "row_for coll ts' n long"
proof -
  obtain t where t: "t \<in> set ts" "Short t = n" "coll (LongURL t) long" "ExpiresAt t = None" using assms(2) by (auto simp: row_for_def)
  show ?thesis
    using assms(1)
  proof (cases rule: rows_step_cases)
    case (gone m w)
    let ?t = "if is_live t \<and> Short t = m then t\<lparr>DeletedAt := Some w\<rparr> else t"
    have "?t \<in> set ts'" unfolding gone set_soft_delete using t(1) by blast
    then show ?thesis unfolding row_for_def by (rule bexI [rotated]) (use t in simp)
  next
    case (late now)
    moreover have "\<not> expired_at now t" using t(4) by (simp add: expired_at_def)
    ultimately show ?thesis using t unfolding row_for_def by blast
  qed (use t in \<open>auto simp: row_for_def\<close>)
qed

fun lasting :: "(bytes \<Rightarrow> bytes \<Rightarrow> bool) \<Rightarrow> TinyURL list \<Rightarrow> call \<Rightarrow> bool" where
  "lasting coll ts (Creating http_url ctx long ttl (CCache n t)) = (ExpiresAt t = None \<longrightarrow> row_for coll ts n long)"
| "lasting coll ts (Creating http_url ctx long ttl (CDone (Ret m))) =
     (m_ExpiresAt m = None \<longrightarrow> (\<exists>n. m_ShortURL m = Base58Encode n \<and> row_for coll ts n long))"
| "lasting coll ts _ = True"

lemma lasting_step: "rows_step coll colt ts ts' \<Longrightarrow> lasting coll ts x \<Longrightarrow> lasting coll ts' x"
  using row_for_step by (cases "(coll, ts, x)" rule: lasting.cases) auto

lemma lasting_begun: "begun x \<Longrightarrow> lasting coll ts x"
  by (cases x) auto

context turl_node begin

lemma advance_lasting:
  assumes "lasting coll (rows (database w)) x" "advance c q now x w = (x', w')"
  shows "lasting coll (rows (database w')) x'"
proof (cases x)
  case (Creating http_url ctx long ttl p)
  then obtain p' where p': "create_step http_url c ctx long ttl now p w = (p', w')" "x' = Creating http_url ctx long ttl p'"
    using assms(2) by (cases "create_step http_url c ctx long ttl now p w") auto
  show ?thesis
  proof (cases p)
    case CNext
    then show ?thesis using p' by (auto split: option.splits prod.splits outcome.splits)
  next
    case (CInsert n)
    obtain y d where y: "Insert (cmd_db c) n long (link_expiry now ttl) (database w) = (y, d)" by (metis prod.exhaust)
    have "row_for coll (rows d) n long" if "y = Ret t" "ExpiresAt t = None" for t
      using link_store.insert_ok [OF store, of n long "link_expiry now ttl" "database w" t] y that
      by (auto simp: row_for_def new_row_def column_def)
    then show ?thesis
      using p' CInsert y
      by (cases y) (auto simp: on_db_def Let_def link_expiry_def IncShortenCreated_def record_metric_def split: if_splits)
  next
    case CFind
    obtain y d where y: "GetByLongURL (cmd_db c) long (database w) = (y, d)" by (metis prod.exhaust)
    have "row_for coll (rows d) (Short t) long" if "y = Ret t" "ExpiresAt t = None" for t
      using link_store.long_ok [OF store, of long "database w" t] link_store.long_rows [OF store, of long "database w"] y that
      by (auto simp: row_for_def)
    then show ?thesis using p' CFind y by (cases y) (auto simp: on_db_def)
  next
    case (CCache n t)
    let ?f = "Create_finish c now long n t w"
    have "w' = snd ?f" "p' = CDone (fst ?f)" using p' CCache by (auto split: prod.splits)
    moreover have "m_ShortURL m = Base58Encode n \<and> m_ExpiresAt m = ExpiresAt t" if "fst ?f = Ret m" for m
      using that by (auto simp: Create_finish_def Let_def split: prod.splits outcome.splits)
    ultimately show ?thesis using assms(1) Creating CCache p'(2) by (cases "fst ?f") auto
  next
    case (CDone y)
    then show ?thesis using p' assms(1) Creating by auto
  qed
next
  case (Deleting short p)
  then show ?thesis using assms(2) by (cases "delete_step c short p w") auto
next
  case (Retrieving short p)
  then show ?thesis using assms(2) by (cases "retrieve_step q short now p w") auto
qed

end

context turl_cluster begin

definition lasting_inv :: "links \<times> ('d, 'r, 'l, 'q) cluster \<times> (site \<times> call) list \<Rightarrow> bool" where
  "lasting_inv X \<longleftrightarrow> (case X of (H, C, A) \<Rightarrow> \<forall>y\<in>set A. lasting coll (rows (shared_database C)) (snd y))"

lemma lasting_update:
  assumes "rows_step coll colt ts ts'" "\<forall>y\<in>set A. lasting coll ts (snd y)" "lasting coll ts' x"
  shows "\<forall>y\<in>set (A[k := (s, x)]). lasting coll ts' (snd y)"
  using assms lasting_step [OF assms(1)] by (auto dest!: set_update_subset_insert [THEN subsetD])

lemma busy_step_lasting:
  assumes "busy X Y" "busy_inv X" "lasting_inv X"
  shows "lasting_inv Y"
  using assms
proof (induction rule: busy_step.induct)
  case (begin_node i C x H A)
  then show ?case using lasting_begun by (auto simp: lasting_inv_def)
next
  case (begin_reader j C H A short)
  then show ?case by (auto simp: lasting_inv_def)
next
  case (at_node k A i x C now x' w H)
  note r = busy_step_rows [OF busy_step.at_node [where cs = cs and qs = qs, OF at_node(1-5)] at_node(6), simplified]
  have "lasting coll (rows (shared_database C)) x" using at_node(1,2,7) nth_mem by (fastforce simp: lasting_inv_def)
  then have "lasting coll (rows (database w)) x'" using turl_node.advance_lasting [OF node _ at_node(5)] by simp
  then show ?case using lasting_update [OF r] at_node(7) by (simp add: lasting_inv_def)
next
  case (at_reader k A j short p C now p' w H)
  note r = busy_step_rows [OF busy_step.at_reader [where rs = rs, OF at_reader(1-4)] at_reader(5), simplified]
  then show ?case using lasting_update [OF r, of A "Retrieving short p'"] at_reader(6) by (simp add: lasting_inv_def)
next
  case (cluster H C H' C' A)
  note r = busy_step_rows [OF busy_step.cluster [OF cluster(1)] cluster(2), simplified]
  then show ?case using lasting_step [OF r] cluster(3) by (simp add: lasting_inv_def)
qed

lemma busy_run_lasting:
  assumes "busy\<^sup>*\<^sup>* X Y" "busy_inv X" "lasting_inv X"
  shows "lasting_inv Y"
  using assms
proof (induction rule: rtranclp_induct)
  case (step Y Z)
  then show ?case using busy_step_lasting [OF step(2)] busy_run_inv [OF step(1,4)] by blast
qed simp

lemma created_row:
  assumes "lasting_inv (H, C, A)" "(s, Creating http_url ctx long ttl (CDone (Ret m))) \<in> set A" "m_ExpiresAt m = None"
  shows "\<exists>t\<in>set (rows (shared_database C)). m_ShortURL m = Base58Encode (Short t) \<and> coll (LongURL t) long"
  using assms by (force simp: lasting_inv_def row_for_def)

end

lemma Base58Encode_inj: "inj Base58Encode"
  by (rule injI) (metis Base58Encode_eq value58_string58 word_unat_eq_iff)

text \<open>Whole calls of \<open>Create\<close> are runs of interleaved calls.\<close>

lemma put_node:
  assumes "i < length (nodes C)"
  shows "node_world (put_world i w C) i = w" "put_world i w' (put_world i w C) = put_world i w' C" "put_world i (node_world C i) C = C"
proof -
  show "put_world i (node_world C i) C = C"
    by (cases C; cases "nodes C ! i") (simp add: node_world_def put_world_def, metis list_update_id)
qed (use assms in \<open>simp_all add: node_world_def put_world_def Let_def\<close>)

lemma create_steps_run:
  assumes "in_a_row (create_step http_url (cs i) ctx long ttl) ts p (node_world C i) = (p', w)" "i < length (nodes C)"
    "\<forall>t\<in>set ts. expiry_ok (link_expiry t ttl)"
  shows "\<exists>H'. (busy_step colt lh db oor row cs qs rs)\<^sup>*\<^sup>* (H, C, A @ [(AtNode i, Creating http_url ctx long ttl p)])
    (H', put_world i w C, A @ [(AtNode i, Creating http_url ctx long ttl p')])"
  using assms
proof (induction ts arbitrary: p C H)
  case Nil
  then show ?case using put_node(3) [OF Nil(2)] by auto
next
  case (Cons t ts)
  let ?x = "Creating http_url ctx long ttl"
  obtain p1 w1 where s: "create_step http_url (cs i) ctx long ttl t p (node_world C i) = (p1, w1)" by (metis prod.exhaust)
  have "expiry_fits t (?x p)" using Cons.prems(3) by (cases p) auto
  then have "busy_step colt lh db oor row cs qs rs (H, C, A @ [(AtNode i, ?x p)])
      (H \<union> asking colt t (?x p), put_world i w1 C, (A @ [(AtNode i, ?x p)])[length A := (AtNode i, ?x p1)])"
    using s Cons.prems(2) by (intro busy_step.at_node) simp_all
  moreover obtain H' where "(busy_step colt lh db oor row cs qs rs)\<^sup>*\<^sup>* (H \<union> asking colt t (?x p), put_world i w1 C, A @ [(AtNode i, ?x p1)])
      (H', put_world i w (put_world i w1 C), A @ [(AtNode i, ?x p')])"
    using Cons.IH [of p1 "put_world i w1 C" "H \<union> asking colt t (?x p)"] Cons.prems s put_node(1) [OF Cons.prems(2), of w1]
    by (auto simp: put_world_def)
  ultimately show ?case
    unfolding put_node(2) [OF Cons.prems(2)] by (auto intro: converse_rtranclp_into_rtranclp)
qed

lemma whole_Create_run:
  assumes "Create http_url (cs i) (\<lambda>_. t) ctx long ttl (node_world C i) = (x, w)" "expiry_ok (link_expiry t ttl)"
    "i < length (nodes C)" "\<And>r. pc (node_client (nodes C ! i)) \<noteq> Starting r"
  shows "\<exists>H'. (busy_step colt lh db oor row cs qs rs)\<^sup>*\<^sup>* (H, C, A) (H', put_world i w C, A @ [(AtNode i, Creating http_url ctx long ttl (CDone x))])"
proof -
  let ?x = "Creating http_url ctx long ttl"
  have "busy_step colt lh db oor row cs qs rs (H, C, A) (H, C, A @ [(AtNode i, ?x CNext)])"
    using assms(3,4) by (intro busy_step.begin_node) simp_all
  moreover obtain ts where "set ts = {t}" "in_a_row (create_step http_url (cs i) ctx long ttl) ts CNext (node_world C i) = (CDone x, w)"
    using create_in_a_row [of http_url "cs i" ctx long ttl t "\<lambda>_. t" t "node_world C i"] assms(1) that [of "[t, t, t, t]"] that [of "[t, t, t]"] by auto
  moreover from this obtain H' where "(busy_step colt lh db oor row cs qs rs)\<^sup>*\<^sup>* (H, C, A @ [(AtNode i, ?x CNext)])
      (H', put_world i w C, A @ [(AtNode i, ?x (CDone x))])"
    using create_steps_run [of http_url cs i ctx long ttl ts CNext C "CDone x" w] assms(2,3) by fastforce
  ultimately show ?thesis by (meson converse_rtranclp_into_rtranclp)
qed

end
