(* ===== verification/Interleaving.thy ===== *)
theory Interleaving
  imports Requests
begin

text \<open>
  The properties of a cluster whose calls interleave (\<open>Requests\<close>), and two concrete runs: one in which a call of \<open>Retrieve\<close> races a
  deletion, on which the witnesses run, and one that shortens a URL twice.
\<close>

section \<open>A run with a race\<close>

text \<open>
  The cluster of \<open>Cluster\<close> with one node, its first number drawn, and one read-only node; calls of \<open>Create\<close>, \<open>Retrieve\<close> and \<open>Delete\<close>
  on the node and a call of \<open>Retrieve\<close> on the read-only node.
\<close>

abbreviation demo_busy :: "links \<times> demo_cluster \<times> (site \<times> call) list \<Rightarrow> links \<times> demo_cluster \<times> (site \<times> call) list \<Rightarrow> bool" where
  "demo_busy \<equiv> (busy_step (\<lambda>t. t) (\<lambda>l k v. l k = Some v) row_db 0 1 cluster_command (\<lambda>_. demo_query) (\<lambda>_. demo_query))\<^sup>*\<^sup>*"

definition goes :: "demo_cluster \<times> (site \<times> call) list \<Rightarrow> demo_cluster \<times> (site \<times> call) list \<Rightarrow> bool" where
  "goes X Y \<longleftrightarrow> (\<forall>H. \<exists>H'. demo_busy (H, X) (H', Y))"

lemma goes_trans [trans]: "goes X Y \<Longrightarrow> goes Y Z \<Longrightarrow> goes X Z"
  unfolding goes_def by (meson rtranclp_trans)

definition race_world ::
  "TinyURL list \<Rightarrow> (string \<rightharpoonup> bytes) \<Rightarrow> (string \<rightharpoonup> bytes) \<Rightarrow> (string \<rightharpoonup> bytes) \<Rightarrow>
   (TinyURL list, string \<rightharpoonup> bytes, string \<rightharpoonup> bytes, client \<times> (uint64 \<times> int) option) world" where
  "race_world d r wl ql = \<lparr>database = d, redis = r, write_local = wl, query_local = ql,
     sequence = (deliver (self (node_client demo_node)), Some (9, 2)), stats = [ShortenCreated], janitor_closed = False\<rparr>"

definition race_cluster ::
  "TinyURL list \<Rightarrow> (string \<rightharpoonup> bytes) \<Rightarrow> (string \<rightharpoonup> bytes) \<Rightarrow> (string \<rightharpoonup> bytes) \<Rightarrow> demo_cluster" where
  "race_cluster d r wl ql = (put_world 0 (race_world d r wl ql) started_cluster)\<lparr>readers := [(Map.empty, [])]\<rparr>"

lemma race_views [simp]:
  "node_world (race_cluster d r wl ql) 0 = race_world d r wl ql"
  "put_world 0 (race_world d' r' wl' ql') (race_cluster d r wl ql) = race_cluster d' r' wl' ql'"
  by (simp_all add: race_cluster_def race_world_def node_world_def put_world_def started_cluster_def empty_cluster_def)

lemma goes_begin: "begun x \<Longrightarrow> goes (race_cluster d r wl ql, A) (race_cluster d r wl ql, A @ [(AtNode 0, x)])"
  unfolding goes_def
  by (intro allI exI, rule r_into_rtranclp, rule busy_step.begin_node)
    (simp_all add: race_cluster_def put_world_def started_cluster_def race_world_def demo_node_def deliver_def worker_loop_def)

lemma goes_node:
  assumes "advance (cluster_command 0) demo_query now x (race_world d r wl ql) = (x', race_world d' r' wl' ql')"
    "k < length A" "A ! k = (AtNode 0, x)" "expiry_fits now x"
  shows "goes (race_cluster d r wl ql, A) (race_cluster d' r' wl' ql', A[k := (AtNode 0, x')])"
proof -
  have "0 < length (nodes (race_cluster d r wl ql))"
    by (simp add: race_cluster_def put_world_def started_cluster_def)
  then have "busy_step (\<lambda>t. t) (\<lambda>l k v. l k = Some v) row_db 0 1 cluster_command (\<lambda>_. demo_query) (\<lambda>_. demo_query)
      (H, race_cluster d r wl ql, A) (H \<union> asking (\<lambda>t. t) now x, put_world 0 (race_world d' r' wl' ql') (race_cluster d r wl ql), A[k := (AtNode 0, x')])" for H
    using assms by (intro busy_step.at_node) simp_all
  then show ?thesis unfolding goes_def race_views by blast
qed

lemma cluster_calls:
  "(cluster_step colt lh db oor row cs qs rs)\<^sup>*\<^sup>* X Y \<Longrightarrow> (busy_step colt lh db oor row cs qs rs)\<^sup>*\<^sup>* (fst X, snd X, A) (fst Y, snd Y, A)"
proof (induction rule: rtranclp_induct)
  case (step Y Z)
  then have "busy_step colt lh db oor row cs qs rs (fst Y, snd Y, A) (fst Z, snd Z, A)" by (intro busy_step.cluster) simp
  then show ?case using step(3) by simp
qed simp

lemmas race_defs = race_world_def cluster_command_def demo_query_def demo_code on_db_def on_write_cache_def on_query_cache_def
  list_db_def map_proxy_def on_dist_def on_local_def map_redis_def map_big_def zero_TinyURL_def shared_row_def

definition race_gone :: "TinyURL list" where
  "race_gone = [shared_row\<lparr>DeletedAt := Some 0\<rparr>]"

lemma race_lookup: "retrieve_step demo_query ''8'' 400 RLookup (race_world [shared_row] Map.empty Map.empty Map.empty) =
    (RRow 7, race_world [shared_row] Map.empty Map.empty Map.empty)"
  by (simp add: race_defs fromCache_def proxy_Get_def localCache_Get_def redisCache_Get_def)

lemma race_row: "retrieve_step demo_query ''8'' 400 (RRow 7) (race_world [shared_row] Map.empty Map.empty Map.empty) =
    (RFill shared_row, race_world [shared_row] Map.empty Map.empty Map.empty)"
  by (simp add: race_defs storage_GetByShortID_def isExpired_def)

lemma race_ttl: "cacheTTL (1800 * Second) (Some 1000) 400 = 600"
  by (simp add: cacheTTL_def Until_def Second_def Let_def)

lemma race_cache:
  "\<exists>m. create_step (\<lambda>_. None) (cluster_command 0) (Ctx 1 Canceled) ''https://a'' 600 400 (CCache 7 shared_row)
      (race_world [shared_row] Map.empty Map.empty Map.empty) =
    (CDone (Ret m), race_world [shared_row] [''8'' \<mapsto> shared_value] [''8'' \<mapsto> shared_value] Map.empty) \<and> m_ShortURL m = ''8''"
proof -
  have "Base58Encode 7 = ''8''" by (simp add: Base58Encode_eq string58_def digits58.simps chars_def)
  then show ?thesis
    by (simp add: race_defs Create_finish_def Let_def race_ttl proxy_Set_def redisCache_Set_def localCache_Set_def tdiv_def shared_value_def)
qed

lemma race_delete: "delete_step (cluster_command 0) ''8'' DRow (race_world [shared_row] r wl ql) = (DCache, race_world race_gone r wl ql)"
  by (simp add: race_defs storage_Delete_def race_gone_def soft_delete_def)

lemma race_evict:
  "delete_step (cluster_command 0) ''8'' DCache (race_world d [''8'' \<mapsto> v] [''8'' \<mapsto> v] ql) = (DDone (Ret ()), race_world d Map.empty Map.empty ql)"
  by (simp add: race_defs proxy_Del_def redisCache_Del_def localCache_Del_def)

lemma race_fill: "retrieve_step demo_query ''8'' 400 (RFill shared_row) (race_world d Map.empty Map.empty Map.empty) =
    (RDone (Ret ''https://a''), race_world d [''8'' \<mapsto> shared_value] Map.empty [''8'' \<mapsto> shared_value])"
  by (simp add: race_defs race_ttl proxy_Set_def redisCache_Set_def localCache_Set_def tdiv_def shared_value_def)

abbreviation race_create :: "create_pc \<Rightarrow> site \<times> call" where
  "race_create p \<equiv> (AtNode 0, Creating (\<lambda>_. None) (Ctx 1 Canceled) ''https://a'' 600 p)"

lemma race_start:
  "\<exists>H. demo_busy ({}, empty_cluster, []) (H, race_cluster [shared_row] Map.empty Map.empty Map.empty, [race_create (CCache 7 shared_row)])"
proof -
  let ?C = "started_cluster\<lparr>readers := [(Map.empty, [])]\<rparr>"
  let ?drawn = "(node_world ?C 0)\<lparr>sequence := (deliver (self (node_client demo_node)), Some (9, 2))\<rparr>"
  let ?busy = "busy_step (\<lambda>t. t) (\<lambda>l k v. l k = Some v) row_db 0 1 cluster_command (\<lambda>_. demo_query) (\<lambda>_. demo_query)"
  have inserted: "create_step (\<lambda>_. None) (cluster_command 0) (Ctx 1 Canceled) ''https://a'' 600 400 (CInsert 7) (node_world (put_world 0 ?drawn ?C) 0) =
      (CCache 7 shared_row, race_world [shared_row] Map.empty Map.empty Map.empty)"
    by (simp add: started_cluster_def empty_cluster_def demo_node_def node_world_def put_world_def race_defs Let_def storage_Insert_def IncShortenCreated_def
        record_metric_def)
  have "demo_busy ({}, empty_cluster, []) ({}, started_cluster, [])" using cluster_calls [OF started] by simp
  also have "?busy ({}, started_cluster, []) ({}, ?C, [])"
    using cluster_step.join_readonly [of "\<lambda>l k v. l k = Some v" Map.empty "\<lambda>t. t" row_db 0 1 cluster_command "\<lambda>_. demo_query" "\<lambda>_. demo_query" "{}" started_cluster]
    by (intro busy_step.cluster) (simp add: started_cluster_def empty_cluster_def)
  also have "?busy ({}, ?C, []) ({}, ?C, [race_create CNext])"
    using busy_step.begin_node [of 0 ?C "snd (race_create CNext)" "\<lambda>t. t" _ row_db 0 1 cluster_command "\<lambda>_. demo_query" "\<lambda>_. demo_query" "{}" "[]"]
    by (simp add: started_cluster_def demo_node_def)
  also have "?busy ({}, ?C, [race_create CNext]) ({}, put_world 0 ?drawn ?C, [race_create (CInsert 7)])"
    using busy_step.at_node [of 0 "[race_create CNext]" 0 "snd (race_create CNext)" ?C 400 cluster_command "\<lambda>_. demo_query" "snd (race_create (CInsert 7))" ?drawn
        "\<lambda>t. t" "\<lambda>l k v. l k = Some v" row_db 0 1 "\<lambda>_. demo_query" "{}"] cluster_Next [of 0]
    by (simp add: started_cluster_def on_seq_def)
  also have "?busy ({}, put_world 0 ?drawn ?C, [race_create (CInsert 7)])
      ({} \<union> asking (\<lambda>t. t) 400 (snd (race_create (CInsert 7))), put_world 0 (race_world [shared_row] Map.empty Map.empty Map.empty) (put_world 0 ?drawn ?C),
       [race_create (CCache 7 shared_row)])"
    using busy_step.at_node [of 0 "[race_create (CInsert 7)]" 0 "snd (race_create (CInsert 7))" "put_world 0 ?drawn ?C" 400 cluster_command "\<lambda>_. demo_query"
        "snd (race_create (CCache 7 shared_row))" "race_world [shared_row] Map.empty Map.empty Map.empty" "\<lambda>t. t" "\<lambda>l k v. l k = Some v" row_db 0 1 "\<lambda>_. demo_query" "{}"] inserted
    by (simp add: started_cluster_def put_world_def expiry_ok_def int64_range_def link_expiry_def del: create_step.simps)
  also have "put_world 0 (race_world [shared_row] Map.empty Map.empty Map.empty) (put_world 0 ?drawn ?C) = race_cluster [shared_row] Map.empty Map.empty Map.empty"
    by (simp add: put_world_def race_cluster_def started_cluster_def empty_cluster_def)
  finally show ?thesis by blast
qed

text \<open>\<open>Retrieve\<close> reads the row, then \<open>Create\<close> finishes and \<open>Delete\<close> runs, all on the node; then \<open>Retrieve\<close> fills the caches.\<close>

definition race_created :: "TinyURL_model outcome" where
  "race_created = fst (Create_finish (cluster_command 0) 400 ''https://a'' 7 shared_row (race_world [shared_row] Map.empty Map.empty Map.empty))"

abbreviation race_calls :: "delete_pc \<Rightarrow> retrieve_pc \<Rightarrow> (site \<times> call) list" where
  "race_calls d r \<equiv> [race_create (CDone race_created), (AtNode 0, Retrieving ''8'' r), (AtNode 0, Deleting ''8'' d)]"

lemma race_to_delete:
  "goes (race_cluster [shared_row] Map.empty Map.empty Map.empty, [race_create (CCache 7 shared_row)])
    (race_cluster race_gone Map.empty Map.empty Map.empty, race_calls (DDone (Ret ())) (RFill shared_row))"
proof -
  let ?e = "Map.empty :: string \<rightharpoonup> bytes" and ?c = "[''8'' \<mapsto> shared_value]"
  let ?r = "\<lambda>p. (AtNode 0, Retrieving ''8'' p)" and ?d = "\<lambda>p. (AtNode 0, Deleting ''8'' p)"
  have cache: "create_step (\<lambda>_. None) (cluster_command 0) (Ctx 1 Canceled) ''https://a'' 600 400 (CCache 7 shared_row) (race_world [shared_row] ?e ?e ?e) =
      (CDone race_created, race_world [shared_row] ?c ?c ?e)"
    using race_cache by (auto simp: race_created_def split: prod.splits)
  have "goes (race_cluster [shared_row] ?e ?e ?e, [race_create (CCache 7 shared_row)])
      (race_cluster [shared_row] ?e ?e ?e, [race_create (CCache 7 shared_row), ?r RLookup])"
    using goes_begin [of "snd (?r RLookup)" "[shared_row]" ?e ?e ?e "[race_create (CCache 7 shared_row)]"] by simp
  also have "goes \<dots> (race_cluster [shared_row] ?e ?e ?e, [race_create (CCache 7 shared_row), ?r (RRow 7)])"
    using goes_node [of 400 "snd (?r RLookup)" "[shared_row]" ?e ?e ?e "snd (?r (RRow 7))" "[shared_row]" ?e ?e ?e 1 "[race_create (CCache 7 shared_row), ?r RLookup]"] race_lookup
    by (simp del: retrieve_step.simps)
  also have "goes \<dots> (race_cluster [shared_row] ?e ?e ?e, [race_create (CCache 7 shared_row), ?r (RFill shared_row)])"
    using goes_node [of 400 "snd (?r (RRow 7))" "[shared_row]" ?e ?e ?e "snd (?r (RFill shared_row))" "[shared_row]" ?e ?e ?e 1 "[race_create (CCache 7 shared_row), ?r (RRow 7)]"] race_row
    by (simp del: retrieve_step.simps)
  also have "goes \<dots> (race_cluster [shared_row] ?c ?c ?e, [race_create (CDone race_created), ?r (RFill shared_row)])"
    using goes_node [of 400 "snd (race_create (CCache 7 shared_row))" "[shared_row]" ?e ?e ?e "snd (race_create (CDone race_created))" "[shared_row]" ?c ?c ?e 0
        "[race_create (CCache 7 shared_row), ?r (RFill shared_row)]"] cache
    by (simp del: create_step.simps)
  also have "goes \<dots> (race_cluster [shared_row] ?c ?c ?e, race_calls DRow (RFill shared_row))"
    using goes_begin [of "snd (?d DRow)" "[shared_row]" ?c ?c ?e "[race_create (CDone race_created), ?r (RFill shared_row)]"] by simp
  also have "goes \<dots> (race_cluster race_gone ?c ?c ?e, race_calls DCache (RFill shared_row))"
    using goes_node [of 400 "snd (?d DRow)" "[shared_row]" ?c ?c ?e "snd (?d DCache)" race_gone ?c ?c ?e 2 "race_calls DRow (RFill shared_row)"] race_delete
    by (simp del: delete_step.simps)
  also have "goes \<dots> (race_cluster race_gone ?e ?e ?e, race_calls (DDone (Ret ())) (RFill shared_row))"
    using goes_node [of 400 "snd (?d DCache)" race_gone ?c ?c ?e "snd (?d (DDone (Ret ())))" race_gone ?e ?e ?e 2 "race_calls DCache (RFill shared_row)"] race_evict
    by (simp del: delete_step.simps)
  finally show ?thesis .
qed

abbreviation race_end :: "(site \<times> call) list" where
  "race_end \<equiv> race_calls (DDone (Ret ())) (RDone (Ret ''https://a'')) @ [(AtReader 0, Retrieving ''8'' (RDone (Ret ''https://a'')))]"

lemma race_to_end:
  "\<exists>C. goes (race_cluster race_gone Map.empty Map.empty Map.empty, race_calls (DDone (Ret ())) (RFill shared_row))
    (C, race_end) \<and>
    shared_database C = race_gone"
proof -
  let ?e = "Map.empty :: string \<rightharpoonup> bytes" and ?c = "[''8'' \<mapsto> shared_value]"
  let ?A = "race_calls (DDone (Ret ())) (RDone (Ret ''https://a''))" and ?C = "race_cluster race_gone ?c ?e ?c"
  let ?busy = "busy_step (\<lambda>t. t) (\<lambda>l k v. l k = Some v) row_db 0 1 cluster_command (\<lambda>_. demo_query) (\<lambda>_. demo_query)"
  have "goes (race_cluster race_gone ?e ?e ?e, race_calls (DDone (Ret ())) (RFill shared_row)) (?C, ?A)"
    using goes_node [of 400 "Retrieving ''8'' (RFill shared_row)" race_gone ?e ?e ?e "Retrieving ''8'' (RDone (Ret ''https://a''))" race_gone ?c ?e ?c 1
        "race_calls (DDone (Ret ())) (RFill shared_row)"] race_fill
    by (simp del: retrieve_step.simps)
  also obtain w where w: "retrieve_step demo_query ''8'' 500 RLookup (reader_world ?C 0) = (RDone (Ret ''https://a''), w)" "database w = race_gone"
  proof -
    have "decodeCacheValue shared_value = Some (''https://a'', Some 1000)"
      unfolding shared_value_def by (rule decode_encode_ok) (simp add: expiry_ok_def int64_range_def)
    moreover have "shared_value \<noteq> []" by (simp add: shared_value_def encodeCacheValue_def PutUint64_def)
    ultimately show ?thesis
      by (intro that)
        (simp add: race_cluster_def reader_world_def race_defs fromCache_def proxy_Get_def localCache_Get_def localCache_Set_def redisCache_Get_def isExpired_def, simp)
  qed
  have j: "0 < length (readers ?C)" by (simp add: race_cluster_def)
  have "goes (?C, ?A) (put_reader 0 w ?C, ?A @ [(AtReader 0, Retrieving ''8'' (RDone (Ret ''https://a'')))])"
  proof -
    have "?busy (H, ?C, ?A) (H, ?C, ?A @ [(AtReader 0, Retrieving ''8'' RLookup)])" for H using j by (rule busy_step.begin_reader)
    moreover have "?busy (H, ?C, ?A @ [(AtReader 0, Retrieving ''8'' RLookup)])
        (H, put_reader 0 w ?C, (?A @ [(AtReader 0, Retrieving ''8'' RLookup)])[3 := (AtReader 0, Retrieving ''8'' (RDone (Ret ''https://a'')))])" for H
      using j w(1) by (intro busy_step.at_reader) (simp_all del: retrieve_step.simps)
    ultimately show ?thesis unfolding goes_def by (auto intro!: converse_rtranclp_into_rtranclp)
  qed
  finally show ?thesis using w(2) by fastforce
qed

lemma race_run:
  "\<exists>H C H' C'. demo_busy (table_links (shared_database empty_cluster), empty_cluster, []) (H, C, race_calls (DDone (Ret ())) (RFill shared_row)) \<and>
    shared_database C = race_gone \<and> shared_redis C = Map.empty \<and> readers C = [(Map.empty, [])] \<and>
    demo_busy (H, C, race_calls (DDone (Ret ())) (RFill shared_row))
      (H', C', race_end) \<and>
    shared_database C' = race_gone"
proof -
  let ?C = "race_cluster race_gone Map.empty Map.empty Map.empty"
  obtain H0 where "demo_busy ({}, empty_cluster, []) (H0, race_cluster [shared_row] Map.empty Map.empty Map.empty, [race_create (CCache 7 shared_row)])"
    using race_start by blast
  moreover obtain H where "demo_busy (H0, race_cluster [shared_row] Map.empty Map.empty Map.empty, [race_create (CCache 7 shared_row)])
      (H, ?C, race_calls (DDone (Ret ())) (RFill shared_row))"
    using race_to_delete unfolding goes_def by blast
  ultimately have "demo_busy ({}, empty_cluster, []) (H, ?C, race_calls (DDone (Ret ())) (RFill shared_row))" by (rule rtranclp_trans)
  moreover obtain C' where C': "goes (?C, race_calls (DDone (Ret ())) (RFill shared_row))
      (C', race_end)" "shared_database C' = race_gone"
    using race_to_end by blast
  moreover obtain H' where "demo_busy (H, ?C, race_calls (DDone (Ret ())) (RFill shared_row))
      (H', C', race_end)"
    using C'(1) unfolding goes_def by blast
  moreover have "shared_database ?C = race_gone" "shared_redis ?C = Map.empty" "readers ?C = [(Map.empty, [])]"
    by (simp_all add: race_cluster_def put_world_def race_world_def)
  ultimately show ?thesis unfolding empty_links by blast
qed

lemma race_created_code: "\<exists>m. race_created = Ret m \<and> m_ShortURL m = ''8''"
  using race_cache by (auto simp: race_created_def split: prod.splits)

lemma race_reached:
  "\<exists>H C. demo_busy (table_links (shared_database empty_cluster), empty_cluster, [])
    (H, C, race_end) \<and>
    shared_database C = race_gone"
  using race_run by (meson rtranclp_trans)

definition lasting_row :: TinyURL where
  "lasting_row = zero_TinyURL\<lparr>Short := 7, LongURL := ''https://a''\<rparr>"

definition lasting_world :: "client \<Rightarrow> (TinyURL list, string \<rightharpoonup> bytes, string \<rightharpoonup> bytes, client \<times> (uint64 \<times> int) option) world" where
  "lasting_world cl = \<lparr>database = [lasting_row], redis = [''8'' \<mapsto> encodeCacheValue ''https://a'' None],
     write_local = [''8'' \<mapsto> encodeCacheValue ''https://a'' None], query_local = Map.empty, sequence = (cl, Some (9, 2)),
     stats = [ShortenCreated], janitor_closed = False\<rparr>"

lemma lasting_Create:
  "\<exists>m. Create (\<lambda>_. None) (cluster_command 0) (\<lambda>_. 400) (Ctx 1 Canceled) ''https://a'' 0 (node_world started_cluster 0) =
     (Ret m, lasting_world (deliver (self (node_client demo_node)))) \<and> m_ShortURL m = ''8'' \<and> m_ExpiresAt m = None"
proof -
  have code: "Base58Encode 7 = ''8''" by (simp add: Base58Encode_eq string58_def digits58.simps chars_def)
  have ttl: "cacheTTL 1800000000000 None 400 = 1800000000000" by (simp add: cacheTTL_def)
  have w: "node_world started_cluster 0 = \<lparr>database = [], redis = Map.empty, write_local = Map.empty, query_local = Map.empty,
      sequence = (node_client demo_node, Some (9, 2)), stats = [], janitor_closed = False\<rparr>"
    by (simp add: node_world_def started_cluster_def empty_cluster_def demo_node_def)
  show ?thesis
    unfolding w using cluster_Next [of 0]
    by (simp add: Create_def on_seq_def)
      (simp add: cluster_command_def on_db_def storage_Insert_def list_db_def Let_def zero_TinyURL_def IncShortenCreated_def
        record_metric_def Create_finish_def code ttl on_write_cache_def proxy_Set_def map_proxy_def on_dist_def on_local_def
        redisCache_Set_def localCache_Set_def map_redis_def map_big_def tdiv_def Second_def lasting_world_def lasting_row_def)
qed

lemma lasting_again:
  "\<exists>m w. Create (\<lambda>_. None) (cluster_command 0) (\<lambda>_. 400) (Ctx 1 Canceled) ''https://a'' 0
      (lasting_world (deliver (self (node_client demo_node)))) = (Ret m, w) \<and> m_ShortURL m = ''8'' \<and> m_ExpiresAt m = None"
proof -
  have code: "Base58Encode 7 = ''8''" by (simp add: Base58Encode_eq string58_def digits58.simps chars_def)
  have ttl: "cacheTTL 1800000000000 None 400 = 1800000000000" by (simp add: cacheTTL_def)
  obtain s where s: "seq_Next (cmd_seq (cluster_command 0)) (Ctx 1 Canceled) (deliver (self (node_client demo_node)), Some (9, 2)) = (Ret 8, s)"
    by (simp add: cluster_command_def tddlSequence_iface_def demo_node_def deliver_def worker_loop_def Next_loop.simps)
  show ?thesis
    using s
    by (simp add: lasting_world_def Create_def on_seq_def)
      (simp add: cluster_command_def on_db_def storage_Insert_def storage_GetByLongURL_def list_db_def Let_def zero_TinyURL_def conflict_def
        Create_finish_def code ttl on_write_cache_def proxy_Set_def map_proxy_def on_dist_def on_local_def
        redisCache_Set_def localCache_Set_def map_redis_def map_big_def tdiv_def Second_def lasting_row_def)
qed

lemma lasting_reached:
  "\<exists>H C m m'. demo_busy (table_links (shared_database empty_cluster), empty_cluster, [])
     (H, C, [(AtNode 0, Creating (\<lambda>_. None) (Ctx 1 Canceled) ''https://a'' 0 (CDone (Ret m))),
             (AtNode 0, Creating (\<lambda>_. None) (Ctx 1 Canceled) ''https://a'' 0 (CDone (Ret m')))]) \<and>
   m_ExpiresAt m = None \<and> m_ExpiresAt m' = None"
proof -
  let ?w = "lasting_world (deliver (self (node_client demo_node)))" and ?C = started_cluster
  let ?x = "\<lambda>m. (AtNode 0, Creating (\<lambda>_. None) (Ctx 1 Canceled) ''https://a'' 0 (CDone (Ret m)))"
  have nodes: "0 < length (nodes ?C)" "\<And>r. pc (node_client (nodes ?C ! 0)) \<noteq> Starting r"
    "0 < length (nodes (put_world 0 ?w ?C))" "\<And>r. pc (node_client (nodes (put_world 0 ?w ?C) ! 0)) \<noteq> Starting r"
    by (simp_all add: started_cluster_def demo_node_def put_world_def lasting_world_def deliver_def worker_loop_def)
  have e: "expiry_ok (link_expiry 400 0)" by (simp add: link_expiry_def expiry_ok_def)
  obtain m where m: "Create (\<lambda>_. None) (cluster_command 0) (\<lambda>_. 400) (Ctx 1 Canceled) ''https://a'' 0 (node_world ?C 0) = (Ret m, ?w)" "m_ExpiresAt m = None"
    using lasting_Create by blast
  obtain m' w' where m': "Create (\<lambda>_. None) (cluster_command 0) (\<lambda>_. 400) (Ctx 1 Canceled) ''https://a'' 0 (node_world (put_world 0 ?w ?C) 0) = (Ret m', w')"
      "m_ExpiresAt m' = None"
    using lasting_again put_node(1) [OF nodes(1)] by fastforce
  have r0: "demo_busy ({}, empty_cluster, []) ({}, ?C, [])" using cluster_calls [OF started] by simp
  obtain H1 where "demo_busy ({}, ?C, []) (H1, put_world 0 ?w ?C, [] @ [?x m])"
    using whole_Create_run [of "\<lambda>_. None" cluster_command 0, OF m(1) e nodes(1,2)] by blast
  then have r1: "demo_busy ({}, ?C, []) (H1, put_world 0 ?w ?C, [?x m])" by simp
  obtain H2 where "demo_busy (H1, put_world 0 ?w ?C, [?x m]) (H2, put_world 0 w' (put_world 0 ?w ?C), [?x m] @ [?x m'])"
    using whole_Create_run [of "\<lambda>_. None" cluster_command 0, OF m'(1) e nodes(3,4)] by blast
  then have "demo_busy (H1, put_world 0 ?w ?C, [?x m]) (H2, put_world 0 w' (put_world 0 ?w ?C), [?x m, ?x m'])" by simp
  from rtranclp_trans [OF rtranclp_trans [OF r0 r1] this]
  have "demo_busy ({}, empty_cluster, []) (H2, put_world 0 w' (put_world 0 ?w ?C), [?x m, ?x m'])" .
  then show ?thesis unfolding empty_links using m(2) m'(2) by blast
qed

section \<open>Properties\<close>

text \<open>
  C3. A short link leads where it was made to lead, everywhere and for ever, however requests interleave: let any number of nodes
  and read-only nodes share a database, a redis server and a table of sequences, starting from a table whose numbers are
  below the sequence; let calls of \<open>Create\<close>, \<open>Delete\<close> and \<open>Retrieve\<close> run at the same time and interleave at every call on a cache, on the
  table or on the sequence, with janitors, sequence workers, joins and stops, and with failures of the database and of the caches.
  Take any call of \<open>Create\<close> that returned a code and any call of \<open>Retrieve\<close> for that code, or for another code of its number,
  that returned a URL: it is the URL the code was made for, up to the collation of the column.
\<close>

theorem link_stable_concurrent:
  assumes cluster: "turl_cluster cs qs rs rows coll colt rh lh db cell oor"
    and start: "fresh_cluster rows coll rh cell row C0"
    and run: "(busy_step colt lh db oor row cs qs rs)\<^sup>*\<^sup>* (table_links (rows (shared_database C0)), C0, []) (H, C, A)"
    and create: "(s, Creating http_url ctx long ttl (CDone (Ret m))) \<in> set A"
    and follow: "(s', Retrieving short (RDone (Ret long'))) \<in> set A" "Base58Decode short = Base58Decode (m_ShortURL m)"
  shows "coll long long'"
proof -
  have inv: "turl_cluster.busy_inv rows coll colt rh lh cell row (H, C, A)"
    using turl_cluster.busy_run_inv [OF cluster run turl_cluster.fresh_busy [OF cluster start]] by simp
  obtain n u e where n: "m_ShortURL m = Base58Encode n" "(n, u, e) \<in> H" "coll u long"
    using turl_cluster.created [OF cluster inv create] by blast
  obtain n' u' e' where n': "Base58Decode short = Ret n'" "(n', u', e') \<in> H" "coll u' long'"
    using turl_cluster.answered [OF cluster inv follow(1)] by blast
  have "n' = n" using Base58_key follow(2) n(1) n'(1) by simp
  then have "u = u'"
    using turl_cluster.same_number_same_url(1) [OF cluster turl_cluster.busy_number_inv [OF cluster inv]] n(2) n'(2) by simp
  then show ?thesis using turl_cluster.coll_join [OF cluster n(3)] n'(3) by simp
qed

theorem link_stable_concurrent_witness:
  "\<exists>H C A m l. demo_busy (table_links (shared_database empty_cluster), empty_cluster, []) (H, C, A) \<and> race_create (CDone (Ret m)) \<in> set A \<and>
    (AtReader 0, Retrieving (m_ShortURL m) (RDone (Ret l))) \<in> set A \<and> ''https://a'' = l"
proof -
  obtain H C where run: "demo_busy (table_links (shared_database empty_cluster), empty_cluster, [])
      (H, C, race_end)"
    using race_reached by blast
  obtain m where m: "race_created = Ret m" "m_ShortURL m = ''8''" using race_created_code by blast
  have A: "race_create (CDone (Ret m)) \<in> set race_end" "(AtReader 0, Retrieving (m_ShortURL m) (RDone (Ret ''https://a''))) \<in> set race_end"
    using m by simp_all
  then have "''https://a'' = ''https://a''"
    by (rule link_stable_concurrent [OF demo_cluster.turl_cluster_axioms empty_fresh run]) simp
  with run A show ?thesis by blast
qed

text \<open>
  C4. A code never changes its target, however requests interleave: in a cluster as above, all the calls of \<open>Retrieve\<close> of a run for
  the same number that were answered with a URL, on any nodes and at any moments, were answered with the same URL, up to collation.
\<close>

theorem code_one_target_concurrent:
  assumes cluster: "turl_cluster cs qs rs rows coll colt rh lh db cell oor"
    and start: "fresh_cluster rows coll rh cell row C0"
    and run: "(busy_step colt lh db oor row cs qs rs)\<^sup>*\<^sup>* (table_links (rows (shared_database C0)), C0, []) (H, C, A)"
    and first: "(s, Retrieving short (RDone (Ret long))) \<in> set A" and second: "(s', Retrieving short' (RDone (Ret long'))) \<in> set A"
    and same: "Base58Decode short' = Base58Decode short"
  shows "coll long long'"
proof -
  have inv: "turl_cluster.busy_inv rows coll colt rh lh cell row (H, C, A)"
    using turl_cluster.busy_run_inv [OF cluster run turl_cluster.fresh_busy [OF cluster start]] by simp
  obtain n u e where n: "Base58Decode short = Ret n" "(n, u, e) \<in> H" "coll u long"
    using turl_cluster.answered [OF cluster inv first] by blast
  obtain n' u' e' where n': "Base58Decode short' = Ret n'" "(n', u', e') \<in> H" "coll u' long'"
    using turl_cluster.answered [OF cluster inv second] by blast
  have "u = u'"
    using turl_cluster.same_number_same_url(1) [OF cluster turl_cluster.busy_number_inv [OF cluster inv]] n(1,2) n'(1,2) same by simp
  then show ?thesis using turl_cluster.coll_join [OF cluster n(3)] n'(3) by simp
qed

theorem code_one_target_concurrent_witness:
  "\<exists>H C A u v. demo_busy (table_links (shared_database empty_cluster), empty_cluster, []) (H, C, A) \<and>
    (AtNode 0, Retrieving ''8'' (RDone (Ret u))) \<in> set A \<and> (AtReader 0, Retrieving ''8'' (RDone (Ret v))) \<in> set A \<and> u = v"
proof -
  obtain H C where run: "demo_busy (table_links (shared_database empty_cluster), empty_cluster, [])
      (H, C, race_end)"
    using race_reached by blast
  have A: "(AtNode 0, Retrieving ''8'' (RDone (Ret ''https://a''))) \<in> set race_end"
    "(AtReader 0, Retrieving ''8'' (RDone (Ret ''https://a''))) \<in> set race_end" by simp_all
  then have "''https://a'' = ''https://a''"
    by (rule code_one_target_concurrent [OF demo_cluster.turl_cluster_axioms empty_fresh run]) simp
  with run A show ?thesis by blast
qed

text \<open>
  C5. Shortening a URL again gives the same code, however requests interleave: in a cluster as above, take any two calls of \<open>Create\<close> of a
  run, on any nodes, that returned links that never expire. They returned the same code exactly when they were
  asked for the same URL, up to collation, whatever else ran between and at the same time, deletions of the link and the janitor
  included.
\<close>

theorem create_agrees:
  assumes cluster: "turl_cluster cs qs rs rows coll colt rh lh db cell oor"
    and start: "fresh_cluster rows coll rh cell row C0"
    and run: "(busy_step colt lh db oor row cs qs rs)\<^sup>*\<^sup>* (table_links (rows (shared_database C0)), C0, []) (H, C, A)"
    and first: "(s, Creating http_url ctx long ttl (CDone (Ret m))) \<in> set A" "m_ExpiresAt m = None"
    and second: "(s', Creating http_url' ctx' long' ttl' (CDone (Ret m'))) \<in> set A" "m_ExpiresAt m' = None"
  shows "m_ShortURL m = m_ShortURL m' \<longleftrightarrow> coll long long'"
proof -
  note fresh = turl_cluster.fresh_busy [OF cluster start]
  have inv: "turl_cluster.lasting_inv rows coll (H, C, A)"
    using turl_cluster.busy_run_lasting [OF cluster run fresh] by (simp add: turl_cluster.lasting_inv_def [OF cluster])
  have u: "unique_indexes coll (rows (shared_database C))"
    using turl_cluster.busy_run_unique [OF cluster run fresh] start by (simp add: fresh_cluster_def)
  have eq: "equivp coll" by (rule link_store.coll_eq [OF turl_node.store [OF turl_cluster.node [OF cluster]]])
  obtain t where t: "t \<in> set (rows (shared_database C))" "m_ShortURL m = Base58Encode (Short t)" "coll (LongURL t) long"
    using turl_cluster.created_row [OF cluster inv first] by blast
  obtain t' where t': "t' \<in> set (rows (shared_database C))" "m_ShortURL m' = Base58Encode (Short t')" "coll (LongURL t') long'"
    using turl_cluster.created_row [OF cluster inv second] by blast
  have "Short t = Short t' \<or> coll (LongURL t) (LongURL t') \<Longrightarrow> t = t'"
    using unique_eq [OF eq u t(1) t'(1)] by (auto simp: conflict_def)
  moreover have "Base58Encode (Short t) = Base58Encode (Short t') \<longleftrightarrow> Short t = Short t'" using Base58Encode_inj by (auto dest: injD)
  moreover have "coll long long' \<longleftrightarrow> coll (LongURL t) (LongURL t')" using t(3) t'(3) coll_facts [OF eq] by metis
  moreover have "coll x x" for x by (rule coll_facts [OF eq])
  ultimately show ?thesis using t(2) t'(2) by auto
qed

theorem create_agrees_witness:
  "\<exists>H C A m m'. demo_busy (table_links (shared_database empty_cluster), empty_cluster, []) (H, C, A) \<and> length A = 2 \<and>
    snd (A ! 0) = Creating (\<lambda>_. None) (Ctx 1 Canceled) ''https://a'' 0 (CDone (Ret m)) \<and>
    snd (A ! 1) = Creating (\<lambda>_. None) (Ctx 1 Canceled) ''https://a'' 0 (CDone (Ret m')) \<and> m_ShortURL m = m_ShortURL m'"
proof -
  let ?x = "\<lambda>m. (AtNode 0, Creating (\<lambda>_. None) (Ctx 1 Canceled) ''https://a'' 0 (CDone (Ret m)))"
  obtain H C m m' where run: "demo_busy (table_links (shared_database empty_cluster), empty_cluster, []) (H, C, [?x m, ?x m'])"
    and "m_ExpiresAt m = None" "m_ExpiresAt m' = None"
    using lasting_reached by blast
  then have "m_ShortURL m = m_ShortURL m' \<longleftrightarrow> ''https://a'' = ''https://a''"
    by (intro create_agrees [OF demo_cluster.turl_cluster_axioms empty_fresh run, of "AtNode 0" "\<lambda>_. None" "Ctx 1 Canceled" _ 0 _
          "AtNode 0" "\<lambda>_. None" "Ctx 1 Canceled" _ 0]) simp_all
  with run show ?thesis by (intro exI [of _ H] exI [of _ C] exI [of _ "[?x m, ?x m']"] exI [of _ m] exI [of _ m']) simp
qed

text \<open>
  C6. A cluster implements a map of links, step by step, however requests interleave: take any run of a cluster with its calls, from a table whose
  unique indexes hold. The run has labels, one for each step, which name the call that the step makes on the table and whether the table
  reported success; and with whatever labels it has, the map of the live rows makes a run with the same labels in the same order. So
  each step does to the map exactly what its label allows: an insertion that succeeds adds its own link, under a number that was free and
  for a URL that had no link, one that fails adds that link or nothing; a deletion removes the link of its own number, or
  nothing when it fails; a tick of a janitor removes only links whose expiry is before the time of the tick; every other step removes and adds nothing, and no
  step changes the URL or the expiry of a link. The unique indexes hold at the end.
\<close>

theorem requests_refine_links:
  assumes cluster: "turl_cluster cs qs rs rows coll colt rh lh db cell oor"
    and start: "fresh_cluster rows coll rh cell row C0"
    and run: "(busy_step colt lh db oor row cs qs rs)\<^sup>*\<^sup>* (table_links (rows (shared_database C0)), C0, []) (H, C, A)"
  shows "(\<exists>acts. labelled_run (busy_act colt lh db oor row cs qs rs) acts (table_links (rows (shared_database C0)), C0, []) (H, C, A)) \<and>
    (\<forall>acts. labelled_run (busy_act colt lh db oor row cs qs rs) acts (table_links (rows (shared_database C0)), C0, []) (H, C, A) \<longrightarrow>
       labelled_run (link_step coll) acts (links_of (rows (shared_database C0))) (links_of (rows (shared_database C)))) \<and>
    unique_indexes coll (rows (shared_database C))"
proof (intro conjI allI impI)
  note fresh = turl_cluster.fresh_busy [OF cluster start]
  have u: "unique_indexes coll (rows (shared_database C0))" using start by (simp add: fresh_cluster_def)
  show "\<exists>acts. labelled_run (busy_act colt lh db oor row cs qs rs) acts (table_links (rows (shared_database C0)), C0, []) (H, C, A)"
    using run by (rule run_has_labels) (rule busy_step_act)
  show "unique_indexes coll (rows (shared_database C))" using turl_cluster.busy_run_unique [OF cluster run fresh] u by simp
  fix acts assume "labelled_run (busy_act colt lh db oor row cs qs rs) acts (table_links (rows (shared_database C0)), C0, []) (H, C, A)"
  then show "labelled_run (link_step coll) acts (links_of (rows (shared_database C0))) (links_of (rows (shared_database C)))"
    using turl_cluster.busy_run_rows [OF cluster _ fresh] u by fastforce
qed

theorem requests_refine_links_witness:
  "\<exists>acts. labelled_run (link_step (=)) acts (links_of []) (links_of race_gone) \<and> links_of race_gone 7 = None"
proof -
  obtain H C where run: "demo_busy (table_links (shared_database empty_cluster), empty_cluster, []) (H, C, race_end)"
    "shared_database C = race_gone"
    using race_reached by blast
  have "links_of race_gone 7 = None" by (simp add: links_of_None race_gone_def)
  moreover have "\<exists>acts. labelled_run (link_step (=)) acts (links_of (shared_database empty_cluster)) (links_of (shared_database C))"
    using requests_refine_links [OF demo_cluster.turl_cluster_axioms empty_fresh run(1)] by blast
  ultimately show ?thesis using run(2) by (simp add: empty_cluster_def)
qed

lemma link_run_keeps:
  assumes "labelled_run (link_step coll) acts M M'" "M n = Some (u, e)" "\<And>ok. DropLink ok n \<notin> set acts"
    "\<And>now x. Reap now \<in> set acts \<Longrightarrow> e = Some x \<Longrightarrow> \<not> x < now"
  shows "M' n = Some (u, e)"
  using assms
proof (induction acts arbitrary: M)
  case (Cons a acts)
  then obtain M1 where M1: "link_step coll a M M1" "labelled_run (link_step coll) acts M1 M'" by auto
  have "M1 n = Some (u, e)"
    using M1(1)
  proof (cases rule: link_step.cases)
    case (reaped now)
    have "M1 n \<noteq> None" using reaped(3) Cons.prems(2,4) reaped(1) by (metis list.set_intros(1))
    then show ?thesis using reaped(2) Cons.prems(2) by (metis domIff map_le_def)
  qed (use Cons.prems(2,3) in auto)
  then show ?case using Cons.IH [OF M1(2)] Cons.prems(3,4) by fastforce
qed simp

text \<open>
  C18. A link that exists is lost only by its own deletion or by its expiry: at any moment of a run of a cluster with its calls, let the table have a
  live link under a number. However the calls, the janitors, the workers of the sequence clients, joins and stops go on, with
  failures of the table and of the caches, the number keeps this URL and this expiry as long as no call of \<open>Delete\<close> removes the row of the number
  and no janitor ticks after the expiry; a link that never expires is kept by all janitors.
\<close>

theorem link_persists:
  assumes cluster: "turl_cluster cs qs rs rows coll colt rh lh db cell oor"
    and start: "fresh_cluster rows coll rh cell row C0"
    and run: "(busy_step colt lh db oor row cs qs rs)\<^sup>*\<^sup>* (table_links (rows (shared_database C0)), C0, []) (H, C, A)"
    and live: "links_of (rows (shared_database C)) n = Some (u, e)"
    and later: "labelled_run (busy_act colt lh db oor row cs qs rs) acts (H, C, A) (H', C', A')"
    and kept: "\<And>ok. DropLink ok n \<notin> set acts" "\<And>now x. Reap now \<in> set acts \<Longrightarrow> e = Some x \<Longrightarrow> \<not> x < now"
  shows "links_of (rows (shared_database C')) n = Some (u, e)"
proof -
  note fresh = turl_cluster.fresh_busy [OF cluster start]
  have "unique_indexes coll (rows (shared_database C))"
    using turl_cluster.busy_run_unique [OF cluster run fresh] start by (simp add: fresh_cluster_def)
  then have "labelled_run (link_step coll) acts (links_of (rows (shared_database C))) (links_of (rows (shared_database C')))"
    using turl_cluster.busy_run_rows [OF cluster later conjunct1 [OF turl_cluster.busy_run_inv [OF cluster run fresh]]] by simp
  then show ?thesis using live kept by (rule link_run_keeps)
qed

theorem link_persists_witness:
  "\<exists>H C A H' C' A'. demo_busy (table_links (shared_database empty_cluster), empty_cluster, []) (H, C, A) \<and>
    links_of (shared_database C) 7 = Some (''https://a'', Some 1000) \<and>
    labelled_run (busy_act (\<lambda>t. t) (\<lambda>l k v. l k = Some v) row_db 0 1 cluster_command (\<lambda>_. demo_query) (\<lambda>_. demo_query)) [Reap 500] (H, C, A) (H', C', A') \<and>
    links_of (shared_database C') 7 = Some (''https://a'', Some 1000)"
proof -
  let ?C = "race_cluster [shared_row] Map.empty Map.empty Map.empty" and ?A = "[race_create (CCache 7 shared_row)]"
  let ?w = "janitor_tick (cluster_command 0) 500 (node_world ?C 0)"
  obtain H where run: "demo_busy (table_links (shared_database empty_cluster), empty_cluster, []) (H, ?C, ?A)"
    using race_start unfolding empty_links by blast
  have live: "links_of (shared_database ?C) 7 = Some (''https://a'', Some 1000)"
    by (simp add: race_cluster_def race_world_def links_of_def shared_row_def zero_TinyURL_def)
  have "node_act (\<lambda>t. t) (cluster_command 0) demo_query (Reap 500) (H, node_world ?C 0) (H, ?w)" by (rule node_act.janitor)
  then have later: "labelled_run (busy_act (\<lambda>t. t) (\<lambda>l k v. l k = Some v) row_db 0 1 cluster_command (\<lambda>_. demo_query) (\<lambda>_. demo_query)) [Reap 500]
      (H, ?C, ?A) (H, put_world 0 ?w ?C, ?A)"
    unfolding labelled_run.simps
    by (intro exI [of _ "(H, put_world 0 ?w ?C, ?A)"] conjI refl busy_act.cluster cluster_act.call)
      (simp_all add: race_cluster_def put_world_def started_cluster_def race_world_def demo_node_def deliver_def worker_loop_def)
  have "links_of (shared_database (put_world 0 ?w ?C)) 7 = Some (''https://a'', Some 1000)"
    by (rule link_persists [OF demo_cluster.turl_cluster_axioms empty_fresh run live later]) simp_all
  with run live later show ?thesis by blast
qed

text \<open>
  A call that is not interrupted is the function of the service: the steps of \<open>Retrieve\<close> in a row do to the node and answer
  exactly what \<open>Retrieve\<close> does with the same readings of the clock; so do the steps of \<open>Delete\<close>, and those of \<open>Create\<close>, which are
  four when the URL is found as a duplicate and three otherwise.
\<close>

lemma calls_in_a_row:
  "in_a_row (retrieve_step q short) [clk 0, clk 1, clk 2] RLookup w = apfst RDone (Retrieve q clk short w) \<and>
   in_a_row (\<lambda>_. delete_step c short) [t, t'] DRow w = apfst DDone (Delete_link c short w) \<and>
   (in_a_row (create_step http_url c ctx long ttl) [t, clk 0, t', clk 1] CNext w = apfst CDone (Create http_url c clk ctx long ttl w) \<or>
    in_a_row (create_step http_url c ctx long ttl) [t, clk 0, clk 1] CNext w = apfst CDone (Create http_url c clk ctx long ttl w))"
  using retrieve_in_a_row delete_in_a_row create_in_a_row by blast

lemma advance_steps_left: "steps_left (fst (advance c q now x w)) \<le> steps_left x - 1"
proof (cases x)
  case (Creating http_url ctx long ttl p)
  then show ?thesis by (cases p) (auto simp: Let_def split: option.split prod.split outcome.split)
next
  case (Deleting short p)
  then show ?thesis by (cases p) (auto split: prod.split outcome.split)
next
  case (Retrieving short p)
  then show ?thesis by (cases p) (auto split: prod.split outcome.split option.split)
qed

text \<open>
  Every call finishes: after four steps of its own a call is done, whatever the nodes have made of the world between one step
  and the next.
\<close>

lemma calls_finish:
  assumes "length ts = 4"
  shows "steps_left (fold (\<lambda>(now, w) x. fst (advance c q now x w)) ts x) = 0"
proof -
  have "steps_left (fold (\<lambda>(now, w) x. fst (advance c q now x w)) ts x) \<le> steps_left x - length ts" for ts
  proof (induction ts arbitrary: x)
    case (Cons y ts)
    obtain now w where y: "y = (now, w)" by (metis prod.exhaust)
    show ?case using Cons.IH [of "fst (advance c q now x w)"] advance_steps_left [of c q now x w] y by simp
  qed simp
  moreover have "steps_left x \<le> 4" by (cases x) (auto split: create_pc.split delete_pc.split retrieve_pc.split)
  ultimately show ?thesis using assms by (metis diff_is_0_eq le_zero_eq)
qed

lemma calls_finish_witness:
  "steps_left (fold (\<lambda>(now, w) x. fst (advance (cluster_command 0) demo_query now x w))
      (replicate 4 (400, race_world [shared_row] Map.empty Map.empty Map.empty)) (Retrieving ''8'' RLookup)) = 0"
  by (rule calls_finish) simp

text \<open>
  C19. A deleted link can come back to redis: there is a run of a cluster in which a call of \<open>Retrieve\<close> reads the row of a new link before
  \<open>Create\<close> has cached it, a \<open>Delete\<close> of the link runs and returns without an error, leaving a deleted row and an empty redis; then the
  call of \<open>Retrieve\<close> goes on and caches what it had read, and a \<open>Retrieve\<close> that begins after all this on another node, whose
  local cache is empty, is answered with the URL.
\<close>

theorem delete_race:
  "\<exists>H C A H' C' A'. demo_busy (table_links (shared_database empty_cluster), empty_cluster, []) (H, C, A) \<and>
    (AtNode 0, Deleting ''8'' (DDone (Ret ()))) \<in> set A \<and> links_of (shared_database C) 7 = None \<and> shared_redis C = Map.empty \<and>
    fst (readers C ! 0) = Map.empty \<and>
    demo_busy (H, C, A) (H', C', A' @ [(AtReader 0, Retrieving ''8'' (RDone (Ret ''https://a'')))]) \<and> length A' = length A"
proof -
  obtain H C H' C' where run: "demo_busy (table_links (shared_database empty_cluster), empty_cluster, []) (H, C, race_calls (DDone (Ret ())) (RFill shared_row))"
    "shared_database C = race_gone" "shared_redis C = Map.empty" "readers C = [(Map.empty, [])]"
    "demo_busy (H, C, race_calls (DDone (Ret ())) (RFill shared_row)) (H', C', race_end)"
    using race_run by blast
  have "links_of race_gone 7 = None" by (simp add: links_of_None race_gone_def)
  with run show ?thesis
    by (intro exI [of _ H] exI [of _ C] exI [of _ H'] exI [of _ C'] exI [of _ "race_calls (DDone (Ret ())) (RFill shared_row)"]
        exI [of _ "race_calls (DDone (Ret ())) (RDone (Ret ''https://a''))"]) simp
qed

end
