(* ===== verification/Handler.thy ===== *)
theory Handler
  imports Service
begin

text \<open>
  The handlers (\<open>app/turl/handler.go\<close>) over the interface \<open>Service\<close>. The outcome of binding a request is an argument of a
  handler, \<open>err.Error()\<close> is the parameter \<open>errStr\<close>. The fields \<open>s\<close> and \<open>health\<close> of the struct hold the same service, which is
  \<open>svc\<close> here.
\<close>

section \<open>Requests and responses\<close>

record CreateRequest =
  req_LongURL :: string
  req_TTLSeconds :: int

record ShortenRequest =
  req_ShortURL :: string

record ShortenResponse =
  resp_TinyURL :: TinyURL_model
  resp_Error :: string

datatype response =
    JSON nat ShortenResponse
  | Redirected nat string
  | Aborted nat
  | HealthOK

text \<open>A handler writes a response or panics.\<close>

datatype handled = Wrote response | Panicked string

definition StatusOK :: nat where "StatusOK = 200"
definition StatusFound :: nat where "StatusFound = 302"
definition StatusBadRequest :: nat where "StatusBadRequest = 400"
definition StatusNotFound :: nat where "StatusNotFound = 404"
definition StatusGone :: nat where "StatusGone = 410"
definition StatusTooManyRequests :: nat where "StatusTooManyRequests = 429"
definition StatusInternalServerError :: nat where "StatusInternalServerError = 500"

lemmas status_defs = StatusOK_def StatusFound_def StatusBadRequest_def StatusNotFound_def StatusGone_def
  StatusTooManyRequests_def StatusInternalServerError_def

fun status_of :: "response \<Rightarrow> nat" where
  "status_of (JSON n _) = n"
| "status_of (Redirected n _) = n"
| "status_of (Aborted n) = n"
| "status_of HealthOK = StatusOK"

definition errMsgInvalidShortURL :: string where
  "errMsgInvalidShortURL = ''invalid short URL''"

definition zero_model :: TinyURL_model where
  "zero_model = \<lparr>m_ShortURL = [], m_LongURL = [], m_CreatedAt = 0, m_DeletedAt = None, m_ExpiresAt = None\<rparr>"

definition reply :: "nat \<Rightarrow> TinyURL_model \<Rightarrow> string \<Rightarrow> response" where
  "reply status t err = JSON status \<lparr>resp_TinyURL = t, resp_Error = err\<rparr>"

section \<open>The interface of the service\<close>

record 'w service_iface =
  svc_Create :: "bytes \<Rightarrow> duration \<Rightarrow> 'w \<Rightarrow> TinyURL_model outcome \<times> 'w"
  svc_GetByLong :: "bytes \<Rightarrow> 'w \<Rightarrow> TinyURL_model outcome \<times> 'w"
  svc_Retrieve :: "bytes \<Rightarrow> 'w \<Rightarrow> bytes outcome \<times> 'w"
  svc_Delete :: "bytes \<Rightarrow> 'w \<Rightarrow> unit outcome \<times> 'w"
  svc_Close :: "'w \<Rightarrow> (unit outcome \<times> 'w) option"
  svc_CheckHealth :: "'w \<Rightarrow> unit outcome \<times> 'w"

text \<open>
  The methods of \<open>service\<close> are those of the two structs it embeds; a call on a part that is nil reads
  through a nil pointer. The validator, the clock and the context are those of the request.
\<close>

definition service_methods ::
  "(bytes \<Rightarrow> goerr option) \<Rightarrow> (nat \<Rightarrow> time) \<Rightarrow> ctx \<Rightarrow> ('d, 'r, 'l, 's) service \<Rightarrow>
   ('d, 'r, 'l, 's) world service_iface" where
  "service_methods http_url clk ctx s =
     \<lparr>svc_Create = (\<lambda>long ttl w. case commandPart s of
        None \<Rightarrow> (Panic ''nil pointer dereference'', w) | Some c \<Rightarrow> Create http_url c clk ctx long ttl w),
      svc_GetByLong = (\<lambda>long w. case queryPart s of
        None \<Rightarrow> (Panic ''nil pointer dereference'', w) | Some q \<Rightarrow> GetByLong http_url q long w),
      svc_Retrieve = (\<lambda>short w. case queryPart s of
        None \<Rightarrow> (Panic ''nil pointer dereference'', w) | Some q \<Rightarrow> Retrieve q clk short w),
      svc_Delete = (\<lambda>short w. case commandPart s of
        None \<Rightarrow> (Panic ''nil pointer dereference'', w) | Some c \<Rightarrow> Delete_link c short w),
      svc_Close = service_Close s, svc_CheckHealth = CheckHealth s\<rparr>"

section \<open>The handlers\<close>

record 'w Handler =
  domain :: string
  svc :: "'w service_iface"

definition CheckReadiness :: "'w Handler \<Rightarrow> 'w \<Rightarrow> unit outcome \<times> 'w" where
  "CheckReadiness h w = svc_CheckHealth (svc h) w"

definition handler_Create ::
  "(goerr \<Rightarrow> string) \<Rightarrow> 'w Handler \<Rightarrow> CreateRequest \<times> goerr option \<Rightarrow> 'w \<Rightarrow> handled \<times> 'w" where
  "handler_Create errStr h bound w =
     (case bound of
        (req, Some err) \<Rightarrow> (Wrote (reply StatusBadRequest (zero_model\<lparr>m_LongURL := req_LongURL req\<rparr>) (errStr err)), w)
      | (req, None) \<Rightarrow>
          (let ttl = int64 (req_TTLSeconds req * Second) in
           (case svc_Create (svc h) (req_LongURL req) ttl w of
              (Err err, w') \<Rightarrow>
                (Wrote (reply StatusInternalServerError (zero_model\<lparr>m_LongURL := req_LongURL req\<rparr>) (errStr err)), w')
            | (Panic p, w') \<Rightarrow> (Panicked p, w')
            | (Ret record, w') \<Rightarrow>
                (Wrote (reply StatusOK (record\<lparr>m_ShortURL := domain h @ ''/'' @ m_ShortURL record\<rparr>) ''''), w'))))"

definition handler_Redirect ::
  "(goerr \<Rightarrow> string) \<Rightarrow> 'w Handler \<Rightarrow> string \<Rightarrow> 'w \<Rightarrow> handled \<times> 'w" where
  "handler_Redirect errStr h short w =
     (let t = zero_model\<lparr>m_ShortURL := short\<rparr> in
      if length short > 8 \<or> length short < 6 then (Wrote (reply StatusBadRequest t errMsgInvalidShortURL), w)
      else
        (case svc_Retrieve (svc h) short w of
           (Panic p, w') \<Rightarrow> (Panicked p, w')
         | (Err err, w') \<Rightarrow>
             (if errors_Is err ErrInvalidInput then (Wrote (reply StatusBadRequest t errMsgInvalidShortURL), w')
              else if errors_Is err ErrExpired then (Wrote (reply StatusGone t ''short URL expired''), w')
              else if errors_Is err ErrRecordNotFound then (Wrote (reply StatusNotFound t ''short URL not found''), w')
              else (Wrote (reply StatusInternalServerError t (errStr err)), w'))
         | (Ret long, w') \<Rightarrow> (Wrote (Redirected StatusFound long), w')))"

definition handler_GetShortenInfo ::
  "(goerr \<Rightarrow> string) \<Rightarrow> 'w Handler \<Rightarrow> CreateRequest \<times> goerr option \<Rightarrow> 'w \<Rightarrow> handled \<times> 'w" where
  "handler_GetShortenInfo errStr h bound w =
     (case bound of
        (req, Some err) \<Rightarrow> (Wrote (reply StatusBadRequest (zero_model\<lparr>m_LongURL := req_LongURL req\<rparr>) (errStr err)), w)
      | (req, None) \<Rightarrow>
          (case svc_GetByLong (svc h) (req_LongURL req) w of
             (Err err, w') \<Rightarrow> (Wrote (reply StatusInternalServerError zero_model (errStr err)), w')
           | (Panic p, w') \<Rightarrow> (Panicked p, w')
           | (Ret record, w') \<Rightarrow>
               (Wrote (reply StatusOK (record\<lparr>m_ShortURL := domain h @ ''/'' @ m_ShortURL record\<rparr>) ''''), w')))"

definition handler_Delete ::
  "(goerr \<Rightarrow> string) \<Rightarrow> 'w Handler \<Rightarrow> ShortenRequest \<times> goerr option \<Rightarrow> 'w \<Rightarrow> handled \<times> 'w" where
  "handler_Delete errStr h bound w =
     (case bound of
        (req, Some err) \<Rightarrow> (Wrote (reply StatusBadRequest (zero_model\<lparr>m_ShortURL := req_ShortURL req\<rparr>) (errStr err)), w)
      | (req, None) \<Rightarrow>
          (let t = zero_model\<lparr>m_ShortURL := req_ShortURL req\<rparr> in
           (case svc_Delete (svc h) (req_ShortURL req) w of
              (Panic p, w') \<Rightarrow> (Panicked p, w')
            | (Err err, w') \<Rightarrow>
                (if errors_Is err ErrInvalidInput then (Wrote (reply StatusBadRequest t errMsgInvalidShortURL), w')
                 else if errors_Is err ErrRecordNotFound then (Wrote (reply StatusNotFound t ''short URL not found''), w')
                 else (Wrote (reply StatusInternalServerError t (errStr err)), w'))
            | (Ret _, w') \<Rightarrow> (Wrote (reply StatusOK t ''''), w'))))"

definition handler_Close :: "'w Handler \<Rightarrow> 'w \<Rightarrow> (unit outcome \<times> 'w) option" where
  "handler_Close h w = svc_Close (svc h) w"

definition NewHandler ::
  "(bytes \<Rightarrow> goerr option) \<Rightarrow> (nat \<Rightarrow> time) \<Rightarrow> ctx \<Rightarrow> ('d, 'r, 'l, 'q) deps \<Rightarrow> ServerConfig \<Rightarrow>
   (('d, 'r, 'l, 'q) node_world Handler \<times> ('d, 'r, 'l, 'q) node_world) outcome option" where
  "NewHandler http_url clk ctx env c =
     (case newService env c of
        None \<Rightarrow> None
      | Some (Err err) \<Rightarrow> Some (Err err)
      | Some (Panic p) \<Rightarrow> Some (Panic p)
      | Some (Ret (s, w)) \<Rightarrow> Some (Ret (\<lparr>domain = Domain c, svc = service_methods http_url clk ctx s\<rparr>, w)))"

section \<open>Properties\<close>

text \<open>
  C28. How a redirect is answered: a code of fewer than six or more than eight characters gets status 400 and
  the service is not asked; otherwise the answer is a redirect (302) to the URL exactly when \<open>Retrieve\<close> returned
  it, 400 exactly for an invalid code, 410 exactly for an expired link, 404 exactly for an unknown one, and
  500 for every other error.
\<close>

theorem Redirect_response:
  assumes "handler_Redirect errStr h short w = (Wrote r, w')" "res = svc_Retrieve (svc h) short w"
  shows "if length short < 6 \<or> 8 < length short then status_of r = 400 \<and> w' = w
    else w' = snd res \<and>
      (r = Redirected 302 long \<longleftrightarrow> fst res = Ret long) \<and> (status_of r = 302 \<longleftrightarrow> (\<exists>url. fst res = Ret url)) \<and>
      (status_of r = 400 \<longleftrightarrow> (\<exists>e. fst res = Err e \<and> errors_Is e ErrInvalidInput)) \<and>
      (status_of r = 410 \<longleftrightarrow> (\<exists>e. fst res = Err e \<and> \<not> errors_Is e ErrInvalidInput \<and> errors_Is e ErrExpired)) \<and>
      (status_of r = 404 \<longleftrightarrow> (\<exists>e. fst res = Err e \<and> \<not> errors_Is e ErrInvalidInput \<and> \<not> errors_Is e ErrExpired \<and>
         errors_Is e ErrRecordNotFound)) \<and>
      (status_of r = 500 \<longleftrightarrow> (\<exists>e. fst res = Err e \<and> \<not> errors_Is e ErrInvalidInput \<and> \<not> errors_Is e ErrExpired \<and>
         \<not> errors_Is e ErrRecordNotFound))"
proof (cases "length short > 8 \<or> length short < 6")
  case True
  then show ?thesis using assms(1) by (auto simp: handler_Redirect_def reply_def status_defs Let_def)
next
  case False
  obtain x w1 where x: "svc_Retrieve (svc h) short w = (x, w1)" by (metis prod.exhaust)
  then show ?thesis
    using assms False
    by (cases x) (auto simp: handler_Redirect_def reply_def status_defs Let_def split: if_splits)
qed

definition demo_handler :: "demo_world Handler" where
  "demo_handler = \<lparr>domain = ''https://t.io'',
     svc = service_methods (\<lambda>_. None) (\<lambda>_. 500) (Ctx 1 Canceled) \<lparr>commandPart = Some demo_command, queryPart = Some demo_query\<rparr>\<rparr>"

lemma demo_unknown: "Retrieve demo_query clk ''111118'' (demo_world [] 7) = (Err ErrRecordNotFound, demo_world [] 7)"
proof -
  have "Base58Decode ''111118'' = Ret 7"
    by (simp add: Base58Decode_def maxBytes_def decode_loop.simps indices_def chars_def enumerate_eq_zip pow58_def pow_eq_power carry_def)
  then show ?thesis
    by (simp add: Retrieve_def fromCache_def demo_query_def demo_world_def on_query_cache_def on_db_def proxy_Get_def
        map_proxy_def on_local_def on_dist_def localCache_Get_def redisCache_Get_def map_redis_def map_big_def
        storage_GetByShortID_def list_db_def)
qed

theorem Redirect_response_witness:
  "\<exists>r. handler_Redirect (\<lambda>_. '''') demo_handler ''111118'' (demo_world [] 7) = (Wrote r, demo_world [] 7) \<and> status_of r = 404"
proof -
  have svc: "svc_Retrieve (svc demo_handler) ''111118'' (demo_world [] 7) = (Err ErrRecordNotFound, demo_world [] 7)"
    using demo_unknown by (simp add: demo_handler_def service_methods_def)
  obtain r w' where r: "handler_Redirect (\<lambda>_. '''') demo_handler ''111118'' (demo_world [] 7) = (Wrote r, w')"
    by (simp add: handler_Redirect_def svc)
  from Redirect_response [OF r refl, of "[]"] r show ?thesis by (simp add: svc)
qed

text \<open>
  C30. The lifetime of a request: for up to 9223372036 seconds the service is handed exactly the requested
  lifetime, and zero seconds give a link that never expires; but the product is computed in 64 bits, so a
  larger number of seconds wraps, and where it wraps to a value that is not positive the link never expires.
\<close>

theorem create_lifetime:
  assumes "0 \<le> req_TTLSeconds req"
  shows "\<exists>ttl. handler_Create errStr h (req, None) w =
      (case svc_Create (svc h) (req_LongURL req) ttl w of
         (Err err, w') \<Rightarrow> (Wrote (reply 500 (zero_model\<lparr>m_LongURL := req_LongURL req\<rparr>) (errStr err)), w')
       | (Panic p, w') \<Rightarrow> (Panicked p, w')
       | (Ret t, w') \<Rightarrow> (Wrote (reply 200 (t\<lparr>m_ShortURL := domain h @ ''/'' @ m_ShortURL t\<rparr>) ''''), w')) \<and>
    (req_TTLSeconds req \<le> 9223372036 \<longrightarrow> ttl = req_TTLSeconds req * 1000000000 \<and>
       (link_expiry now ttl = None \<longleftrightarrow> req_TTLSeconds req = 0)) \<and>
    (req_TTLSeconds req = 18446744073 \<longrightarrow> link_expiry now ttl = None)"
proof (intro exI [of _ "int64 (req_TTLSeconds req * Second)"] conjI impI)
  let ?n = "req_TTLSeconds req"
  show "handler_Create errStr h (req, None) w =
      (case svc_Create (svc h) (req_LongURL req) (int64 (?n * Second)) w of
         (Err err, w') \<Rightarrow> (Wrote (reply 500 (zero_model\<lparr>m_LongURL := req_LongURL req\<rparr>) (errStr err)), w')
       | (Panic p, w') \<Rightarrow> (Panicked p, w')
       | (Ret t, w') \<Rightarrow> (Wrote (reply 200 (t\<lparr>m_ShortURL := domain h @ ''/'' @ m_ShortURL t\<rparr>) ''''), w'))"
    by (simp add: handler_Create_def Let_def status_defs split: prod.split outcome.split)
  have small: "int64 (?n * Second) = ?n * 1000000000" if "?n \<le> 9223372036"
    using that assms by (simp add: int64_range_def Second_def)
  then show "?n \<le> 9223372036 \<Longrightarrow> int64 (?n * Second) = ?n * 1000000000" .
  show "link_expiry now (int64 (?n * Second)) = None \<longleftrightarrow> ?n = 0" if "?n \<le> 9223372036"
    using small [OF that] assms by (simp add: link_expiry_def)
  show "?n = 18446744073 \<Longrightarrow> link_expiry now (int64 (?n * Second)) = None"
    by (simp add: link_expiry_def int64_def Second_def)
qed

theorem create_lifetime_witness:
  "\<exists>ttl. handler_Create (\<lambda>_. ''e'') \<lparr>domain = ''d'', svc = (svc demo_handler)\<lparr>svc_Create := (\<lambda>_ t w. (Err (OtherError (if 0 < t then ''p'' else ''n'')), w))\<rparr>\<rparr>
      (\<lparr>req_LongURL = ''u'', req_TTLSeconds = 18446744073\<rparr>, None) (demo_world [] 7) =
      (Wrote (reply 500 (zero_model\<lparr>m_LongURL := ''u''\<rparr>) ''e''), demo_world [] 7) \<and> link_expiry 0 ttl = None"
  using create_lifetime [of "\<lparr>req_LongURL = ''u'', req_TTLSeconds = 18446744073\<rparr>" "\<lambda>_. ''e''"
      "\<lparr>domain = ''d'', svc = (svc demo_handler)\<lparr>svc_Create := (\<lambda>_ t w. (Err (OtherError (if 0 < t then ''p'' else ''n'')), w))\<rparr>\<rparr>"
      "demo_world [] 7" 0]
  by auto

text \<open>
  C29. Which codes can be followed: the code of a number is looked up by the redirect handler exactly when the
  number lies between \<open>58 ^ 5\<close> and \<open>58 ^ 8\<close>; the code of every other number, in particular of every number
  below 656356768, is refused with status 400 without asking the service.
\<close>

theorem redirect_code_range:
  "(unat n < 58 ^ 5 \<or> 58 ^ 8 \<le> unat n \<longrightarrow>
     (\<exists>r. handler_Redirect errStr h (Base58Encode n) w = (Wrote r, w) \<and> status_of r = 400)) \<and>
   (58 ^ 5 \<le> unat n \<and> unat n < 58 ^ 8 \<and> svc_Retrieve (svc h) (Base58Encode n) w = (Ret url, w') \<longrightarrow>
     handler_Redirect errStr h (Base58Encode n) w = (Wrote (Redirected 302 url), w'))"
  using length_string58 [of "unat n" 5] length_string58 [of "unat n" 8]
  by (auto simp: handler_Redirect_def Base58Encode_eq Let_def reply_def status_defs)

theorem redirect_code_range_witness:
  "\<exists>r. handler_Redirect (\<lambda>_. '''') demo_handler (Base58Encode 10000) (demo_world [] 7) = (Wrote r, demo_world [] 7) \<and>
    status_of r = 400"
  using redirect_code_range [of 10000 "\<lambda>_. ''''" demo_handler "demo_world [] 7" "''''" "demo_world [] 7"] by simp

end
