(* ===== verification/Http_Server.thy ===== *)
theory Http_Server
  imports Handler Logging
begin

text \<open>
  The HTTP server (\<open>app/turl/http.go\<close>) and its middlewares (\<open>pkg/middleware/gin.go\<close>): the routes \<open>NewServer\<close> registers, the
  chain of middlewares a request runs through, the limiters of \<open>pkg/workqueue\<close> behind them, and the timeout around it all.

  Of gin the theory has what the code relies on: \<open>Use\<close> appends to the middlewares of a group, a route gets the middlewares
  its group has when it is registered, a new group starts with those of its parent, and a request that matches no route runs
  through those of the engine. Which route a request matches, and the profiling routes that gin-contrib/pprof registers, are
  parameters. The modes of gin, HTTP/2 and the redirects for a trailing slash are left out.
\<close>

section \<open>Middlewares and routes\<close>

text \<open>
  The middlewares \<open>NewServer\<close> uses, by name: the tracing and recovery of the libraries, and those of
  \<open>pkg/middleware\<close>. The two rate limiters are the in-process bucket of the read rate and the redis bucket of
  the write rate.
\<close>

datatype limiter = ReadBucket int int | WriteTokens string int int duration

datatype middleware = Otel | Metrics | Logger | HealthCheck string | Recovery | RateLimiter limiter

datatype endpoint = RedirectTo | CreateLink | ShortenInfo | DeleteLink | Swagger | Pprof

record route =
  route_method :: string
  route_path :: string
  route_chain :: "middleware list"
  route_endpoint :: endpoint

record group =
  base_path :: string
  chain :: "middleware list"

record engine =
  root :: group
  routes :: "route list"

definition gin_New :: engine where
  "gin_New = \<lparr>root = \<lparr>base_path = [], chain = []\<rparr>, routes = []\<rparr>"

definition Use :: "middleware list \<Rightarrow> group \<Rightarrow> group" where
  "Use ms g = g\<lparr>chain := chain g @ ms\<rparr>"

definition use_root :: "middleware list \<Rightarrow> engine \<Rightarrow> engine" where
  "use_root ms e = e\<lparr>root := Use ms (root e)\<rparr>"

definition new_group :: "string \<Rightarrow> engine \<Rightarrow> group" where
  "new_group path e = \<lparr>base_path = base_path (root e) @ path, chain = chain (root e)\<rparr>"

definition register :: "group \<Rightarrow> string \<Rightarrow> string \<Rightarrow> endpoint \<Rightarrow> engine \<Rightarrow> engine" where
  "register g verb path h e =
     e\<lparr>routes := routes e @ [\<lparr>route_method = verb, route_path = base_path g @ path, route_chain = chain g, route_endpoint = h\<rparr>]\<rparr>"

text \<open>\<open>pprof.Register(router, pre)\<close>: the routes of the library, in a group of the engine.\<close>

definition pprof_Register :: "(string \<times> string) list \<Rightarrow> string \<Rightarrow> engine \<Rightarrow> engine" where
  "pprof_Register pprof pre e =
     (let g = new_group (''/'' @ pre) e in fold (\<lambda>(verb, path). register g verb path Pprof) pprof e)"

definition HealthCheckPath :: string where "HealthCheckPath = ''/healthcheck''"
definition VersionV1 :: string where "VersionV1 = ''/v1''"
definition DefaultAPIPrefix :: string where "DefaultAPIPrefix = ''/management''"

record http_server =
  srv_Addr :: string
  srv_router :: engine
  srv_timeout :: duration
  ReadHeaderTimeout :: duration
  ReadTimeout :: duration
  WriteTimeout :: duration

text \<open>
  \<open>router.GET\<close> on the engine returns the engine, so the \<open>Use\<close> chained to it extends the middlewares of the engine after
  the route was registered. A missing cache or redis section is read through a nil pointer.
\<close>

definition NewServer :: "(string \<times> string) list \<Rightarrow> ServerConfig \<Rightarrow> http_server outcome" where
  "NewServer pprof c =
     (let router = gin_New;
          router = (if Debug c then pprof_Register pprof ''api/debug/pprof'' router else router);
          router = use_root [Otel] router;
          router = use_root [Metrics, Logger, HealthCheck HealthCheckPath] router;
          router = use_root [Recovery] router;
          router = register (root router) ''GET'' ''/:short'' RedirectTo router;
          router = use_root [RateLimiter (ReadBucket (StandAloneReadRate c) (StandAloneReadBurst c))] router;
          server = (\<lambda>router. \<lparr>srv_Addr = host_port (Listen c) (Port c), srv_router = router, srv_timeout = RequestTimeout c,
            ReadHeaderTimeout = RequestTimeout c, ReadTimeout = RequestTimeout c, WriteTimeout = RequestTimeout c\<rparr>)
      in
      if Readonly c then Ret (server router)
      else
        (case Cache c of
           None \<Rightarrow> Panic ''nil pointer dereference''
         | Some cc \<Rightarrow>
             (case cache_Redis cc of
                None \<Rightarrow> Panic ''nil pointer dereference''
              | Some _ \<Rightarrow>
                  (let pre = VersionV1 @ DefaultAPIPrefix;
                       management = Use [RateLimiter (WriteTokens (GlobalRateLimitKey c) (GlobalWriteRate c)
                         (GlobalWriteBurst c) Second)] (new_group pre router);
                       router = register management ''POST'' ''/shorten'' CreateLink router;
                       router = register management ''GET'' ''/shorten'' ShortenInfo router;
                       router = register management ''DELETE'' ''/shorten'' DeleteLink router
                   in Ret (server (register management ''GET'' ''/swagger/*any'' Swagger router))))))"

section \<open>Running a request\<close>

record http_request =
  req_method :: string
  url_path :: string
  protocol :: string
  user_agent :: string
  client_ip :: string
  remote_addr :: string
  gin_errors :: string
  req_span :: "SpanContext option"

text \<open>The state of the process a request runs in: what the handlers work on, the reports and the log, with contexts.\<close>

record 'w site =
  world_of :: 'w
  reports :: "metric list"
  logged :: "(SpanContext option \<times> log_record) list"

definition access_record :: "http_request \<Rightarrow> nat \<Rightarrow> duration \<Rightarrow> log_record" where
  "access_record req status latency =
     \<lparr>lr_level = (if StatusBadRequest \<le> status then slog_LevelError else slog_LevelInfo), lr_msg = ''http request'',
      lr_attrs = [(''ip'', AString (client_ip req)), (''method'', AString (req_method req)), (''path'', AString (url_path req)),
        (''proto'', AString (protocol req)), (''status'', AInt (int status)), (''latency'', ADuration latency),
        (''user_agent'', AString (user_agent req)), (''error'', AString (gin_errors req))]\<rparr>"

definition refused_record :: "http_request \<Rightarrow> log_record" where
  "refused_record req = \<lparr>lr_level = slog_LevelWarn, lr_msg = ''rate limit exceeded'', lr_attrs = [(''ip'', AString (client_ip req))]\<rparr>"

definition Seconds :: "duration \<Rightarrow> rat" where
  "Seconds d = rat_of_int d / 1000000000"

text \<open>
  A chain: \<open>allow\<close> asks a limiter for an address, \<open>took mw\<close> is the difference of the two readings of the clock in a middleware,
  \<open>full\<close> the template of the matched route. A middleware that acts after the rest of the chain does so only when the
  rest returned; recovery turns a panic into status 500.
\<close>

fun serve ::
  "(limiter \<Rightarrow> string \<Rightarrow> 'w \<Rightarrow> bool \<times> 'w) \<Rightarrow> (middleware \<Rightarrow> duration) \<Rightarrow> http_request \<Rightarrow> string \<Rightarrow> middleware list \<Rightarrow>
   ('w \<Rightarrow> handled \<times> 'w) \<Rightarrow> 'w site \<Rightarrow> handled \<times> 'w site" where
  "serve allow took req full [] h s = (case h (world_of s) of (r, w') \<Rightarrow> (r, s\<lparr>world_of := w'\<rparr>))"
| "serve allow took req full (Otel # ms) h s = serve allow took req full ms h s"
| "serve allow took req full (Logger # ms) h s =
     (case serve allow took req full ms h s of
        (Wrote r, s') \<Rightarrow> (Wrote r, s'\<lparr>logged := logged s' @ [(req_span req, access_record req (status_of r) (took Logger))]\<rparr>)
      | x \<Rightarrow> x)"
| "serve allow took req full (Metrics # ms) h s =
     (case serve allow took req full ms h s of
        (Wrote r, s') \<Rightarrow>
          (Wrote r, s'\<lparr>reports := ObserveHTTPRequest (req_method req) (if full = '''' then ''unmatched'' else full)
             (Itoa (int (status_of r))) (Seconds (took Metrics)) (reports s')\<rparr>)
      | x \<Rightarrow> x)"
| "serve allow took req full (Recovery # ms) h s =
     (case serve allow took req full ms h s of
        (Panicked p, s') \<Rightarrow> (Wrote (Aborted StatusInternalServerError), s')
      | x \<Rightarrow> x)"
| "serve allow took req full (HealthCheck p # ms) h s =
     (if url_path req = p then (Wrote HealthOK, s) else serve allow took req full ms h s)"
| "serve allow took req full (RateLimiter l # ms) h s =
     (case allow l (remote_addr req) (world_of s) of
        (ok, w') \<Rightarrow>
          if \<not> ok
          then (Wrote (Aborted StatusTooManyRequests), s\<lparr>world_of := w', logged := logged s @ [(None, refused_record req)]\<rparr>)
          else serve allow took req full ms h (s\<lparr>world_of := w'\<rparr>))"

text \<open>
  A request to the router: \<open>match_route\<close> is the matching of gin, \<open>handle\<close> the handler of an endpoint. \<open>http.TimeoutHandler\<close>
  answers 503 in place of a handler that takes too long (\<open>spent\<close>), which goes on, and passes on a panic.
\<close>

definition route_request ::
  "(route list \<Rightarrow> http_request \<Rightarrow> route option) \<Rightarrow> (limiter \<Rightarrow> string \<Rightarrow> 'w \<Rightarrow> bool \<times> 'w) \<Rightarrow> (middleware \<Rightarrow> duration) \<Rightarrow>
   (endpoint \<Rightarrow> http_request \<Rightarrow> 'w \<Rightarrow> handled \<times> 'w) \<Rightarrow> engine \<Rightarrow> http_request \<Rightarrow> 'w site \<Rightarrow> handled \<times> 'w site" where
  "route_request match_route allow took handle e req s =
     (case match_route (routes e) req of
        Some r \<Rightarrow> serve allow took req (route_path r) (route_chain r) (handle (route_endpoint r) req) s
      | None \<Rightarrow> serve allow took req '''' (chain (root e)) (\<lambda>w. (Wrote (Aborted StatusNotFound), w)) s)"

datatype answer = Answered response | TimedOut | Dropped string

definition TimeoutHandler :: "duration \<Rightarrow> duration \<Rightarrow> handled \<times> 'w site \<Rightarrow> answer \<times> 'w site" where
  "TimeoutHandler dt spent x =
     (if dt < spent then (TimedOut, snd x)
      else (case x of (Wrote r, s) \<Rightarrow> (Answered r, s) | (Panicked p, s) \<Rightarrow> (Dropped p, s)))"

section \<open>The limiters\<close>

text \<open>
  The limiters behind the middleware: \<open>rate.NewLimiter\<close> is the parameter \<open>NewLimiter\<close>, its bucket is in the process; the
  token bucket is in redis, with the rescue bucket of \<open>pkg/workqueue\<close>.
\<close>

record ('b, 'r) limiters =
  read_bucket :: 'b
  write_tokens :: "('r, 'b) token_state"

definition limiter_Take ::
  "(int \<Rightarrow> int \<Rightarrow> 'b std_limiter) \<Rightarrow> 'r token_client \<Rightarrow> (unit, 'b) rate_limiter \<Rightarrow> int \<Rightarrow> limiter \<Rightarrow> string \<Rightarrow>
   'x \<times> ('b, 'r) limiters \<Rightarrow> bool \<times> 'x \<times> ('b, 'r) limiters" where
  "limiter_Take NewLimiter rdb resc nowMilli l item = (\<lambda>(x, L).
     (case l of
        ReadBucket r b \<Rightarrow>
          (case Take (BucketRateLimiter (NewLimiter r b)) item (read_bucket L) of (ok, bk) \<Rightarrow> (ok, x, L\<lparr>read_bucket := bk\<rparr>))
      | WriteTokens key r b d \<Rightarrow>
          (case Take (tok_iface rdb resc (NewItemRedisTokenRateLimiter key r b d) nowMilli) item (write_tokens L) of
             (ok, t) \<Rightarrow> (ok, x, L\<lparr>write_tokens := t\<rparr>))))"

section \<open>Lemmas\<close>

fun is_limiter :: "middleware \<Rightarrow> bool" where
  "is_limiter (RateLimiter _) = True"
| "is_limiter _ = False"

abbreviation frame_chain :: "middleware list" where
  "frame_chain \<equiv> [Otel, Metrics, Logger, HealthCheck HealthCheckPath, Recovery]"

abbreviation read_limit :: "ServerConfig \<Rightarrow> middleware" where
  "read_limit c \<equiv> RateLimiter (ReadBucket (StandAloneReadRate c) (StandAloneReadBurst c))"

abbreviation write_limit :: "ServerConfig \<Rightarrow> middleware" where
  "write_limit c \<equiv> RateLimiter (WriteTokens (GlobalRateLimitKey c) (GlobalWriteRate c) (GlobalWriteBurst c) Second)"

lemma register_root [simp]: "root (register g verb path h e) = root e"
  by (simp add: register_def)

lemma pprof_Register_root [simp]: "root (pprof_Register pprof pre e) = root e"
proof -
  have "root (fold (\<lambda>(verb, path). register g verb path Pprof) xs e) = root e" for g xs
    by (induction xs arbitrary: e) auto
  then show ?thesis by (simp add: pprof_Register_def Let_def)
qed

lemma pprof_Register_routes:
  assumes "r \<in> set (routes (pprof_Register pprof pre gin_New))"
  shows "route_endpoint r = Pprof \<and> route_chain r = []"
proof -
  have "r \<in> set (routes (fold (\<lambda>(verb, path). register g verb path Pprof) xs e)) \<Longrightarrow>
      r \<in> set (routes e) \<or> route_endpoint r = Pprof \<and> route_chain r = chain g" for g xs e
    by (induction xs arbitrary: e) (simp, force simp: register_def)
  then show ?thesis using assms by (fastforce simp: pprof_Register_def Let_def gin_New_def new_group_def)
qed

text \<open>The routes of a server, with their chains, and the chain of a request that matches none.\<close>

lemma NewServer_routes:
  assumes "NewServer pprof c = Ret srv" "r \<in> set (routes (srv_router srv))"
  shows "route_endpoint r = RedirectTo \<and> route_method r = ''GET'' \<and> route_path r = ''/:short'' \<and> route_chain r = frame_chain \<or>
    Debug c \<and> route_endpoint r = Pprof \<and> route_chain r = [] \<or>
    \<not> Readonly c \<and> route_endpoint r \<noteq> RedirectTo \<and> route_endpoint r \<noteq> Pprof \<and>
      route_chain r = frame_chain @ [read_limit c, write_limit c]"
  using assms pprof_Register_routes [of r pprof "''api/debug/pprof''"]
  by (auto simp: NewServer_def gin_New_def use_root_def Use_def register_def new_group_def Let_def
      split: if_splits option.splits)

lemma NewServer_unmatched:
  assumes "NewServer pprof c = Ret srv"
  shows "chain (root (srv_router srv)) = frame_chain @ [read_limit c]" "srv_timeout srv = RequestTimeout c"
    "srv_Addr srv = host_port (Listen c) (Port c)"
  using assms
  by (auto simp: NewServer_def gin_New_def use_root_def Use_def Let_def split: if_splits option.splits)

lemma NewServer_create:
  assumes "NewServer pprof c = Ret srv" "\<not> Readonly c"
  shows "\<exists>r\<in>set (routes (srv_router srv)). route_endpoint r = CreateLink"
  using assms by (auto simp: NewServer_def register_def Let_def split: option.splits)

lemma NewServer_redirect:
  assumes "NewServer pprof c = Ret srv"
  shows "\<exists>r\<in>set (routes (srv_router srv)). route_endpoint r = RedirectTo \<and> route_path r = ''/:short''"
  using assms
  by (auto simp: NewServer_def gin_New_def use_root_def Use_def register_def new_group_def Let_def split: if_splits option.splits)

text \<open>Limiters add no report, and to the log at most the warning of a refusal.\<close>

lemma serve_limiters:
  "\<forall>x\<in>set ms. is_limiter x \<Longrightarrow> \<exists>ws. serve allow took req full ms h s = (r, s') \<longrightarrow>
    reports s' = reports s \<and> logged s' = logged s @ ws \<and> ws \<in> {[], [(None, refused_record req)]}"
proof (induction ms arbitrary: s)
  case (Cons x ms)
  then obtain l where l: "x = RateLimiter l" by (cases x) auto
  obtain ok w' where a: "allow l (remote_addr req) (world_of s) = (ok, w')" by (metis prod.exhaust)
  show ?case
  proof (cases ok)
    case True
    then show ?thesis using Cons.IH [of "s\<lparr>world_of := w'\<rparr>"] Cons.prems l a by simp
  next
    case False
    then show ?thesis using l a by (intro exI [of _ "[(None, refused_record req)]"]) auto
  qed
qed (auto split: prod.split)

lemma serve_frame:
  assumes "\<forall>x\<in>set ms. is_limiter x"
  shows "\<exists>r s' ws. serve allow took req full (frame_chain @ ms) h s = (Wrote r, s') \<and> ws \<in> {[], [(None, refused_record req)]} \<and>
    reports s' = ObserveHTTPRequest (req_method req) (if full = '''' then ''unmatched'' else full) (Itoa (int (status_of r)))
      (Seconds (took Metrics)) (reports s) \<and>
    logged s' = logged s @ ws @ [(req_span req, access_record req (status_of r) (took Logger))]"
proof -
  obtain r s' where r: "serve allow took req full ms h s = (r, s')" by (metis prod.exhaust)
  obtain ws where ws: "reports s' = reports s" "logged s' = logged s @ ws" "ws \<in> {[], [(None, refused_record req)]}"
    using serve_limiters [OF assms, of allow took req full h s r s'] r by auto
  show ?thesis
  proof (cases "url_path req = HealthCheckPath")
    case True
    then show ?thesis by simp
  next
    case False
    then show ?thesis using r ws by (cases r) auto
  qed
qed

text \<open>A handler of a node behind the limiters, which leave the node alone: it runs once or the request is refused.\<close>

definition on_node :: "('x \<Rightarrow> handled \<times> 'x) \<Rightarrow> 'x \<times> 'y \<Rightarrow> handled \<times> 'x \<times> 'y" where
  "on_node h = (\<lambda>(x, y). case h x of (a, x') \<Rightarrow> (a, x', y))"

lemma limiter_Take_node: "limiter_Take NewLimiter rdb resc now l item w = (ok, w') \<Longrightarrow> fst w' = fst w"
  by (auto simp: limiter_Take_def split: prod.splits limiter.splits)

lemma serve_node:
  assumes "\<forall>x\<in>set ms. is_limiter x" "serve (limiter_Take NewLimiter rdb resc now) took req full ms (on_node h) s = (r, s')"
  shows "h (fst (world_of s)) = (r, fst (world_of s')) \<or> r = Wrote (Aborted StatusTooManyRequests)"
  using assms
proof (induction ms arbitrary: s)
  case Nil
  then show ?case by (cases "world_of s") (auto simp: on_node_def split: prod.splits)
next
  case (Cons x ms)
  then obtain l where l: "x = RateLimiter l" by (cases x) auto
  obtain ok w' where a: "limiter_Take NewLimiter rdb resc now l (remote_addr req) (world_of s) = (ok, w')" by (metis prod.exhaust)
  show ?case
  proof (cases ok)
    case True
    then show ?thesis using Cons.IH [of "s\<lparr>world_of := w'\<rparr>"] Cons.prems l a limiter_Take_node [OF a] by simp
  next
    case False
    then show ?thesis using Cons.prems l a by auto
  qed
qed

lemma serve_frame_node:
  assumes "\<forall>x\<in>set ms. is_limiter x" "serve (limiter_Take NewLimiter rdb resc now) took req full (frame_chain @ ms) (on_node h) s = (Wrote (JSON n b), s')"
  shows "h (fst (world_of s)) = (Wrote (JSON n b), fst (world_of s'))"
proof -
  obtain r s1 where r: "serve (limiter_Take NewLimiter rdb resc now) took req full ms (on_node h) s = (r, s1)" by (metis prod.exhaust)
  then have "r = Wrote (JSON n b)" "world_of s' = world_of s1" using assms(2) by (cases r; auto split: if_splits)+
  then show ?thesis using serve_node [OF assms(1) r] by simp
qed

section \<open>Properties\<close>

text \<open>
  C31. Where the limits apply: in every mode the server has the redirect route, and no rate limiter stands
  before it; the read limit that is chained to that route falls on the management routes, each of which
  asks first the in-process bucket of the read rate and then the redis bucket of the write rate, and on the requests that match no
  route. A read-only server has no management route. In debug mode the profiling routes are on the public server, with
  no middleware at all.
\<close>

theorem NewServer_limits:
  assumes "NewServer pprof c = Ret srv"
  shows "(\<exists>r\<in>set (routes (srv_router srv)). route_endpoint r = RedirectTo \<and> route_path r = ''/:short'') \<and>
    (\<forall>r\<in>set (routes (srv_router srv)). filter is_limiter (route_chain r) =
       (if route_endpoint r = RedirectTo \<or> route_endpoint r = Pprof then []
        else [RateLimiter (ReadBucket (StandAloneReadRate c) (StandAloneReadBurst c)),
              RateLimiter (WriteTokens (GlobalRateLimitKey c) (GlobalWriteRate c) (GlobalWriteBurst c) 1000000000)])) \<and>
    filter is_limiter (chain (root (srv_router srv))) = [RateLimiter (ReadBucket (StandAloneReadRate c) (StandAloneReadBurst c))] \<and>
    (\<forall>r\<in>set (routes (srv_router srv)). route_endpoint r = Pprof \<longrightarrow> Debug c \<and> route_chain r = []) \<and>
    (Readonly c \<longrightarrow> (\<forall>r\<in>set (routes (srv_router srv)). route_endpoint r \<in> {RedirectTo, Pprof}))"
proof -
  note NewServer_redirect [OF assms]
  moreover have "filter is_limiter (route_chain r) =
       (if route_endpoint r = RedirectTo \<or> route_endpoint r = Pprof then []
        else [RateLimiter (ReadBucket (StandAloneReadRate c) (StandAloneReadBurst c)),
              RateLimiter (WriteTokens (GlobalRateLimitKey c) (GlobalWriteRate c) (GlobalWriteBurst c) 1000000000)]) \<and>
      (route_endpoint r = Pprof \<longrightarrow> Debug c \<and> route_chain r = []) \<and> (Readonly c \<longrightarrow> route_endpoint r \<in> {RedirectTo, Pprof})"
    if "r \<in> set (routes (srv_router srv))" for r
    using NewServer_routes [OF assms that] by (auto simp: Second_def)
  ultimately show ?thesis using NewServer_unmatched(1) [OF assms] by simp
qed

theorem NewServer_limits_witness:
  "\<exists>srv. NewServer [(''GET'', ''/heap'')] (example_config\<lparr>Cache := Some example_cache_config, Debug := True\<rparr>) = Ret srv \<and>
    (\<exists>r\<in>set (routes (srv_router srv)). route_endpoint r = RedirectTo \<and> filter is_limiter (route_chain r) = [])"
proof -
  obtain srv where srv: "NewServer [(''GET'', ''/heap'')] (example_config\<lparr>Cache := Some example_cache_config, Debug := True\<rparr>) = Ret srv"
    by (simp add: NewServer_def example_config_def example_cache_config_def Let_def)
  from NewServer_limits [OF srv]
  have "\<exists>r\<in>set (routes (srv_router srv)). route_endpoint r = RedirectTo \<and> filter is_limiter (route_chain r) = []" by metis
  with srv show ?thesis by blast
qed

text \<open>
  C32. Every request is answered, counted once and logged once: for every request that does not match a profiling route, whatever
  the limiters and the handlers do, the router writes a response, turning a panic into status 500; it records one observation
  with the method, the template of the route (or \<open>unmatched\<close>) and the status, and at the end of the log, after at most a
  warning of a refusal, one line with the status, at level error exactly for a status of 400 and above. The client gets that
  response when it took no longer than the request timeout, and a timeout otherwise, with the same report and log.
\<close>

theorem request_counted_once:
  assumes server: "NewServer pprof c = Ret srv"
    and matching: "\<forall>rs r. match_route rs req = Some r \<longrightarrow> r \<in> set rs \<and> route_endpoint r \<noteq> Pprof"
  shows "\<exists>r s' ws full. TimeoutHandler (srv_timeout srv) spent (route_request match_route allow took handle (srv_router srv) req s) =
      (if spent \<le> RequestTimeout c then Answered r else TimedOut, s') \<and>
    reports s' = reports s @ [HTTPRequest (req_method req) full (Itoa (int (status_of r))) (Seconds (took Metrics))] \<and>
    (full = ''unmatched'' \<or> full \<in> route_path ` set (routes (srv_router srv))) \<and>
    logged s' = logged s @ ws @ [(req_span req, access_record req (status_of r) (took Logger))] \<and>
    ws \<in> {[], [(None, refused_record req)]} \<and>
    lr_level (access_record req (status_of r) (took Logger)) = (if 400 \<le> status_of r then 8 else 0)"
proof -
  obtain ms full h where x: "route_request match_route allow took handle (srv_router srv) req s =
      serve allow took req full (frame_chain @ ms) h s" "\<forall>x\<in>set ms. is_limiter x"
      "full = '''' \<or> full \<in> route_path ` set (routes (srv_router srv))"
  proof (cases "match_route (routes (srv_router srv)) req")
    case None
    then show ?thesis
      using that [of "''''" "[read_limit c]"] NewServer_unmatched(1) [OF server] by (simp add: route_request_def)
  next
    case (Some r)
    then have r: "r \<in> set (routes (srv_router srv))" "route_endpoint r \<noteq> Pprof" using matching by auto
    then obtain ms where "route_chain r = frame_chain @ ms" "\<forall>x\<in>set ms. is_limiter x"
      using NewServer_routes [OF server r(1)] by auto
    then show ?thesis using that [of "route_path r" ms] Some r by (simp add: route_request_def)
  qed
  show ?thesis
    using serve_frame [OF x(2), of allow took req full h s] x(1,3) NewServer_unmatched(2) [OF server]
    by (fastforce simp: TimeoutHandler_def ObserveHTTPRequest_def access_record_def status_defs slog_LevelError_def
        slog_LevelInfo_def)
qed

definition plain_request :: http_request where
  "plain_request = \<lparr>req_method = ''GET'', url_path = ''/abcdef'', protocol = ''HTTP/1.1'', user_agent = ''curl'', client_ip = ''10.0.0.1'',
     remote_addr = ''10.0.0.1:1'', gin_errors = '''', req_span = None\<rparr>"

definition plain_site :: "'w \<Rightarrow> 'w site" where
  "plain_site w = \<lparr>world_of = w, reports = [], logged = []\<rparr>"

theorem request_counted_once_witness:
  "\<exists>srv r s' ws full. NewServer [] (example_config\<lparr>Readonly := True\<rparr>) = Ret srv \<and>
    TimeoutHandler (srv_timeout srv) (9 * Second) (route_request (\<lambda>_ _. None) (\<lambda>_ _ w. (False, w)) (\<lambda>_. 7) (\<lambda>_ _ w. (Panicked ''boom'', w))
      (srv_router srv) plain_request (plain_site ())) = (TimedOut, s') \<and>
    reports s' = [HTTPRequest ''GET'' full (Itoa (int (status_of r))) (Seconds 7)] \<and>
    logged s' = ws @ [(None, access_record plain_request (status_of r) 7)]"
proof -
  obtain srv where srv: "NewServer [] (example_config\<lparr>Readonly := True\<rparr>) = Ret srv" by (simp add: NewServer_def Let_def)
  from request_counted_once [OF srv, of "\<lambda>_ _. None" plain_request "9 * Second" "\<lambda>_ _ w. (False, w)" "\<lambda>_. 7"
      "\<lambda>_ _ w. (Panicked ''boom'', w)" "plain_site ()"] srv
  show ?thesis by (auto simp: example_config_def Second_def plain_request_def plain_site_def)
qed

text \<open>
  C33. Who gets to write: a request on a management route asks the in-process bucket, and only when that grants it the token bucket in
  redis (or the rescue bucket, as \<open>reserveN\<close> decides); refused by either, it is answered 429 and the handler does not run, but
  what the asked buckets took stays taken; admitted by both, the handler runs once and its response is the answer.
\<close>

theorem management_admission:
  assumes server: "NewServer pprof c = Ret srv" and route: "r \<in> set (routes (srv_router srv))" "route_endpoint r \<notin> {RedirectTo, Pprof}"
    and path: "url_path req \<noteq> ''/healthcheck''"
    and buckets: "world_of s = (x, L)" "Allow (NewLimiter (StandAloneReadRate c) (StandAloneReadBurst c)) (read_bucket L) = (ok, bk)"
      "reserveN rdb resc (NewItemRedisTokenRateLimiter (GlobalRateLimitKey c) (GlobalWriteRate c) (GlobalWriteBurst c) 1000000000)
         now (write_tokens L) = (won, tk)"
    and handler: "h x = (a, x')"
  shows "\<exists>resp s'. serve (limiter_Take NewLimiter rdb resc now) took req (route_path r) (route_chain r)
      (\<lambda>(x, L). case h x of (a, x') \<Rightarrow> (a, x', L)) s = (Wrote resp, s') \<and>
    (if \<not> ok then resp = Aborted 429 \<and> world_of s' = (x, L\<lparr>read_bucket := bk\<rparr>)
     else if \<not> won then resp = Aborted 429 \<and> world_of s' = (x, L\<lparr>read_bucket := bk, write_tokens := tk\<rparr>)
     else resp = (case a of Wrote b \<Rightarrow> b | Panicked _ \<Rightarrow> Aborted 500) \<and> world_of s' = (x', L\<lparr>read_bucket := bk, write_tokens := tk\<rparr>))"
proof -
  have "route_chain r = frame_chain @ [read_limit c, write_limit c]" using NewServer_routes [OF server route(1)] route(2) by auto
  then show ?thesis
    using path buckets handler
    by (simp add: limiter_Take_def BucketRateLimiter_def tok_iface_def tok_Take_def HealthCheckPath_def status_defs Second_def
        split: handled.split)
qed

definition open_bucket :: "int \<Rightarrow> int \<Rightarrow> nat std_limiter" where
  "open_bucket r b = \<lparr>Allow = (\<lambda>n. (True, n + 1)), Reserve_Delay = (\<lambda>n. (0, n + 1))\<rparr>"

theorem management_admission_witness:
  "\<exists>srv r resp s'. NewServer [] (example_config\<lparr>Cache := Some example_cache_config\<rparr>) = Ret srv \<and> r \<in> set (routes (srv_router srv)) \<and>
    serve (limiter_Take open_bucket dead_client counter_limiter 0) (\<lambda>_. 7) plain_request (route_path r) (route_chain r)
      (\<lambda>(x, L). case (Wrote (Redirected 200 ''x''), x + 1) of (a, x') \<Rightarrow> (a, x', L))
      (plain_site (5 :: nat, \<lparr>read_bucket = 0, write_tokens = (token_init () 0)\<lparr>redisAlive := False\<rparr>\<rparr>)) = (Wrote resp, s') \<and>
    (if fst (Take counter_limiter () 0) then fst (world_of s') = 6 else fst (world_of s') = 5)"
proof -
  let ?c = "example_config\<lparr>Cache := Some example_cache_config\<rparr>"
  obtain srv where "NewServer [] ?c = Ret srv"
    by (simp add: NewServer_def Let_def example_config_def example_cache_config_def)
  moreover from NewServer_create [OF this] obtain r where "r \<in> set (routes (srv_router srv))" "route_endpoint r = CreateLink"
    by (auto simp: example_config_def)
  ultimately have srv: "NewServer [] ?c = Ret srv" "r \<in> set (routes (srv_router srv))" "route_endpoint r \<notin> {RedirectTo, Pprof}"
    by simp_all
  let ?L = "\<lparr>read_bucket = 0 :: nat, write_tokens = (token_init () 0)\<lparr>redisAlive := False\<rparr>\<rparr>"
  obtain won tk where tk: "reserveN dead_client counter_limiter
      (NewItemRedisTokenRateLimiter (GlobalRateLimitKey ?c) (GlobalWriteRate ?c) (GlobalWriteBurst ?c) 1000000000) 0 (write_tokens ?L) = (won, tk)"
    by (metis prod.exhaust)
  then have g: "won = fst (Take counter_limiter () 0)"
    by (auto simp: reserveN_def rescue_Take_def token_init_def split: prod.splits)
  have bucket: "Allow (open_bucket (StandAloneReadRate ?c) (StandAloneReadBurst ?c)) (read_bucket ?L) = (True, 1)"
    by (simp add: open_bucket_def)
  have path: "url_path plain_request \<noteq> ''/healthcheck''" by (simp add: plain_request_def)
  have w: "world_of (plain_site (5 :: nat, ?L)) = (5, ?L)" by (simp add: plain_site_def)
  show ?thesis
    using management_admission [where NewLimiter = open_bucket and h = "\<lambda>x. (Wrote (Redirected 200 ''x''), x + 1)" and
        a = "Wrote (Redirected 200 ''x'')" and x' = 6 and took = "\<lambda>_. 7", OF srv path w bucket tk]
      srv g by fastforce
qed

text \<open>
  The answer to the health command of the command line: on every server the path of the health check is answered with
  status 200, whether it matches the route of the redirects or none, before any limiter and without touching the world.
\<close>

lemma health_answer:
  assumes server: "NewServer pprof c = Ret srv" and path: "url_path req = HealthCheckPath"
    and matching: "\<forall>rs r. match_route rs req = Some r \<longrightarrow> r \<in> set rs \<and> route_endpoint r \<noteq> Pprof"
  shows "\<exists>s'. route_request match_route allow took handle (srv_router srv) req s = (Wrote HealthOK, s') \<and> world_of s' = world_of s"
proof (cases "match_route (routes (srv_router srv)) req")
  case None
  then show ?thesis using path NewServer_unmatched(1) [OF server] by (simp add: route_request_def)
next
  case (Some r)
  then obtain ms where "route_chain r = frame_chain @ ms"
    using matching NewServer_routes [OF server, of r] by fastforce
  then show ?thesis using Some path by (simp add: route_request_def)
qed

end
