(* ===== verification/Observability.thy ===== *)
theory Observability
  imports Handler
begin

text \<open>
  The admin server (\<open>pkg/observability/server.go\<close>): liveness, readiness, metrics and profiling on a port of its own. The
  readiness checks are a map of named functions; a probe runs every check, in the order in which Go happens to range over the
  map, which is an argument here. Of \<open>net/http\<close> the theory has \<open>ServeMux\<close>: a pattern is registered once, a path goes to the pattern equal
  to it, else to the longest registered subtree it lies in. A body is the value that is encoded as JSON. The pages of
  \<open>net/http/pprof\<close> are library code. The context of a probe is its deadline, one for all its checks: a check gets the deadline and the state that the
  checks before it left, in which the time they took may be a part.
\<close>

section \<open>ServeMux\<close>

type_synonym 'e servemux = "(string \<times> 'e) list"

definition mux_Handle :: "string \<Rightarrow> 'e \<Rightarrow> 'e servemux \<Rightarrow> 'e servemux outcome" where
  "mux_Handle pattern h mux =
     (if pattern \<in> fst ` set mux then Panic ''http: multiple registrations'' else Ret (mux @ [(pattern, h)]))"

fun mux_Handle_all :: "(string \<times> 'e) list \<Rightarrow> 'e servemux \<Rightarrow> 'e servemux outcome" where
  "mux_Handle_all [] mux = Ret mux"
| "mux_Handle_all ((pattern, h) # ps) mux =
     (case mux_Handle pattern h mux of
        Ret mux' \<Rightarrow> mux_Handle_all ps mux'
      | Err e \<Rightarrow> Err e
      | Panic p \<Rightarrow> Panic p)"

datatype 'e matched = Serves 'e | RedirectSlash string | NoPattern

definition subtrees :: "'e servemux \<Rightarrow> string \<Rightarrow> (string \<times> 'e) list" where
  "subtrees mux path = filter (\<lambda>(p, _). p \<noteq> [] \<and> last p = CHR ''/'' \<and> take (length p) path = p) mux"

fun longest :: "(string \<times> 'e) list \<Rightarrow> (string \<times> 'e) option" where
  "longest [] = None"
| "longest (x # xs) = (case longest xs of None \<Rightarrow> Some x | Some y \<Rightarrow> if length (fst x) < length (fst y) then Some y else Some x)"

definition mux_match :: "'e servemux \<Rightarrow> string \<Rightarrow> 'e matched" where
  "mux_match mux path =
     (case map_of mux path of
        Some h \<Rightarrow> Serves h
      | None \<Rightarrow>
          if path @ ''/'' \<in> fst ` set mux then RedirectSlash (path @ ''/'')
          else (case longest (subtrees mux path) of Some (_, h) \<Rightarrow> Serves h | None \<Rightarrow> NoPattern))"

section \<open>The server\<close>

definition readinessTimeout :: duration where
  "readinessTimeout = 3 * Second"

text \<open>\<open>context.WithTimeout\<close> on a context that may have a deadline of its own.\<close>

definition WithTimeout :: "time option \<Rightarrow> time \<Rightarrow> duration \<Rightarrow> time" where
  "WithTimeout parent now timeout = (case parent of None \<Rightarrow> now + timeout | Some d \<Rightarrow> min d (now + timeout))"

type_synonym 'w HealthCheck = "time \<Rightarrow> 'w \<Rightarrow> unit outcome \<times> 'w"

datatype admin_endpoint = Liveness | Readiness | MetricsPage | PprofPage string

record 'w Server =
  admin_Addr :: string
  admin_ReadHeaderTimeout :: duration
  mux :: "admin_endpoint servemux"
  checks :: "string \<rightharpoonup> 'w HealthCheck"

definition registerPprof :: "admin_endpoint servemux \<Rightarrow> admin_endpoint servemux outcome" where
  "registerPprof m = mux_Handle_all
     [(''/debug/pprof/'', PprofPage ''Index''), (''/debug/pprof/cmdline'', PprofPage ''Cmdline''),
      (''/debug/pprof/profile'', PprofPage ''Profile''), (''/debug/pprof/symbol'', PprofPage ''Symbol''),
      (''/debug/pprof/trace'', PprofPage ''Trace'')] m"

definition observability_New :: "ObservabilityConfig \<Rightarrow> 'w Server outcome" where
  "observability_New c =
     (let c = WithDefaults c in
      (case mux_Handle_all [(''/healthz'', Liveness), (''/readyz'', Readiness)] [] of
         Ret m \<Rightarrow>
           (case registerPprof m of
              Ret m' \<Rightarrow> Ret \<lparr>admin_Addr = host_port (obs_AdminListen c) (obs_AdminPort c),
                 admin_ReadHeaderTimeout = readinessTimeout, mux = m', checks = Map.empty\<rparr>
            | Err e \<Rightarrow> Err e
            | Panic p \<Rightarrow> Panic p)
       | Err e \<Rightarrow> Err e
       | Panic p \<Rightarrow> Panic p))"

definition RegisterReadinessCheck :: "string \<Rightarrow> 'w HealthCheck \<Rightarrow> 'w Server \<Rightarrow> 'w Server" where
  "RegisterReadinessCheck name check s = s\<lparr>checks := (checks s)(name \<mapsto> check)\<rparr>"

definition SetMetricsHandler :: "'w Server \<Rightarrow> 'w Server outcome" where
  "SetMetricsHandler s =
     (case mux_Handle ''/metrics'' MetricsPage (mux s) of
        Ret m \<Rightarrow> Ret (s\<lparr>mux := m\<rparr>)
      | Err e \<Rightarrow> Err e
      | Panic p \<Rightarrow> Panic p)"

definition Addr :: "'w Server \<Rightarrow> string" where
  "Addr s = admin_Addr s"

text \<open>
  The server of the library is known by its address. What \<open>ListenAndServe\<close> on an address has returned, if it has, is the parameter
  \<open>listen\<close>.
\<close>

definition HTTPServer :: "'w Server \<Rightarrow> string" where
  "HTTPServer s = admin_Addr s"

lemma HTTPServer_Addr [simp]: "HTTPServer s = Addr s"
  by (simp add: HTTPServer_def Addr_def)

definition server_Start :: "(string \<Rightarrow> goerr option) \<Rightarrow> 'w Server \<Rightarrow> goerr option" where
  "server_Start listen s = listen (HTTPServer s)"

datatype admin_body =
    StatusBody string
  | ChecksBody string "string \<rightharpoonup> string"
  | MetricsBody exposition
  | LibraryBody string

record admin_response =
  admin_status :: nat
  admin_body :: admin_body

definition writeJSON :: "nat \<Rightarrow> admin_body \<Rightarrow> admin_response" where
  "writeJSON status body = \<lparr>admin_status = status, admin_body = body\<rparr>"

definition StatusServiceUnavailable :: nat where "StatusServiceUnavailable = 503"
definition StatusMovedPermanently :: nat where "StatusMovedPermanently = 301"

definition handleLiveness :: admin_response where
  "handleLiveness = writeJSON StatusOK (StatusBody ''ok'')"

text \<open>The loop over the checks, with the names in the order of the range, under the one context of the probe.\<close>

fun run_checks ::
  "(goerr \<Rightarrow> string) \<Rightarrow> time \<Rightarrow> (string \<rightharpoonup> 'w HealthCheck) \<Rightarrow> string list \<Rightarrow> bool \<Rightarrow> (string \<rightharpoonup> string) \<Rightarrow> 'w \<Rightarrow>
   (bool \<times> (string \<rightharpoonup> string)) outcome \<times> 'w" where
  "run_checks errStr ctx cs [] ready results w = (Ret (ready, results), w)"
| "run_checks errStr ctx cs (name # names) ready results w =
     (case cs name of
        None \<Rightarrow> run_checks errStr ctx cs names ready results w
      | Some check \<Rightarrow>
          (case check ctx w of
             (Err err, w') \<Rightarrow> run_checks errStr ctx cs names False (results(name \<mapsto> errStr err)) w'
           | (Ret _, w') \<Rightarrow> run_checks errStr ctx cs names ready (results(name \<mapsto> ''ok'')) w'
           | (Panic p, w') \<Rightarrow> (Panic p, w')))"

text \<open>The request has come at the time \<open>now\<close> with the context \<open>rctx\<close>.\<close>

definition handleReadiness ::
  "(goerr \<Rightarrow> string) \<Rightarrow> string list \<Rightarrow> time option \<Rightarrow> time \<Rightarrow> 'w Server \<Rightarrow> 'w \<Rightarrow> admin_response outcome \<times> 'w" where
  "handleReadiness errStr order rctx now s w =
     (let ctx = WithTimeout rctx now readinessTimeout in
      (case run_checks errStr ctx (checks s) order True Map.empty w of
         (Ret (ready, results), w') \<Rightarrow>
           (let status = (if \<not> ready then StatusServiceUnavailable else StatusOK);
                overall = (if \<not> ready then ''unavailable'' else ''ok'')
            in (Ret (writeJSON status (ChecksBody overall results)), w'))
       | (Err e, w') \<Rightarrow> (Err e, w')
       | (Panic p, w') \<Rightarrow> (Panic p, w')))"

text \<open>A request to the server, with what the registry exposes at that moment.\<close>

definition admin_serve ::
  "(goerr \<Rightarrow> string) \<Rightarrow> string list \<Rightarrow> exposition \<Rightarrow> time option \<Rightarrow> time \<Rightarrow> 'w Server \<Rightarrow> string \<Rightarrow> 'w \<Rightarrow> admin_response outcome \<times> 'w" where
  "admin_serve errStr order metrics rctx now s path w =
     (case mux_match (mux s) path of
        Serves Liveness \<Rightarrow> (Ret handleLiveness, w)
      | Serves Readiness \<Rightarrow> handleReadiness errStr order rctx now s w
      | Serves MetricsPage \<Rightarrow> (Ret \<lparr>admin_status = StatusOK, admin_body = MetricsBody metrics\<rparr>, w)
      | Serves (PprofPage page) \<Rightarrow> (Ret \<lparr>admin_status = StatusOK, admin_body = LibraryBody page\<rparr>, w)
      | RedirectSlash to \<Rightarrow> (Ret \<lparr>admin_status = StatusMovedPermanently, admin_body = LibraryBody to\<rparr>, w)
      | NoPattern \<Rightarrow> (Ret \<lparr>admin_status = StatusNotFound, admin_body = LibraryBody ''404 page not found''\<rparr>, w))"

section \<open>Lemmas\<close>

lemma observability_New_Ret:
  "observability_New c = Ret \<lparr>admin_Addr = host_port (obs_AdminListen (WithDefaults c)) (obs_AdminPort (WithDefaults c)),
     admin_ReadHeaderTimeout = readinessTimeout,
     mux = [(''/healthz'', Liveness), (''/readyz'', Readiness), (''/debug/pprof/'', PprofPage ''Index''),
       (''/debug/pprof/cmdline'', PprofPage ''Cmdline''), (''/debug/pprof/profile'', PprofPage ''Profile''),
       (''/debug/pprof/symbol'', PprofPage ''Symbol''), (''/debug/pprof/trace'', PprofPage ''Trace'')],
     checks = Map.empty\<rparr>"
  by (simp add: observability_New_def registerPprof_def mux_Handle_def Let_def)

text \<open>A check that ran in a state, with its verdict, nil or an error, and the state it left.\<close>

definition ran :: "(string \<rightharpoonup> 'w HealthCheck) \<Rightarrow> time \<Rightarrow> (string \<Rightarrow> goerr option) \<Rightarrow> string \<Rightarrow> 'w \<Rightarrow> 'w \<Rightarrow> bool" where
  "ran cs ctx v name w w' \<longleftrightarrow> (\<exists>check. cs name = Some check \<and> check ctx w = (err_outcome (v name), w'))"

definition no_panics :: "(string \<rightharpoonup> 'w HealthCheck) \<Rightarrow> time \<Rightarrow> bool" where
  "no_panics cs ctx \<longleftrightarrow> (\<forall>name check w p. cs name = Some check \<longrightarrow> fst (check ctx w) \<noteq> Panic p)"

definition breakdown :: "(goerr \<Rightarrow> string) \<Rightarrow> (string \<Rightarrow> goerr option) \<Rightarrow> string \<Rightarrow> string" where
  "breakdown errStr v name = (case v name of None \<Rightarrow> ''ok'' | Some err \<Rightarrow> errStr err)"

lemma ran_other: "n \<notin> set names \<Longrightarrow> labelled_run (ran cs ctx (v(n := x))) names w w' = labelled_run (ran cs ctx v) names w w'"
  by (induction names arbitrary: w) (auto simp: ran_def)

lemma run_checks_ran:
  assumes "no_panics cs ctx" "set order \<subseteq> dom cs" "distinct order"
  shows "\<exists>v w'. labelled_run (ran cs ctx v) order w w' \<and> run_checks errStr ctx cs order ready results w =
    (Ret (ready \<and> (\<forall>n\<in>set order. v n = None), \<lambda>n. if n \<in> set order then Some (breakdown errStr v n) else results n), w')"
  using assms(2,3)
proof (induction order arbitrary: ready results w)
  case (Cons name names)
  then obtain check where c: "cs name = Some check" by auto
  obtain x w1 where x: "check ctx w = (x, w1)" by (metis prod.exhaust)
  obtain e where e: "x = err_outcome e" using assms(1) c x err_outcome_simps(1,2) unfolding no_panics_def by (cases x) (metis unit.exhaust, metis, metis fst_conv)
  let ?b = "case e of None \<Rightarrow> ''ok'' | Some err \<Rightarrow> errStr err"
  have step: "run_checks errStr ctx cs (name # names) ready results w =
      run_checks errStr ctx cs names (ready \<and> e = None) (results(name \<mapsto> ?b)) w1"
    using c x e by (cases e) simp_all
  obtain v w' where v: "labelled_run (ran cs ctx v) names w1 w'" "run_checks errStr ctx cs names (ready \<and> e = None) (results(name \<mapsto> ?b)) w1 =
      (Ret ((ready \<and> e = None) \<and> (\<forall>n\<in>set names. v n = None),
        \<lambda>n. if n \<in> set names then Some (breakdown errStr v n) else (results(name \<mapsto> ?b)) n), w')"
    using Cons.IH [of w1 "ready \<and> e = None" "results(name \<mapsto> ?b)"] Cons.prems unfolding distinct.simps list.set insert_subset by blast
  let ?v = "v(name := e)"
  have "ran cs ctx ?v name w w1" using c x e by (simp add: ran_def)
  then have "labelled_run (ran cs ctx ?v) (name # names) w w'" using v(1) ran_other [of name names cs ctx v e] Cons.prems(2) by auto
  moreover have "run_checks errStr ctx cs (name # names) ready results w =
      (Ret (ready \<and> (\<forall>n\<in>set (name # names). ?v n = None),
        \<lambda>n. if n \<in> set (name # names) then Some (breakdown errStr ?v n) else results n), w')"
    unfolding step v(2) using Cons.prems(2) by (auto simp: breakdown_def fun_eq_iff)
  ultimately show ?case by blast
qed simp

section \<open>Properties\<close>

text \<open>
  C38. The readiness probe: in whatever order Go ranges over the checks, and whatever they do to the state and make of the time, the probe runs each registered
  check exactly once, all with one deadline, which is three seconds after the request or that of the request if it is earlier, and
  each in the state that the check before it left. It answers 200 with overall status \<open>ok\<close> when every check has passed so, and otherwise, with the checks after
  a failing one run all the same, 503 with \<open>unavailable\<close>; its body names for each registered check \<open>ok\<close> or the error it returned, and nothing else. A
  check registered again replaces the one of that name. The checks do not panic.
\<close>

theorem readiness_probe:
  assumes order: "set order = insert name (dom (checks s))" "distinct order"
    and calm: "no_panics ((checks s)(name \<mapsto> check)) ctx"
    and deadline: "ctx = WithTimeout rctx now (3 * Second)"
  shows "\<exists>v w'. labelled_run (ran ((checks s)(name \<mapsto> check)) ctx v) order w w' \<and>
    handleReadiness errStr order rctx now (RegisterReadinessCheck name check s) w =
    (Ret \<lparr>admin_status = (if \<forall>n\<in>insert name (dom (checks s)). v n = None then 200 else 503),
       admin_body = ChecksBody (if \<forall>n\<in>insert name (dom (checks s)). v n = None then ''ok'' else ''unavailable'')
         (\<lambda>n. if n \<in> insert name (dom (checks s)) then Some (case v n of None \<Rightarrow> ''ok'' | Some err \<Rightarrow> errStr err) else None)\<rparr>, w')"
proof -
  have "set order \<subseteq> dom ((checks s)(name \<mapsto> check))" using order(1) by auto
  from run_checks_ran [OF calm this order(2), of w errStr True Map.empty]
  obtain v w' where v: "labelled_run (ran ((checks s)(name \<mapsto> check)) ctx v) order w w'"
    "run_checks errStr ctx ((checks s)(name \<mapsto> check)) order True Map.empty w =
      (Ret (\<forall>n\<in>insert name (dom (checks s)). v n = None,
        \<lambda>n. if n \<in> insert name (dom (checks s)) then Some (breakdown errStr v n) else None), w')"
    unfolding order(1) by auto
  show ?thesis
    by (intro exI [of _ v] exI [of _ w'] conjI v(1))
      (use v(2) [unfolded breakdown_def] in \<open>simp add: handleReadiness_def RegisterReadinessCheck_def deadline readinessTimeout_def writeJSON_def
        StatusServiceUnavailable_def StatusOK_def Let_def del: ball_simps\<close>)
qed

text \<open>A server with a check that spends two seconds and honours the deadline; the state is the clock.\<close>

definition slow_check :: "time HealthCheck" where
  "slow_check ctx w = (if w + 2 * Second > ctx then (Err DeadlineExceeded, ctx) else (Ret (), w + 2 * Second))"

definition bare_server :: "time Server" where
  "bare_server = \<lparr>admin_Addr = '''', admin_ReadHeaderTimeout = 0, mux = [], checks = [''cache'' \<mapsto> slow_check]\<rparr>"

theorem readiness_probe_witness:
  "\<exists>r w'. handleReadiness (\<lambda>_. ''late'') [''storage'', ''cache''] None 0 (RegisterReadinessCheck ''storage'' slow_check bare_server) 0 = (Ret r, w') \<and>
    admin_status r = 503 \<and> (\<exists>b. admin_body r = ChecksBody ''unavailable'' b \<and> b ''storage'' = Some ''ok'' \<and> b ''cache'' = Some ''late'')"
proof -
  let ?cs = "(checks bare_server)(''storage'' \<mapsto> slow_check)" and ?ctx = "WithTimeout None 0 (3 * Second)"
  have o: "set [''storage'', ''cache''] = insert ''storage'' (dom (checks bare_server))" "distinct [''storage'', ''cache'']"
    by (auto simp: bare_server_def)
  have calm: "no_panics ?cs ?ctx" by (auto simp: no_panics_def bare_server_def slow_check_def split: if_splits)
  obtain v w' where v: "labelled_run (ran ?cs ?ctx v) [''storage'', ''cache''] 0 w'"
    "handleReadiness (\<lambda>_. ''late'') [''storage'', ''cache''] None 0 (RegisterReadinessCheck ''storage'' slow_check bare_server) 0 =
    (Ret \<lparr>admin_status = (if \<forall>n\<in>insert ''storage'' (dom (checks bare_server)). v n = None then 200 else 503),
       admin_body = ChecksBody (if \<forall>n\<in>insert ''storage'' (dom (checks bare_server)). v n = None then ''ok'' else ''unavailable'')
         (\<lambda>n. if n \<in> insert ''storage'' (dom (checks bare_server)) then Some (case v n of None \<Rightarrow> ''ok'' | Some err \<Rightarrow> ''late'') else None)\<rparr>, w')"
    using readiness_probe [OF o calm refl, of 0 "\<lambda>_. ''late''"] by blast
  have "v ''storage'' = None" "v ''cache'' \<noteq> None"
    using v(1) by (auto simp: ran_def bare_server_def slow_check_def WithTimeout_def Second_def err_outcome_def split: if_splits option.splits)
  then show ?thesis using v(2) by (auto simp: bare_server_def)
qed

text \<open>
  The routes of the admin server: \<open>New\<close> never panics, and with one metrics handler mounted the health, metrics and profiling
  pages are found under their paths, the rest of the profiling tree goes to its index and any other path is not found;
  mounting the metrics a second time panics.
\<close>

lemma admin_routes:
  assumes "observability_New c = Ret s0" "SetMetricsHandler s0 = Ret s"
  shows "mux_match (mux s) ''/healthz'' = Serves Liveness" "mux_match (mux s) ''/readyz'' = Serves Readiness"
    "mux_match (mux s) ''/metrics'' = Serves MetricsPage" "mux_match (mux s) ''/debug/pprof/heap'' = Serves (PprofPage ''Index'')"
    "mux_match (mux s) ''/debug/pprof/trace'' = Serves (PprofPage ''Trace'')"
    "mux_match (mux s) ''/debug/pprof'' = RedirectSlash ''/debug/pprof/''" "mux_match (mux s) ''/shorten'' = NoPattern"
    "\<exists>p. SetMetricsHandler s = Panic p" "checks s = Map.empty"
    "Addr s = host_port (obs_AdminListen (WithDefaults c)) (obs_AdminPort (WithDefaults c))"
  using assms
  by (auto simp: observability_New_Ret SetMetricsHandler_def mux_Handle_def mux_match_def subtrees_def Addr_def)

lemma admin_live: "mux_match (mux s) ''/healthz'' = Serves Liveness \<Longrightarrow>
    admin_serve errStr order metrics rctx now s ''/healthz'' w = (Ret \<lparr>admin_status = 200, admin_body = StatusBody ''ok''\<rparr>, w)"
  by (simp add: admin_serve_def handleLiveness_def writeJSON_def StatusOK_def)

end
