(* ===== verification/Clients.thy ===== *)
theory Clients
  imports Config
begin

text \<open>
  The thin packages around libraries: the MySQL and redis clients (\<open>pkg/db\<close>), the validator singleton (\<open>pkg/validate\<close>) and
  the tracer provider (\<open>pkg/otel\<close>). What the libraries do is a parameter; the theory has the options the code passes, the order of
  its calls and its errors.
\<close>

section \<open>MySQL\<close>

record gorm_options =
  SkipDefaultTransaction :: bool
  TranslateError :: bool

record pool =
  MaxIdleConns :: int
  MaxOpenConns :: int
  ConnMaxLifetime :: duration
  ConnMaxIdleTime :: duration

text \<open>\<open>gorm.Open\<close> on a DSN, the tracing plugin and the connection pool below a handle.\<close>

record ('h, 'p) gorm_lib =
  gorm_Open :: "string \<Rightarrow> gorm_options \<Rightarrow> goerr + 'h"
  use_tracing :: "'h \<Rightarrow> goerr option"
  pool_of :: "'h \<Rightarrow> goerr + 'p"
  set_pool :: "pool \<Rightarrow> 'p \<Rightarrow> 'h \<Rightarrow> 'h"

definition mysql_client_New :: "('h, 'p) gorm_lib \<Rightarrow> MySQLConfig option \<Rightarrow> 'h outcome" where
  "mysql_client_New lib c =
     (case c of
        None \<Rightarrow> Panic ''nil pointer dereference''
      | Some c \<Rightarrow>
          (case gorm_Open lib (mysql_DSN c) \<lparr>SkipDefaultTransaction = True, TranslateError = True\<rparr> of
             Inl err \<Rightarrow> Err err
           | Inr db \<Rightarrow>
               (case use_tracing lib db of
                  Some err \<Rightarrow> Err err
                | None \<Rightarrow>
                    (case pool_of lib db of
                       Inl err \<Rightarrow> Err err
                     | Inr sqlDB \<Rightarrow>
                         Ret (set_pool lib \<lparr>MaxIdleConns = mysql_MaxConn c, MaxOpenConns = mysql_MaxConn c,
                                ConnMaxLifetime = 3600 * Second, ConnMaxIdleTime = 60 * Second\<rparr> sqlDB db)))))"

section \<open>Redis\<close>

record universal_options =
  Addrs :: "string list"
  DialTimeout :: duration
  MaxIdle :: int
  MaxActive :: int

text \<open>The client of the options; an error of the instrumentation is only logged (the second component).\<close>

definition Client :: "(universal_options \<Rightarrow> 'c) \<Rightarrow> ('c \<Rightarrow> goerr option) \<Rightarrow> RedisConfig \<Rightarrow> 'c \<times> goerr option" where
  "Client NewUniversalClient InstrumentTracing c =
     (let rdb = NewUniversalClient \<lparr>Addrs = redis_Addr c, DialTimeout = redis_DialTimeout c, MaxIdle = redis_MaxConn c,
            MaxActive = redis_MaxConn c\<rparr>
      in (rdb, InstrumentTracing rdb))"

section \<open>The validator\<close>

text \<open>
  \<open>Instance\<close>: the state is the flag of \<open>sync.Once\<close> and the variable it guards; \<open>fresh\<close> is what \<open>validator.New\<close> returns in this
  call.
\<close>

record 'v singleton =
  once_done :: bool
  instance_of :: "'v option"

definition Instance :: "'v \<Rightarrow> 'v singleton \<Rightarrow> 'v option \<times> 'v singleton" where
  "Instance fresh s =
     (let s = (if once_done s then s else \<lparr>once_done = True, instance_of = Some fresh\<rparr>) in (instance_of s, s))"

section \<open>Tracing\<close>

definition ServiceName :: string where "ServiceName = ''turl''"

record ('e, 'r) otel_lib =
  otlptracegrpc_New :: "string \<Rightarrow> goerr + 'e"
  resource_New :: "string \<Rightarrow> goerr + 'r"

record ('e, 'r) TracerProvider =
  tp_batcher :: 'e
  tp_resource :: 'r
  tp_ratio :: rat

record ('e, 'r) otel_globals =
  provider :: "('e, 'r) TracerProvider option"
  propagators :: "string list"

datatype ('e, 'r) ShutdownFunc = noopShutdown | ProviderShutdown "('e, 'r) TracerProvider"

definition otel_Init ::
  "('e, 'r) otel_lib \<Rightarrow> TracingConfig option \<Rightarrow> ('e, 'r) otel_globals \<Rightarrow> ('e, 'r) ShutdownFunc outcome \<times> ('e, 'r) otel_globals" where
  "otel_Init lib c g =
     (case c of
        None \<Rightarrow> (Ret noopShutdown, g)
      | Some c \<Rightarrow>
          if \<not> tracing_Enable c then (Ret noopShutdown, g)
          else
            (case otlptracegrpc_New lib (tracing_OTLPEndpoint c) of
               Inl err \<Rightarrow> (Err (Wrapped ''create otlp exporter'' err), g)
             | Inr exporter \<Rightarrow>
                 (case resource_New lib ServiceName of
                    Inl err \<Rightarrow> (Err (Wrapped ''create resource'' err), g)
                  | Inr res \<Rightarrow>
                      (let ratio = tracing_SamplingRatio c;
                           ratio = (if ratio = 0 then DefaultSamplingRatio else ratio);
                           tp = \<lparr>tp_batcher = exporter, tp_resource = res, tp_ratio = ratio\<rparr>
                       in (Ret (ProviderShutdown tp),
                           g\<lparr>provider := Some tp, propagators := [''tracecontext'', ''baggage'']\<rparr>)))))"

text \<open>The tracer for manual spans: the service's name at the provider that is installed when it is asked for.\<close>

definition Tracer :: "('e, 'r) otel_globals \<Rightarrow> string \<times> ('e, 'r) TracerProvider option" where
  "Tracer g = (ServiceName, provider g)"

section \<open>Properties\<close>

text \<open>
  The pool of the client is bounded by the configured number of connections, both open and idle; an error of any of the three
  calls is returned and no client is.
\<close>

lemma mysql_client_New_Ret:
  "mysql_client_New lib c = Ret h \<longleftrightarrow>
    (\<exists>cfg db p. c = Some cfg \<and> gorm_Open lib (mysql_DSN cfg) \<lparr>SkipDefaultTransaction = True, TranslateError = True\<rparr> = Inr db \<and>
      use_tracing lib db = None \<and> pool_of lib db = Inr p \<and>
      h = set_pool lib \<lparr>MaxIdleConns = mysql_MaxConn cfg, MaxOpenConns = mysql_MaxConn cfg, ConnMaxLifetime = 3600000000000,
            ConnMaxIdleTime = 60000000000\<rparr> p db)"
  by (auto simp: mysql_client_New_def Second_def split: option.splits sum.splits)

text \<open>Every call of \<open>Instance\<close> after the first returns what the first returned.\<close>

fun instances :: "'v list \<Rightarrow> 'v singleton \<Rightarrow> 'v option list" where
  "instances [] s = []"
| "instances (fresh # fs) s = (case Instance fresh s of (v, s') \<Rightarrow> v # instances fs s')"

lemma instances_once: "once_done s \<Longrightarrow> instances fs s = map (\<lambda>_. instance_of s) fs"
  by (induction fs) (simp_all add: Instance_def)

lemma instances_same:
  "instances (f # fs) \<lparr>once_done = False, instance_of = None\<rparr> = Some f # map (\<lambda>_. Some f) fs"
  by (simp add: Instance_def instances_once)

text \<open>
  When tracing is installed and how much is sampled: without a tracing section, or with tracing switched off, \<open>Init\<close> changes
  nothing and returns the empty shutdown; otherwise it installs a provider exactly when the exporter and the resource could be
  made, returning its shutdown, and on an error installs nothing. The provider samples the configured fraction of the traces, but all
  of them when that fraction is zero.
\<close>

lemma otel_Init_cases:
  "otel_Init lib c g =
    (if c = None \<or> \<not> tracing_Enable (the c) then (Ret noopShutdown, g)
     else case (otlptracegrpc_New lib (tracing_OTLPEndpoint (the c)), resource_New lib ''turl'') of
        (Inl err, _) \<Rightarrow> (Err (Wrapped ''create otlp exporter'' err), g)
      | (Inr _, Inl err) \<Rightarrow> (Err (Wrapped ''create resource'' err), g)
      | (Inr e, Inr r) \<Rightarrow>
          let tp = \<lparr>tp_batcher = e, tp_resource = r,
                tp_ratio = (if tracing_SamplingRatio (the c) = 0 then 1 else tracing_SamplingRatio (the c))\<rparr>
          in (Ret (ProviderShutdown tp), \<lparr>provider = Some tp, propagators = [''tracecontext'', ''baggage'']\<rparr>))"
  by (simp add: otel_Init_def ServiceName_def DefaultSamplingRatio_def Let_def split: option.split sum.split)

end
