(* ===== verification/Shutdown.thy ===== *)
theory Shutdown
  imports Http_Server Observability Clients
begin

text \<open>
  Graceful shutdown (\<open>pkg/shutdown/graceful_shutdown.go\<close>). An option is a function on the state of the process, which may return nil or
  an error, panic, or never return (\<open>None\<close>). \<open>http.Server.Shutdown\<close> waits for the requests in flight, for as long as its context allows:
  what it does to the world and whether it returns an error is the parameter \<open>drain\<close>; flushing the spans of a tracer provider
  is the parameter \<open>flush\<close>. Both return, by the deadline of the context. The context of the handler's option is ignored by the code.
\<close>

section \<open>The state of the process\<close>

text \<open>What the process has done, in order: lines of the log and the milestones of its life.\<close>

datatype effect =
    Says int string
  | LoggerSet
  | TracingInstalled
  | Listening string
  | AdminListening string
  | SignalReceived
  | Drained string
  | HandlerClosed
  | SpansFlushed

record 'w process =
  proc_world :: 'w
  effects :: "effect list"

definition act :: "effect list \<Rightarrow> 'w process \<Rightarrow> 'w process" where
  "act es p = p\<lparr>effects := effects p @ es\<rparr>"

type_synonym 'w OptionFunc = "'w process \<Rightarrow> (unit outcome \<times> 'w process) option"

section \<open>The options\<close>

definition HandlerShutdown :: "'w Handler \<Rightarrow> 'w OptionFunc" where
  "HandlerShutdown handler p =
     (case handler_Close handler (proc_world p) of
        None \<Rightarrow> None
      | Some (Err err, w) \<Rightarrow>
          Some (Err err, act [HandlerClosed, Says slog_LevelError ''failed to shutdown handler''] (p\<lparr>proc_world := w\<rparr>))
      | Some (Panic m, w) \<Rightarrow> Some (Panic m, p\<lparr>proc_world := w\<rparr>)
      | Some (Ret _, w) \<Rightarrow> Some (Ret (), act [HandlerClosed, Says slog_LevelInfo ''handler stopped''] (p\<lparr>proc_world := w\<rparr>)))"

definition HTTPServerShutdown :: "(string \<Rightarrow> 'w \<Rightarrow> goerr option \<times> 'w) \<Rightarrow> string \<Rightarrow> 'w OptionFunc" where
  "HTTPServerShutdown drain addr p =
     (case drain addr (proc_world p) of
        (Some err, w) \<Rightarrow>
          Some (Err err, act [Drained addr, Says slog_LevelError ''failed to shutdown HTTP server''] (p\<lparr>proc_world := w\<rparr>))
      | (None, w) \<Rightarrow> Some (Ret (), act [Drained addr, Says slog_LevelInfo ''HTTP server stopped''] (p\<lparr>proc_world := w\<rparr>)))"

definition TracingShutdown :: "(('e, 'r) TracerProvider \<Rightarrow> 'w \<Rightarrow> goerr option \<times> 'w) \<Rightarrow> ('e, 'r) ShutdownFunc \<Rightarrow> 'w OptionFunc" where
  "TracingShutdown flush f p =
     (case f of
        noopShutdown \<Rightarrow> Some (Ret (), p)
      | ProviderShutdown tp \<Rightarrow>
          (case flush tp (proc_world p) of (e, w) \<Rightarrow> Some (err_outcome e, act [SpansFlushed] (p\<lparr>proc_world := w\<rparr>))))"

fun GracefulShutdown :: "'w OptionFunc list \<Rightarrow> 'w OptionFunc" where
  "GracefulShutdown [] p = Some (Ret (), p)"
| "GracefulShutdown (opt # opts) p =
     (case opt p of
        None \<Rightarrow> None
      | Some (Panic m, p') \<Rightarrow> Some (Panic m, p')
      | Some (Err err, p') \<Rightarrow> GracefulShutdown opts (act [Says slog_LevelError ''failed to shutdown gracefully''] p')
      | Some (Ret _, p') \<Rightarrow> GracefulShutdown opts p')"

section \<open>Lemmas\<close>

text \<open>An option that returns, and the state it leaves together with the line \<open>GracefulShutdown\<close> adds for an error.\<close>

definition returns :: "'w OptionFunc \<Rightarrow> bool" where
  "returns opt \<longleftrightarrow> (\<forall>p. \<exists>x p'. opt p = Some (x, p') \<and> (\<forall>m. x \<noteq> Panic m))"

definition leaves :: "'w process \<Rightarrow> 'w OptionFunc \<Rightarrow> 'w process" where
  "leaves p opt = (case opt p of
     Some (Err err, p') \<Rightarrow> act [Says slog_LevelError ''failed to shutdown gracefully''] p' | Some (_, p') \<Rightarrow> p' | None \<Rightarrow> p)"

lemma graceful_append:
  "GracefulShutdown (opts @ opts') p =
     (case GracefulShutdown opts p of None \<Rightarrow> None | Some (Panic m, p') \<Rightarrow> Some (Panic m, p') | Some (_, p') \<Rightarrow> GracefulShutdown opts' p')"
proof (induction opts arbitrary: p)
  case (Cons opt opts)
  then show ?case by (auto split: option.split prod.split outcome.split)
qed simp

lemma graceful_returns:
  "\<forall>opt\<in>set opts. returns opt \<Longrightarrow> GracefulShutdown opts p = Some (Ret (), foldl leaves p opts)"
proof (induction opts arbitrary: p)
  case (Cons opt opts)
  then obtain x p' where x: "opt p = Some (x, p')" "\<forall>m. x \<noteq> Panic m" unfolding returns_def by (meson list.set_intros(1))
  then show ?case using Cons by (cases x) (simp_all add: leaves_def)
qed simp

lemma HTTPServerShutdown_returns [simp]: "returns (HTTPServerShutdown drain addr)"
  by (auto simp: returns_def HTTPServerShutdown_def split: prod.split option.split)

lemma TracingShutdown_returns [simp]: "returns (TracingShutdown flush f)"
  unfolding returns_def TracingShutdown_def by (auto split: prod.split ShutdownFunc.split)

section \<open>Properties\<close>

text \<open>
  Shutdown goes through: when every option returns, with nil or with an error, \<open>GracefulShutdown\<close> returns and has run every
  one of them exactly once and in order, an error of one never keeping the next from running; and an option that does not return
  keeps every later one from running and \<open>GracefulShutdown\<close> from returning, whatever its context says.
\<close>

lemma graceful_shutdown:
  "((\<forall>opt\<in>set opts. returns opt) \<longrightarrow> GracefulShutdown opts p = Some (Ret (), foldl leaves p opts)) \<and>
   ((\<forall>opt\<in>set opts. returns opt) \<and> opt (foldl leaves p opts) = None \<longrightarrow> GracefulShutdown (opts @ opt # opts') p = None)"
  using graceful_returns [of opts p] by (auto simp: graceful_append)

lemma graceful_shutdown_witness:
  "GracefulShutdown [HTTPServerShutdown (\<lambda>_ w. (Some DeadlineExceeded, w)) '':8080'', TracingShutdown (\<lambda>_ w. (None, w)) (noopShutdown :: (nat, nat) ShutdownFunc)]
     \<lparr>proc_world = (), effects = []\<rparr> =
   Some (Ret (), \<lparr>proc_world = (), effects = [Drained '':8080'', Says 8 ''failed to shutdown HTTP server'', Says 8 ''failed to shutdown gracefully'']\<rparr>) \<and>
   GracefulShutdown ([] @ (\<lambda>_. None) # [TracingShutdown (\<lambda>_ w. (None, w)) (noopShutdown :: (nat, nat) ShutdownFunc)]) \<lparr>proc_world = (), effects = []\<rparr> = None"
  using graceful_shutdown [of "[HTTPServerShutdown (\<lambda>_ w. (Some DeadlineExceeded, w)) '':8080'', TracingShutdown (\<lambda>_ w. (None, w)) (noopShutdown :: (nat, nat) ShutdownFunc)]"
      "\<lparr>proc_world = (), effects = []\<rparr>" "\<lambda>_. None" "[]"]
    graceful_shutdown [of "[]" "\<lparr>proc_world = (), effects = []\<rparr>" "\<lambda>_. None" "[TracingShutdown (\<lambda>_ w. (None, w)) (noopShutdown :: (nat, nat) ShutdownFunc)]"]
  by (simp add: leaves_def HTTPServerShutdown_def TracingShutdown_def act_def slog_LevelError_def)

end
