(* ===== verification/Cli.thy ===== *)
theory Cli
  imports Shutdown
begin

text \<open>
  The command line (\<open>cli\<close>, \<open>cmd/turl\<close>): reading the configuration with the flags, starting the process, its health command, and the
  order in which it is taken down. The world is that of a node built by \<open>newService\<close>. From the moment the servers listen until a signal
  arrives the world changes as the requests demand: that is the parameter \<open>run\<close>. urfave/cli hands the flags to the commands
  and calls the exit handler; go-pretty renders the table of the version command (\<open>render\<close>).
\<close>

section \<open>Flags and configuration\<close>

record flags =
  flag_file :: string
  flag_readonly :: bool
  flag_debug :: bool
  flag_addr :: string

definition configPathFlag :: string where "configPathFlag = ''file''"
definition readonlyFlag :: string where "readonlyFlag = ''readonly''"
definition debugFlag :: string where "debugFlag = ''debug''"

definition DefaultHost :: string where "DefaultHost = ''localhost''"
definition DefaultPort :: int where "DefaultPort = 8080"
definition DefaultServerAddr :: string where "DefaultServerAddr = host_port DefaultHost DefaultPort"

text \<open>The values of the flags that are not given.\<close>

definition default_flags :: flags where
  "default_flags = \<lparr>flag_file = ''./config.yaml'', flag_readonly = False, flag_debug = False, flag_addr = DefaultServerAddr\<rparr>"

text \<open>The configuration, with the lines the code logs.\<close>

definition parseServerStartConfig ::
  "'k koanf \<Rightarrow> (ServerConfig \<Rightarrow> goerr option) \<Rightarrow> flags \<Rightarrow> 'k \<Rightarrow> ServerConfig outcome \<times> effect list \<times> 'k" where
  "parseServerStartConfig K Struct fl k =
     (let filePath = flag_file fl;
          mp = Map.empty;
          mp = (if flag_readonly fl then mp(readonlyFlag \<mapsto> True) else mp);
          mp = (if flag_debug fl then mp(debugFlag \<mapsto> True) else mp)
      in
      (case ReadFile K filePath mp k of
         (Inl err, k') \<Rightarrow> (Err err, [Says slog_LevelError ''read server config file failed''], k')
       | (Inr conf, k') \<Rightarrow>
           (case Validate Struct conf of
              Err err \<Rightarrow> (Err err, [Says slog_LevelError ''invalid server config''], k')
            | Panic p \<Rightarrow> (Panic p, [], k')
            | Ret _ \<Rightarrow> (Ret conf, [], k'))))"

section \<open>Starting and stopping\<close>

definition initTracing ::
  "('e, 't) otel_lib \<Rightarrow> ServerConfig \<Rightarrow> ('e, 't) otel_globals \<Rightarrow> ('e, 't) ShutdownFunc outcome \<times> ('e, 't) otel_globals" where
  "initTracing lib conf g =
     (let tracingCfg = (case Observability conf of None \<Rightarrow> None | Some o' \<Rightarrow> obs_Tracing o') in otel_Init lib tracingCfg g)"

text \<open>
  \<open>CheckReadiness\<close> passes its context on to the pings of the database and of redis; their answers, those of a ping that ran into the deadline among
  them, are parameters of the model, so the deadline is not used here.
\<close>

definition startObservabilityServer :: "ObservabilityConfig option \<Rightarrow> 'w Handler \<Rightarrow> 'w Server option outcome" where
  "startObservabilityServer c handler =
     (case c of
        None \<Rightarrow> Ret None
      | Some c \<Rightarrow>
          if \<not> obs_Enable c then Ret None
          else
            (case observability_New c of
               Err err \<Rightarrow> Err err
             | Panic p \<Rightarrow> Panic p
             | Ret obsSrv \<Rightarrow>
                 (case SetMetricsHandler (RegisterReadinessCheck ''storage'' (\<lambda>_. CheckReadiness handler) obsSrv) of
                    Err err \<Rightarrow> Err err
                  | Panic p \<Rightarrow> Panic p
                  | Ret obsSrv \<Rightarrow> Ret (Some obsSrv))))"

definition shutdownOptions ::
  "(string \<Rightarrow> 'w \<Rightarrow> goerr option \<times> 'w) \<Rightarrow> (('e, 't) TracerProvider \<Rightarrow> 'w \<Rightarrow> goerr option \<times> 'w) \<Rightarrow>
   http_server \<Rightarrow> 'w Server option \<Rightarrow> 'w Handler \<Rightarrow> ('e, 't) ShutdownFunc \<Rightarrow> 'w OptionFunc list" where
  "shutdownOptions drain flush srv obsSrv handler shutdownTracing =
     (let opts = [HTTPServerShutdown drain (srv_Addr srv)];
          opts = (case obsSrv of None \<Rightarrow> opts | Some obs \<Rightarrow> opts @ [HTTPServerShutdown drain (HTTPServer obs)])
      in opts @ [HandlerShutdown handler, TracingShutdown flush shutdownTracing])"

text \<open>
  The goroutine of a listener that has returned with an error logs it, unless the server was shut down; the process waits on for the
  signal. The line is put where the goroutine is started.
\<close>

definition ErrServerClosed :: goerr where
  "ErrServerClosed = OtherError ''http: Server closed''"

definition listen_line :: "string \<Rightarrow> goerr option \<Rightarrow> effect list" where
  "listen_line msg e =
     (case e of None \<Rightarrow> [] | Some err \<Rightarrow> if \<not> errors_Is err ErrServerClosed then [Says slog_LevelError msg] else [])"

text \<open>What the process runs on: the libraries, the machine, and the work until the signal.\<close>

record ('k, 'd, 'r, 'l, 'q, 'e, 't) machine =
  config_reader :: "'k koanf"
  config_tags :: "ServerConfig \<Rightarrow> goerr option"
  node_deps :: "('d, 'r, 'l, 'q) deps"
  url_check :: "bytes \<Rightarrow> goerr option"
  clock :: "nat \<Rightarrow> time"
  call_ctx :: ctx
  pprof_routes :: "(string \<times> string) list"
  tracing_lib :: "('e, 't) otel_lib"
  drain :: "string \<Rightarrow> ('d, 'r, 'l, 'q) node_world \<Rightarrow> goerr option \<times> ('d, 'r, 'l, 'q) node_world"
  flush :: "('e, 't) TracerProvider \<Rightarrow> ('d, 'r, 'l, 'q) node_world \<Rightarrow> goerr option \<times> ('d, 'r, 'l, 'q) node_world"
  ListenAndServe :: "string \<Rightarrow> goerr option"
  run :: "http_server \<Rightarrow> ('d, 'r, 'l, 'q) node_world Server option \<Rightarrow> ('d, 'r, 'l, 'q) node_world \<Rightarrow> ('d, 'r, 'l, 'q) node_world"

text \<open>Whether the process ever returns from the command (\<open>None\<close> when not), with what it returns and what it did.\<close>

definition serverStart ::
  "('k, 'd, 'r, 'l, 'q, 'e, 't) machine \<Rightarrow> flags \<Rightarrow> 'k \<Rightarrow> ('e, 't) otel_globals \<Rightarrow> (unit outcome \<times> effect list) option" where
  "serverStart M fl k g =
     (case parseServerStartConfig (config_reader M) (config_tags M) fl k of
        (Err err, es, _) \<Rightarrow> Some (Err err, es)
      | (Panic m, es, _) \<Rightarrow> Some (Panic m, es)
      | (Ret conf, es, _) \<Rightarrow>
     (case fst (SetDefaultLogger (Log conf) None) of
        Err err \<Rightarrow> Some (Err err, es)
      | Panic m \<Rightarrow> Some (Panic m, es)
      | Ret _ \<Rightarrow>
     (case fst (initTracing (tracing_lib M) conf g) of
        Err err \<Rightarrow> Some (Err err, es @ [LoggerSet])
      | Panic m \<Rightarrow> Some (Panic m, es @ [LoggerSet])
      | Ret shutdownTracing \<Rightarrow>
     (let es = es @ [LoggerSet] @ (case shutdownTracing of noopShutdown \<Rightarrow> [] | ProviderShutdown _ \<Rightarrow> [TracingInstalled]) in
     (case NewHandler (url_check M) (clock M) (call_ctx M) (node_deps M) conf of
        None \<Rightarrow> None
      | Some (Err err) \<Rightarrow> Some (Err err, es)
      | Some (Panic m) \<Rightarrow> Some (Panic m, es)
      | Some (Ret (handler, w)) \<Rightarrow>
     (case NewServer (pprof_routes M) conf of
        Err err \<Rightarrow> Some (Err err, es)
      | Panic m \<Rightarrow> Some (Panic m, es)
      | Ret srv \<Rightarrow>
     (let es = es @ [Listening (srv_Addr srv)] @ listen_line ''listen and serve failed'' (ListenAndServe M (srv_Addr srv)) in
     (case startObservabilityServer (Observability conf) handler of
        Err err \<Rightarrow> Some (Err err, es)
      | Panic m \<Rightarrow> Some (Panic m, es)
      | Ret obsSrv \<Rightarrow>
     (let es = es @ (case obsSrv of
            None \<Rightarrow> []
          | Some obs \<Rightarrow> [AdminListening (Addr obs)] @ listen_line ''admin server failed'' (server_Start (ListenAndServe M) obs) @
              [Says slog_LevelInfo ''admin server started'']);
          p = \<lparr>proc_world = run M srv obsSrv w, effects = es @ [SignalReceived]\<rparr>
      in
     (case GracefulShutdown (shutdownOptions (drain M) (flush M) srv obsSrv handler shutdownTracing) p of
        None \<Rightarrow> None
      | Some (Panic m, p') \<Rightarrow> Some (Panic m, effects p')
      | Some (_, p') \<Rightarrow> Some (Ret (), effects p' @ [Says slog_LevelInfo ''HTTP Server exited''])))))))))))"

section \<open>The other commands\<close>

text \<open>\<open>http.Get\<close> on a URL: an error, or the code and the text of the status.\<close>

definition serverHealth :: "(string \<Rightarrow> goerr + nat \<times> string) \<Rightarrow> flags \<Rightarrow> unit outcome \<times> effect list" where
  "serverHealth http_Get fl =
     (case http_Get (''http://'' @ flag_addr fl @ HealthCheckPath) of
        Inl err \<Rightarrow> (Err err, [Says slog_LevelError ''health check failed''])
      | Inr (StatusCode, Status) \<Rightarrow>
          if StatusCode \<noteq> StatusOK
          then (Err (OtherError (''health check failed, status: '' @ Status)), [Says slog_LevelError ''health check failed''])
          else (Ret (), [Says slog_LevelInfo ''health check success'']))"

text \<open>The version command; the values the linker may set and what the Go runtime says of itself are its arguments.\<close>

record build_info =
  gitHash :: string
  buildTime :: string
  version :: string

definition plain_build :: build_info where
  "plain_build = \<lparr>gitHash = '''', buildTime = '''', version = ''v0.0.0''\<rparr>"

definition versionPrinter :: "(string list \<Rightarrow> string list list \<Rightarrow> string) \<Rightarrow> build_info \<Rightarrow> string \<Rightarrow> string \<Rightarrow> string \<Rightarrow> string" where
  "versionPrinter render b runtime_Version GOOS GOARCH =
     render [''# TURL Server INFO'', '''']
       [[''Version:'', version b], [''Go Version:'', runtime_Version], [''Git Commit:'', gitHash b],
        [''OS/Arch:'', GOOS @ ''/'' @ GOARCH], [''Built Time:'', buildTime b]]"

definition exitCodeOK :: int where "exitCodeOK = 0"
definition exitCodeError :: int where "exitCodeError = 1"

text \<open>
  The commands of the app, and the code the process exits with: \<open>ExitErrHandler\<close> turns an error into an exit with code 1, without
  one \<open>main\<close> returns, and a panic ends a Go program with code 2.
\<close>

definition cli_New ::
  "('k, 'd, 'r, 'l, 'q, 'e, 't) machine \<Rightarrow> (string \<Rightarrow> goerr + nat \<times> string) \<Rightarrow> 'k \<Rightarrow> ('e, 't) otel_globals \<Rightarrow>
   (string \<times> (flags \<Rightarrow> (unit outcome \<times> effect list) option)) list" where
  "cli_New M http_Get k g =
     [(''start'', \<lambda>fl. serverStart M fl k g), (''health'', \<lambda>fl. Some (serverHealth http_Get fl))]"

definition ExitErrHandler :: "goerr option \<Rightarrow> int option" where
  "ExitErrHandler err = (case err of None \<Rightarrow> None | Some _ \<Rightarrow> Some exitCodeError)"

definition main_exit :: "unit outcome \<Rightarrow> int" where
  "main_exit x =
     (case x of
        Panic _ \<Rightarrow> 2
      | Ret _ \<Rightarrow> (case ExitErrHandler None of Some n \<Rightarrow> n | None \<Rightarrow> exitCodeOK)
      | Err err \<Rightarrow> (case ExitErrHandler (Some err) of Some n \<Rightarrow> n | None \<Rightarrow> exitCodeOK))"

section \<open>Lemmas\<close>

text \<open>The milestones among what a process did, without the lines of its log.\<close>

fun is_line :: "effect \<Rightarrow> bool" where
  "is_line (Says _ _) = True"
| "is_line _ = False"

definition milestones :: "effect list \<Rightarrow> effect list" where
  "milestones es = filter (\<lambda>e. \<not> is_line e) es"

lemma milestones_simps [simp]:
  "milestones [] = []" "milestones (e # es) = (if is_line e then milestones es else e # milestones es)"
  "milestones (es @ es') = milestones es @ milestones es'"
  by (simp_all add: milestones_def)

lemma milestones_listen [simp]: "milestones (listen_line msg e) = []"
  by (simp add: listen_line_def split: option.split)

lemma act_simps [simp]: "effects (act es p) = effects p @ es" "proc_world (act es p) = proc_world p"
  by (simp_all add: act_def)

text \<open>The milestones an option adds when it returns.\<close>

definition adds :: "'w OptionFunc \<Rightarrow> effect list \<Rightarrow> bool" where
  "adds opt es \<longleftrightarrow> (\<forall>p x p'. opt p = Some (x, p') \<and> (\<forall>m. x \<noteq> Panic m) \<longrightarrow> milestones (effects p') = milestones (effects p) @ es)"

lemma adds_options:
  "adds (HTTPServerShutdown dr a) [Drained a]"
  "adds (HandlerShutdown h) [HandlerClosed]"
  "adds (TracingShutdown fl f) (case f of noopShutdown \<Rightarrow> [] | ProviderShutdown _ \<Rightarrow> [SpansFlushed])"
  by (auto simp: adds_def HTTPServerShutdown_def HandlerShutdown_def TracingShutdown_def
      split: prod.splits option.splits outcome.splits ShutdownFunc.splits)

lemma graceful_adds:
  assumes "list_all2 adds opts ess" "GracefulShutdown opts p = Some (Ret (), p')"
  shows "milestones (effects p') = milestones (effects p) @ concat ess"
  using assms
proof (induction arbitrary: p rule: list_all2_induct)
  case (Cons opt opts es ess)
  then obtain x q where x: "opt p = Some (x, q)" "\<forall>m. x \<noteq> Panic m"
    by (auto split: option.splits prod.splits outcome.splits)
  then have "milestones (effects q) = milestones (effects p) @ es" using Cons.hyps(1) by (auto simp: adds_def)
  then show ?case using x Cons.IH Cons.prems by (cases x) fastforce+
qed simp

lemma shutdown_milestones:
  assumes "GracefulShutdown (shutdownOptions dr fl srv obsSrv h f) p = Some (Ret (), p')"
  shows "milestones (effects p') = milestones (effects p) @ [Drained (srv_Addr srv)] @
    (case obsSrv of None \<Rightarrow> [] | Some obs \<Rightarrow> [Drained (Addr obs)]) @ [HandlerClosed] @
    (case f of noopShutdown \<Rightarrow> [] | ProviderShutdown _ \<Rightarrow> [SpansFlushed])"
proof -
  let ?ess = "[[Drained (srv_Addr srv)]] @ (case obsSrv of None \<Rightarrow> [] | Some obs \<Rightarrow> [[Drained (Addr obs)]]) @
    [[HandlerClosed], case f of noopShutdown \<Rightarrow> [] | ProviderShutdown _ \<Rightarrow> [SpansFlushed]]"
  have "list_all2 adds (shutdownOptions dr fl srv obsSrv h f) ?ess"
    by (auto simp: shutdownOptions_def Let_def adds_options split: option.split)
  from graceful_adds [OF this assms] show ?thesis by (auto split: option.split)
qed

lemma graceful_no_error: "GracefulShutdown opts p \<noteq> Some (Err e, p')"
  by (induction opts arbitrary: p) (auto split: option.splits prod.splits outcome.splits)

lemma otel_Init_no_panic: "fst (otel_Init lib c g) \<noteq> Panic m"
  by (auto simp: otel_Init_def Let_def split: option.splits sum.splits)

lemma startObservabilityServer_cases:
  "\<exists>obsSrv. startObservabilityServer c h = Ret obsSrv \<and>
    (obsSrv = None \<longleftrightarrow> (\<forall>o'. c = Some o' \<longrightarrow> \<not> obs_Enable o')) \<and>
    (\<forall>obs. obsSrv = Some obs \<longrightarrow> (\<exists>o'. c = Some o' \<and> checks obs = [''storage'' \<mapsto> (\<lambda>_. CheckReadiness h)] \<and>
      Addr obs = host_port (obs_AdminListen (WithDefaults o')) (obs_AdminPort (WithDefaults o')) \<and>
      mux_match (mux obs) ''/healthz'' = Serves Liveness \<and> mux_match (mux obs) ''/readyz'' = Serves Readiness))"
  by (auto simp: startObservabilityServer_def observability_New_Ret RegisterReadinessCheck_def SetMetricsHandler_def
      mux_Handle_def mux_match_def Addr_def split: option.split)

text \<open>The address of the admin server, when there is one, and whether spans are recorded.\<close>

definition admin_addrs :: "ServerConfig \<Rightarrow> string list" where
  "admin_addrs conf = (case Observability conf of
     Some o' \<Rightarrow> if obs_Enable o' then [host_port (obs_AdminListen (WithDefaults o')) (obs_AdminPort (WithDefaults o'))] else []
   | None \<Rightarrow> [])"

definition traced :: "ServerConfig \<Rightarrow> bool" where
  "traced conf \<longleftrightarrow> (\<exists>o' t. Observability conf = Some o' \<and> obs_Tracing o' = Some t \<and> tracing_Enable t)"

lemma initTracing_Ret:
  "fst (initTracing lib conf g) = Ret f \<Longrightarrow> (f = noopShutdown) = (\<not> traced conf)"
  by (auto simp: initTracing_def otel_Init_def traced_def Let_def split: option.splits if_splits sum.splits)

lemma admin_server_addr:
  "startObservabilityServer (Observability conf) h = Ret obsSrv \<Longrightarrow>
    admin_addrs conf = (case obsSrv of None \<Rightarrow> [] | Some obs \<Rightarrow> [Addr obs])"
  using startObservabilityServer_cases [of "Observability conf" h] by (auto simp: admin_addrs_def split: option.splits)

text \<open>The process as it is when the signal comes, and what the start then returns.\<close>

definition signalled ::
  "('k, 'd, 'r, 'l, 'q, 'e, 't) machine \<Rightarrow> effect list \<Rightarrow> ('e, 't) ShutdownFunc \<Rightarrow> http_server \<Rightarrow>
   ('d, 'r, 'l, 'q) node_world Server option \<Rightarrow> ('d, 'r, 'l, 'q) node_world \<Rightarrow> ('d, 'r, 'l, 'q) node_world process" where
  "signalled M es f srv obsSrv w =
     \<lparr>proc_world = run M srv obsSrv w,
      effects = es @ [LoggerSet] @ (case f of noopShutdown \<Rightarrow> [] | ProviderShutdown _ \<Rightarrow> [TracingInstalled]) @
        [Listening (srv_Addr srv)] @ listen_line ''listen and serve failed'' (ListenAndServe M (srv_Addr srv)) @
        (case obsSrv of
           None \<Rightarrow> []
         | Some obs \<Rightarrow> [AdminListening (Addr obs)] @ listen_line ''admin server failed'' (server_Start (ListenAndServe M) obs) @
             [Says slog_LevelInfo ''admin server started'']) @
        [SignalReceived]\<rparr>"

lemma serverStart_up:
  assumes "parseServerStartConfig (config_reader M) (config_tags M) fl k = (Ret conf, es, k')"
    "fst (SetDefaultLogger (Log conf) None) = Ret ()" "fst (initTracing (tracing_lib M) conf g) = Ret f"
    "NewHandler (url_check M) (clock M) (call_ctx M) (node_deps M) conf = Some (Ret (h, w))"
    "NewServer (pprof_routes M) conf = Ret srv" "startObservabilityServer (Observability conf) h = Ret obsSrv"
  shows "serverStart M fl k g =
    (case GracefulShutdown (shutdownOptions (drain M) (flush M) srv obsSrv h f) (signalled M es f srv obsSrv w) of
        None \<Rightarrow> None
      | Some (Panic m, p') \<Rightarrow> Some (Panic m, effects p')
      | Some (_, p') \<Rightarrow> Some (Ret (), effects p' @ [Says slog_LevelInfo ''HTTP Server exited'']))"
  using assms by (simp add: serverStart_def signalled_def Let_def)

lemma serverStart_Ret:
  assumes "serverStart M fl k g = Some (Ret (), es)"
  obtains conf srv obsSrv h f w p' where "fst (parseServerStartConfig (config_reader M) (config_tags M) fl k) = Ret conf"
    "fst (initTracing (tracing_lib M) conf g) = Ret f" "NewServer (pprof_routes M) conf = Ret srv"
    "startObservabilityServer (Observability conf) h = Ret obsSrv"
    "GracefulShutdown (shutdownOptions (drain M) (flush M) srv obsSrv h f) (signalled M [] f srv obsSrv w) = Some (Ret (), p')"
    "es = effects p' @ [Says slog_LevelInfo ''HTTP Server exited'']"
proof -
  obtain x es0 k' where x: "parseServerStartConfig (config_reader M) (config_tags M) fl k = (x, es0, k')" by (metis prod.exhaust)
  then obtain conf where conf: "x = Ret conf" using assms by (cases x) (simp_all add: serverStart_def)
  then have es0: "es0 = []" using x by (auto simp: parseServerStartConfig_def Let_def split: prod.splits sum.splits outcome.splits)
  obtain f where f: "fst (SetDefaultLogger (Log conf) None) = Ret ()" "fst (initTracing (tracing_lib M) conf g) = Ret f"
    using assms x conf by (auto simp: serverStart_def split: outcome.splits)
  obtain h w where h: "NewHandler (url_check M) (clock M) (call_ctx M) (node_deps M) conf = Some (Ret (h, w))"
    using assms x conf f by (auto simp: serverStart_def Let_def split: outcome.splits option.splits prod.splits)
  obtain srv where srv: "NewServer (pprof_routes M) conf = Ret srv"
    using assms x conf f h by (auto simp: serverStart_def Let_def split: outcome.splits)
  obtain obsSrv where obs: "startObservabilityServer (Observability conf) h = Ret obsSrv"
    using startObservabilityServer_cases by blast
  let ?down = "GracefulShutdown (shutdownOptions (drain M) (flush M) srv obsSrv h f) (signalled M [] f srv obsSrv w)"
  obtain p' where "?down = Some (Ret (), p')" "es = effects p' @ [Says slog_LevelInfo ''HTTP Server exited'']"
    using assms serverStart_up [OF x [unfolded conf es0] f h srv obs]
    by (cases ?down) (auto simp: graceful_no_error split: outcome.splits)
  with x conf f h srv obs show ?thesis by (intro that) simp_all
qed

lemma serverStart_Err:
  assumes "serverStart M fl k g = Some (Err e, es)"
  shows "milestones es \<in> {[], [LoggerSet], [LoggerSet, TracingInstalled]}"
proof -
  obtain x es0 k' where x: "parseServerStartConfig (config_reader M) (config_tags M) fl k = (x, es0, k')" by (metis prod.exhaust)
  then have es0: "milestones es0 = []"
    by (auto simp: parseServerStartConfig_def Let_def split: prod.splits sum.splits outcome.splits)
  show ?thesis
  proof (cases "\<exists>conf f. x = Ret conf \<and> fst (SetDefaultLogger (Log conf) None) = Ret () \<and> fst (initTracing (tracing_lib M) conf g) = Ret f")
    case False
    then show ?thesis using assms x es0 by (auto simp: serverStart_def split: outcome.splits)
  next
    case True
    then obtain conf f where c: "x = Ret conf" "fst (SetDefaultLogger (Log conf) None) = Ret ()" "fst (initTracing (tracing_lib M) conf g) = Ret f"
      by blast
    have "es = es0 @ [LoggerSet] @ (case f of noopShutdown \<Rightarrow> [] | ProviderShutdown _ \<Rightarrow> [TracingInstalled])"
    proof (cases "\<exists>h w srv. NewHandler (url_check M) (clock M) (call_ctx M) (node_deps M) conf = Some (Ret (h, w)) \<and>
        NewServer (pprof_routes M) conf = Ret srv")
      case True
      then obtain h w srv where h: "NewHandler (url_check M) (clock M) (call_ctx M) (node_deps M) conf = Some (Ret (h, w))"
        "NewServer (pprof_routes M) conf = Ret srv" by blast
      obtain obsSrv where "startObservabilityServer (Observability conf) h = Ret obsSrv"
        using startObservabilityServer_cases by blast
      from serverStart_up [OF x [unfolded c(1)] c(2,3) h this] assms
      have False by (auto split: option.splits outcome.splits prod.splits)
      then show ?thesis ..
    next
      case False
      then show ?thesis using assms x c by (auto simp: serverStart_def Let_def split: option.splits outcome.splits prod.splits)
    qed
    then show ?thesis using es0 by (simp split: ShutdownFunc.split)
  qed
qed

text \<open>The health check and the closing of a handler made by \<open>NewHandler\<close>.\<close>

lemma newProxy_parts:
  assumes "newProxy client intN new cc = Ret (p, l)"
  obtains rc b where "cache_Redis cc = Some rc" "distributedCache p = metricsCache CacheLayerDistributed (redisCache (client rc) intN)"
    "localCacheOf p = metricsCache CacheLayerLocal (localCache b)"
  using assms by (auto simp: newProxy_def newLocalCache_def split: option.splits outcome.splits sum.splits if_splits prod.splits)

lemma err_outcome_Panic [simp]: "err_outcome e \<noteq> Panic m"
  by (cases e) simp_all

lemma newProxy_Ping:
  assumes "newProxy client intN new cc = Ret (p, l)" "cache_Redis cc = Some rc"
  shows "fst (proxy_Ping p s) = (case fst (rdb_Ping (client rc) (fst (fst s))) of
    None \<Rightarrow> Ret () | Some err \<Rightarrow> Err (Wrapped ''distributed cache unreachable'' err))"
  using assms(1)
proof (rule newProxy_parts)
  fix rc' b
  assume p: "cache_Redis cc = Some rc'" "distributedCache p = metricsCache CacheLayerDistributed (redisCache (client rc') intN)"
    "localCacheOf p = metricsCache CacheLayerLocal (localCache b)"
  obtain e r' where "rdb_Ping (client rc) (fst (fst s)) = (e, r')" by (metis prod.exhaust)
  then show ?thesis
    using p assms(2)
    by (cases s; cases e) (auto simp: proxy_Ping_def on_dist_def on_local_def metricsCache_def redisCache_def localCache_def
      redisCache_Ping_def localCache_Ping_def promoted_def)
qed

lemma counted_Close:
  "fst (Close (metricsCache layer (redisCache rdb intN)) s) \<noteq> Panic m"
  "fst (Close (metricsCache layer (localCache b)) s') \<noteq> Panic m"
  by (simp_all add: metricsCache_def redisCache_def localCache_def redisCache_Close_def localCache_Close_def promoted_def
      split_beta)

lemma newProxy_Close:
  assumes "newProxy client intN new cc = Ret (p, l)"
  shows "fst (proxy_Close p s) \<noteq> Panic m"
  using assms
proof (rule newProxy_parts)
  fix rc b
  assume "distributedCache p = metricsCache CacheLayerDistributed (redisCache (client rc) intN)"
    "localCacheOf p = metricsCache CacheLayerLocal (localCache b)"
  then have "fst (Close (distributedCache p) x) \<noteq> Panic m" "fst (Close (localCacheOf p) y) \<noteq> Panic m" for x y
    by (simp_all only: counted_Close not_False_eq_True)
  then show ?thesis
    by (cases s) (auto simp: proxy_Close_def on_dist_def on_local_def split: prod.splits outcome.splits intro: prod.collapse, (metis fst_conv)+)
qed

lemma NewHandler_Ret:
  assumes "NewHandler uc clk cx env conf = Some (Ret (h, w))"
  obtains s where "newService env conf = Some (Ret (s, w))" "svc h = service_methods uc clk cx s"
  using assms by (auto simp: NewHandler_def split: option.splits outcome.splits prod.splits)

lemma handler_ready:
  assumes "NewHandler uc clk cx env conf = Some (Ret (h, w0))"
  shows "\<exists>cc rc. Cache conf = Some cc \<and> cache_Redis cc = Some rc \<and> (\<forall>w. fst (CheckReadiness h w) =
      (case fst (storage_Ping (link_table env) (database w)) of
         Err err \<Rightarrow> Err (Wrapped ''database not ready'' err)
       | Panic m \<Rightarrow> Panic m
       | Ret _ \<Rightarrow> (case fst (rdb_Ping (redis_Client env rc) (fst (redis w))) of
           None \<Rightarrow> Ret ()
         | Some err \<Rightarrow> Err (Wrapped ''cache not ready'' (Wrapped ''distributed cache unreachable'' err)))))"
  using assms
proof (rule NewHandler_Ret)
  fix s
  assume s: "newService env conf = Some (Ret (s, w0))" "svc h = service_methods uc clk cx s"
  show ?thesis
    using s(1)
  proof (rule newService_Ret)
    fix cc rc p l
    assume c: "Cache conf = Some cc" "cache_Redis cc = Some rc"
      and p: "newProxy (redis_Client env) (rand_IntN env) (bigcache_New env) cc = Ret (p, l)"
      and q: "queryPart s = Some \<lparr>q_ttl = redis_TTL rc, q_db = newStorage (link_table env), q_cache = proxy_iface p\<rparr>"
    show ?thesis
      by (simp add: c CheckReadiness_def s(2) service_methods_def CheckHealth_def q query_checkHealth_def pingDeps_def
          newStorage_def proxy_iface_def on_db_def split_beta newProxy_Ping [OF p c(2)] split: outcome.split option.split)
  qed
qed

lemma handler_Close_outcome:
  assumes "NewHandler uc clk cx env conf = Some (Ret (h, w0))" "\<not> janitor_closed w"
  shows "handler_Close h w = None \<longleftrightarrow> \<not> Readonly conf \<and> tddl_Close (seq_table env) (conv_oor env) (sequence w) = None"
    "handler_Close h w = Some (x, w') \<Longrightarrow> x \<noteq> Panic m"
proof -
  obtain s where s: "newService env conf = Some (Ret (s, w0))" "svc h = service_methods uc clk cx s"
    using assms(1) by (rule NewHandler_Ret)
  obtain cc rc p l where "Cache conf = Some cc" "cache_Redis cc = Some rc"
    and p: "newProxy (redis_Client env) (rand_IntN env) (bigcache_New env) cc = Ret (p, l)"
    "queryPart s = Some \<lparr>q_ttl = redis_TTL rc, q_db = newStorage (link_table env), q_cache = proxy_iface p\<rparr>"
    "commandPart s = (if Readonly conf then None else Some \<lparr>cmd_ttl = redis_TTL rc, cmd_db = newStorage (link_table env),
       cmd_cache = proxy_iface p, cmd_seq = tddlSequence_iface (seq_table env) (conv_oor env)\<rparr>)"
    and "stats w0 = []" "\<not> janitor_closed w0"
    using s(1) by (rule newService_Ret)
  note defs = handler_Close_def s(2) service_methods_def service_Close_def p(2,3) query_Close_def newStorage_def proxy_iface_def
    storage_Close_def command_Close_def assms(2) tddlSequence_iface_def Let_def on_db_def
  show "handler_Close h w = None \<longleftrightarrow> \<not> Readonly conf \<and> tddl_Close (seq_table env) (conv_oor env) (sequence w) = None"
    by (auto simp: defs split: option.splits prod.splits outcome.splits)
  have "fst (on_write_cache (proxy_Close p) v) \<noteq> Panic m" "fst (on_query_cache (proxy_Close p) v) \<noteq> Panic m"
    for v :: "('a, 'b, 'c, 'd) node_world"
    using newProxy_Close [OF p(1)] by simp_all
  then have np: "on_write_cache (proxy_Close p) v \<noteq> (Panic m, v')" "on_query_cache (proxy_Close p) v \<noteq> (Panic m, v')"
    for v v' :: "('a, 'b, 'c, 'd) node_world"
    by (metis fst_conv)+
  show "handler_Close h w = Some (x, w') \<Longrightarrow> x \<noteq> Panic m"
    using np by (auto simp: defs split: option.splits prod.splits outcome.splits if_splits)
qed

section \<open>Properties\<close>

text \<open>
  C35. The life of the process: a start that returns without an error has set the logger, installed tracing when it is
  configured, listened on the public address and on the admin address when that server is enabled, waited for a signal, and then,
  in this order, drained the public server, drained the admin server, closed the handler and flushed the spans. A
  start that fails has opened no listener, and does not flush the tracing it may have installed.
\<close>

theorem serverStart_order:
  assumes "serverStart M fl k g = Some (r, es)"
  shows "case r of
      Ret _ \<Rightarrow> \<exists>conf. fst (parseServerStartConfig (config_reader M) (config_tags M) fl k) = Ret conf \<and>
        milestones es = [LoggerSet] @ (if traced conf then [TracingInstalled] else []) @
          [Listening (host_port (Listen conf) (Port conf))] @ map AdminListening (admin_addrs conf) @ [SignalReceived] @
          map Drained (host_port (Listen conf) (Port conf) # admin_addrs conf) @ [HandlerClosed] @
          (if traced conf then [SpansFlushed] else [])
    | Err _ \<Rightarrow> milestones es \<in> {[], [LoggerSet], [LoggerSet, TracingInstalled]}
    | Panic _ \<Rightarrow> True"
proof (cases r)
  case (Ret u)
  then have "serverStart M fl k g = Some (Ret (), es)" using assms by simp
  then show ?thesis
  proof (rule serverStart_Ret)
    fix conf srv obsSrv h f w p'
    assume c: "fst (parseServerStartConfig (config_reader M) (config_tags M) fl k) = Ret conf"
      "fst (initTracing (tracing_lib M) conf g) = Ret f" "NewServer (pprof_routes M) conf = Ret srv"
      "startObservabilityServer (Observability conf) h = Ret obsSrv"
      and down: "GracefulShutdown (shutdownOptions (drain M) (flush M) srv obsSrv h f) (signalled M [] f srv obsSrv w) = Some (Ret (), p')"
      and es: "es = effects p' @ [Says slog_LevelInfo ''HTTP Server exited'']"
    have "milestones es = [LoggerSet] @ (if traced conf then [TracingInstalled] else []) @
        [Listening (srv_Addr srv)] @ map AdminListening (admin_addrs conf) @ [SignalReceived] @
        map Drained (srv_Addr srv # admin_addrs conf) @ [HandlerClosed] @ (if traced conf then [SpansFlushed] else [])"
      unfolding es admin_server_addr [OF c(4)]
      using shutdown_milestones [OF down] initTracing_Ret [OF c(2)] by (simp add: signalled_def split: option.splits ShutdownFunc.splits)
    then show ?thesis using Ret c(1) NewServer_unmatched(3) [OF c(3)] by simp
  qed
next
  case (Err e)
  then show ?thesis using serverStart_Err assms by simp
qed simp

text \<open>The world in which the handler is closed: after the two servers were drained.\<close>

definition drained ::
  "(string \<Rightarrow> 'w \<Rightarrow> goerr option \<times> 'w) \<Rightarrow> http_server \<Rightarrow> 'w Server option \<Rightarrow> 'w \<Rightarrow> 'w" where
  "drained dr srv obsSrv w =
     (let w = snd (dr (srv_Addr srv) w) in (case obsSrv of None \<Rightarrow> w | Some obs \<Rightarrow> snd (dr (Addr obs) w)))"

lemma leaves_HTTPServerShutdown: "proc_world (leaves p (HTTPServerShutdown dr a)) = snd (dr a (proc_world p))"
  by (auto simp: leaves_def HTTPServerShutdown_def split: prod.split option.split)

lemma shutdown_at_handler:
  "\<exists>q. proc_world q = drained dr srv obsSrv (proc_world p) \<and>
    GracefulShutdown (shutdownOptions dr fl srv obsSrv h f) p = GracefulShutdown [HandlerShutdown h, TracingShutdown fl f] q"
proof -
  let ?opts = "HTTPServerShutdown dr (srv_Addr srv) # (case obsSrv of None \<Rightarrow> [] | Some obs \<Rightarrow> [HTTPServerShutdown dr (Addr obs)])"
  have "GracefulShutdown ?opts p = Some (Ret (), foldl leaves p ?opts)"
    by (rule graceful_returns) (auto split: option.split)
  then have "GracefulShutdown (?opts @ [HandlerShutdown h, TracingShutdown fl f]) p =
      GracefulShutdown [HandlerShutdown h, TracingShutdown fl f] (foldl leaves p ?opts)"
    unfolding graceful_append by simp
  moreover have "shutdownOptions dr fl srv obsSrv h f = ?opts @ [HandlerShutdown h, TracingShutdown fl f]"
    by (simp add: shutdownOptions_def Let_def split: option.split)
  moreover have "proc_world (foldl leaves p ?opts) = drained dr srv obsSrv (proc_world p)"
    by (simp add: drained_def leaves_HTTPServerShutdown Let_def split: option.split)
  ultimately show ?thesis by metis
qed

lemma graceful_first:
  assumes "opt q = Some (x, q')" "\<forall>m. x \<noteq> Panic m" "\<forall>opt\<in>set opts. returns opt"
  shows "\<exists>p'. GracefulShutdown (opt # opts) q = Some (Ret (), p')"
  using assms by (cases x) (simp_all add: graceful_returns)

lemma shutdown_handler:
  assumes "NewHandler uc clk cx env conf = Some (Ret (h, w0))" "w = drained dr srv obsSrv (proc_world p)" "\<not> janitor_closed w"
  shows "handler_Close h w = None \<Longrightarrow> GracefulShutdown (shutdownOptions dr fl srv obsSrv h f) p = None"
    "handler_Close h w \<noteq> None \<Longrightarrow> \<exists>p'. GracefulShutdown (shutdownOptions dr fl srv obsSrv h f) p = Some (Ret (), p')"
proof -
  obtain q where q: "proc_world q = w"
    "GracefulShutdown (shutdownOptions dr fl srv obsSrv h f) p = GracefulShutdown [HandlerShutdown h, TracingShutdown fl f] q"
    using shutdown_at_handler assms(2) by metis
  then show "handler_Close h w = None \<Longrightarrow> GracefulShutdown (shutdownOptions dr fl srv obsSrv h f) p = None"
    by (simp add: HandlerShutdown_def)
  assume "handler_Close h w \<noteq> None"
  then obtain x w' where x: "handler_Close h w = Some (x, w')" by auto
  then have "\<exists>q'. HandlerShutdown h q = Some (x, q')"
    using q handler_Close_outcome(2) [OF assms(1,3) x] by (cases x) (simp_all add: HandlerShutdown_def)
  then show "\<exists>p'. GracefulShutdown (shutdownOptions dr fl srv obsSrv h f) p = Some (Ret (), p')"
    using q graceful_first [of "HandlerShutdown h" q x] handler_Close_outcome(2) [OF assms(1,3) x] by auto
qed

text \<open>
  C36. When shutdown ends: once both servers are drained, \<open>GracefulShutdown\<close> returns if the node is read-only or the worker of
  its sequence is offering a number, and never returns, the spans never being flushed, if the worker is out of numbers and between
  two attempts to renew its lease: the five seconds of the context do not bound it.
\<close>

theorem shutdown_termination:
  assumes "NewHandler uc clk cx env conf = Some (Ret (h, w0))" "w = drained dr srv obsSrv (proc_world p)" "\<not> janitor_closed w"
  shows "(Readonly conf \<or> (\<exists>v. pc (fst (sequence w)) = Offering v) \<longrightarrow>
      (\<exists>p'. GracefulShutdown (shutdownOptions dr fl srv obsSrv h f) p = Some (Ret (), p'))) \<and>
    (\<not> Readonly conf \<and> tddl_max (self (fst (sequence w))) \<le> tddl_curr (self (fst (sequence w))) \<and>
       (pc (fst (sequence w)) = Renewing RTop \<or> (\<exists>x. pc (fst (sequence w)) = Renewing (RSleep x))) \<longrightarrow>
      GracefulShutdown (shutdownOptions dr fl srv obsSrv h f) p = None)"
proof -
  obtain c t where ct: "sequence w = (c, t)" by (metis prod.exhaust)
  show ?thesis
    using shutdown_handler [OF assms] handler_Close_outcome(1) [OF assms(1,3)] ct
      Close_offering [of c _ "seq_table env" "conv_oor env" t] Close_spinning [of c "seq_table env" "conv_oor env" t] by fastforce
qed

text \<open>A configuration with redis, the admin server and tracing, and a machine that reads it.\<close>

definition demo_conf :: ServerConfig where
  "demo_conf = example_config\<lparr>Cache := Some example_cache_config, Observability := Some \<lparr>obs_Enable = True, obs_AdminListen = '''',
     obs_AdminPort = 0, obs_Tracing = Some \<lparr>tracing_Enable = True, tracing_OTLPEndpoint = ''otel:4317'', tracing_SamplingRatio = 0\<rparr>\<rparr>\<rparr>"

type_synonym demo_node_world = "(TinyURL list, string \<rightharpoonup> bytes, string \<rightharpoonup> bytes, (uint64 \<times> int) option) node_world"

definition demo_machine ::
  "(ServerConfig option, TinyURL list, string \<rightharpoonup> bytes, string \<rightharpoonup> bytes, (uint64 \<times> int) option, string, string) machine" where
  "demo_machine = \<lparr>config_reader = one_file demo_conf, config_tags = (tag_check (\<lambda>_. True)), node_deps = demo_env, url_check = (\<lambda>_. None),
     clock = (\<lambda>_. 500), call_ctx = Ctx 1 Canceled, pprof_routes = [], tracing_lib = \<lparr>otlptracegrpc_New = Inr, resource_New = Inr\<rparr>,
     drain = (\<lambda>_ w. (None, w)), flush = (\<lambda>_ w. (None, w)), ListenAndServe = (\<lambda>_. None), run = (\<lambda>_ _ w. w)\<rparr>"

declare demo_conf_def [example_eval]

lemma demo_NewHandler:
  "\<exists>h w v. NewHandler uc clk cx demo_env demo_conf = Some (Ret (h, w)) \<and> \<not> janitor_closed w \<and> pc (fst (sequence w)) = Offering v"
proof -
  obtain s w v where s: "newService demo_env demo_conf = Some (Ret (s, w))" "pc (fst (sequence w)) = Offering v"
    using demo_newService [of demo_conf] by (auto simp: demo_conf_def example_config_def)
  moreover have "\<not> janitor_closed w" using s(1) by (rule newService_Ret)
  ultimately show ?thesis by (simp add: NewHandler_def)
qed

lemma demo_parse: "parseServerStartConfig (one_file demo_conf) (tag_check (\<lambda>_. True)) default_flags k = (Ret demo_conf, [], Some demo_conf)"
  by (simp add: parseServerStartConfig_def ReadFile_def one_file_def default_flags_def override_def readonlyFlag_def example_eval)

theorem shutdown_termination_witness:
  "\<exists>h w p'. NewHandler (\<lambda>_. None) (\<lambda>_. 500) (Ctx 1 Canceled) demo_env demo_conf = Some (Ret (h, w)) \<and>
    GracefulShutdown (shutdownOptions (\<lambda>_ w. (None, w)) (\<lambda>_ w. (None, w)) \<lparr>srv_Addr = '':8080'', srv_router = gin_New, srv_timeout = 1,
        ReadHeaderTimeout = 1, ReadTimeout = 1, WriteTimeout = 1\<rparr> None h (noopShutdown :: (nat, nat) ShutdownFunc))
      \<lparr>proc_world = w, effects = []\<rparr> = Some (Ret (), p') \<and>
    GracefulShutdown (shutdownOptions (\<lambda>_ w. (None, w)) (\<lambda>_ w. (None, w)) \<lparr>srv_Addr = '':8080'', srv_router = gin_New, srv_timeout = 1,
        ReadHeaderTimeout = 1, ReadTimeout = 1, WriteTimeout = 1\<rparr> None h (noopShutdown :: (nat, nat) ShutdownFunc))
      \<lparr>proc_world = w\<lparr>sequence := (example_client\<lparr>self := self example_client\<lparr>tddl_curr := 103\<rparr>, pc := Renewing RTop\<rparr>, None)\<rparr>, effects = []\<rparr> = None"
proof -
  let ?dr = "\<lambda>_ (w :: demo_node_world). (None, w)"
  let ?srv = "\<lparr>srv_Addr = '':8080'', srv_router = gin_New, srv_timeout = 1, ReadHeaderTimeout = 1, ReadTimeout = 1, WriteTimeout = 1\<rparr>"
  let ?c = "example_client\<lparr>self := self example_client\<lparr>tddl_curr := 103\<rparr>, pc := Renewing RTop\<rparr>"
  obtain h w v where h: "NewHandler (\<lambda>_. None) (\<lambda>_. 500) (Ctx 1 Canceled) demo_env demo_conf = Some (Ret (h, w))"
      "\<not> janitor_closed w" "pc (fst (sequence w)) = Offering v"
    using demo_NewHandler by blast
  have rw: "\<not> Readonly demo_conf" by (simp add: demo_conf_def example_config_def)
  have d: "drained ?dr ?srv None w' = w'" for w' by (simp add: drained_def)
  show ?thesis
    using h rw shutdown_termination [OF h(1), of w ?dr ?srv None "\<lparr>proc_world = w, effects = []\<rparr>" ?dr "noopShutdown :: (nat, nat) ShutdownFunc"]
      shutdown_termination [OF h(1), of "w\<lparr>sequence := (?c, None)\<rparr>" ?dr ?srv None "\<lparr>proc_world = w\<lparr>sequence := (?c, None)\<rparr>, effects = []\<rparr>"
        ?dr "noopShutdown :: (nat, nat) ShutdownFunc"]
    by (simp add: d example_client_def del: GracefulShutdown.simps)
qed

lemma demo_start: "\<exists>es. serverStart demo_machine default_flags None \<lparr>provider = None, propagators = []\<rparr> = Some (Ret (), es)"
proof -
  let ?M = demo_machine
  obtain h w v where h: "NewHandler (url_check ?M) (clock ?M) (call_ctx ?M) (node_deps ?M) demo_conf = Some (Ret (h, w))"
      "\<not> janitor_closed w" "pc (fst (sequence w)) = Offering v"
    using demo_NewHandler unfolding demo_machine_def by fastforce
  obtain obsSrv where obs: "startObservabilityServer (Observability demo_conf) h = Ret obsSrv" using startObservabilityServer_cases by blast
  obtain srv where srv: "NewServer (pprof_routes ?M) demo_conf = Ret srv"
    by (simp add: NewServer_def demo_machine_def demo_conf_def example_config_def example_cache_config_def Let_def)
  obtain f where f: "fst (initTracing (tracing_lib ?M) demo_conf \<lparr>provider = None, propagators = []\<rparr>) = Ret f"
    by (simp add: initTracing_def otel_Init_def demo_machine_def demo_conf_def Let_def)
  have log: "fst (SetDefaultLogger (Log demo_conf) None) = Ret ()"
    by (simp add: SetDefaultLogger_def NewLogger_def getLogHandler_def demo_conf_def example_config_def example_log_config_def
        EncoderTypeText_def EncoderTypeJSON_def Let_def)
  let ?p = "signalled ?M [] f srv obsSrv w"
  have w: "drained (drain ?M) srv obsSrv (proc_world ?p) = w"
    by (simp add: drained_def signalled_def demo_machine_def split: option.split)
  then have "handler_Close h w \<noteq> None"
    using handler_Close_outcome(1) [OF h(1,2)] Close_offering [of "fst (sequence w)" v _ _ "snd (sequence w)"] h(3)
    by (metis option.distinct(1) prod.collapse)
  with shutdown_handler(2) [OF h(1) w [symmetric] h(2)]
  obtain p' where "GracefulShutdown (shutdownOptions (drain ?M) (flush ?M) srv obsSrv h f) ?p = Some (Ret (), p')" by blast
  moreover have "parseServerStartConfig (config_reader ?M) (config_tags ?M) default_flags None = (Ret demo_conf, [], Some demo_conf)"
    using demo_parse by (simp add: demo_machine_def)
  ultimately show ?thesis using serverStart_up [OF _ log f h(1) srv obs] by simp
qed

theorem serverStart_order_witness:
  "\<exists>es. serverStart demo_machine default_flags None \<lparr>provider = None, propagators = []\<rparr> = Some (Ret (), es) \<and>
    milestones es = [LoggerSet, TracingInstalled, Listening ''0.0.0.0:8080'', AdminListening ''0.0.0.0:9090'', SignalReceived,
      Drained ''0.0.0.0:8080'', Drained ''0.0.0.0:9090'', HandlerClosed, SpansFlushed]"
proof -
  obtain es where es: "serverStart demo_machine default_flags None \<lparr>provider = None, propagators = []\<rparr> = Some (Ret (), es)"
    using demo_start by blast
  have "admin_addrs demo_conf = [''0.0.0.0:9090'']" "host_port (Listen demo_conf) (Port demo_conf) = ''0.0.0.0:8080''" "traced demo_conf"
    by (simp_all add: admin_addrs_def traced_def demo_conf_def example_config_def WithDefaults_fields host_port_def Itoa_def itoa_nat.simps char_of_def bit_0)
  then show ?thesis
    using es serverStart_order [OF es] demo_parse [of None] by (auto simp: demo_machine_def)
qed

text \<open>
  C37. The readiness probe of a running node: with the admin server enabled, \<open>/readyz\<close> answers 200 exactly when the database
  handle can be had and pinged and redis answers a ping, else 503, the local cache playing no part; \<open>/healthz\<close> answers 200 whatever
  the dependencies do. Without an enabled observability section there is no admin server.
\<close>

theorem readiness_storage:
  assumes "NewHandler uc clk cx env conf = Some (Ret (h, w0))"
  shows "\<exists>cc rc obsSrv. Cache conf = Some cc \<and> cache_Redis cc = Some rc \<and> startObservabilityServer (Observability conf) h = Ret obsSrv \<and>
    (obsSrv = None \<longleftrightarrow> admin_addrs conf = []) \<and>
    (\<forall>obs w. obsSrv = Some obs \<longrightarrow>
      (\<exists>r w'. admin_serve errStr [''storage''] metrics rctx now obs ''/readyz'' w = (Ret r, w') \<and>
        admin_status r =
          (if gorm_DB (link_table env) (database w) = None \<and> fst (gorm_PingContext (link_table env) (database w)) = None \<and>
              fst (rdb_Ping (redis_Client env rc) (fst (redis w))) = None then 200 else 503)) \<and>
      (\<exists>r. admin_serve errStr [''storage''] metrics rctx now obs ''/healthz'' w = (Ret r, w) \<and> admin_status r = 200))"
proof -
  obtain cc rc where c: "Cache conf = Some cc" "cache_Redis cc = Some rc"
    and ready: "\<And>w. fst (CheckReadiness h w) =
      (case fst (storage_Ping (link_table env) (database w)) of
         Err err \<Rightarrow> Err (Wrapped ''database not ready'' err)
       | Panic m \<Rightarrow> Panic m
       | Ret _ \<Rightarrow> (case fst (rdb_Ping (redis_Client env rc) (fst (redis w))) of
           None \<Rightarrow> Ret ()
         | Some err \<Rightarrow> Err (Wrapped ''cache not ready'' (Wrapped ''distributed cache unreachable'' err))))"
    using handler_ready [OF assms] by blast
  obtain obsSrv where o: "startObservabilityServer (Observability conf) h = Ret obsSrv"
    and srv: "\<And>obs. obsSrv = Some obs \<Longrightarrow> checks obs = [''storage'' \<mapsto> (\<lambda>_. CheckReadiness h)] \<and>
      mux_match (mux obs) ''/healthz'' = Serves Liveness \<and> mux_match (mux obs) ''/readyz'' = Serves Readiness"
    using startObservabilityServer_cases [of "Observability conf" h] by blast
  have "\<exists>r w'. admin_serve errStr [''storage''] metrics rctx now obs ''/readyz'' w = (Ret r, w') \<and>
      admin_status r =
        (if gorm_DB (link_table env) (database w) = None \<and> fst (gorm_PingContext (link_table env) (database w)) = None \<and>
            fst (rdb_Ping (redis_Client env rc) (fst (redis w))) = None then 200 else 503)" if obs: "obsSrv = Some obs" for obs w
  proof -
    obtain x w' where x: "CheckReadiness h w = (x, w')" by (metis prod.exhaust)
    obtain e d' where e: "gorm_PingContext (link_table env) (database w) = (e, d')" by (metis prod.exhaust)
    have "x = Ret () \<and> gorm_DB (link_table env) (database w) = None \<and> e = None \<and>
        fst (rdb_Ping (redis_Client env rc) (fst (redis w))) = None \<or>
      (\<exists>err. x = Err err) \<and> \<not> (gorm_DB (link_table env) (database w) = None \<and> e = None \<and>
        fst (rdb_Ping (redis_Client env rc) (fst (redis w))) = None)"
      using ready [of w] x e by (cases e) (auto simp: storage_Ping_def split: option.splits)
    then show ?thesis
      using srv [OF obs] x e
      by (auto simp: admin_serve_def handleReadiness_def writeJSON_def StatusOK_def StatusServiceUnavailable_def Let_def)
  qed
  moreover have "obsSrv = None \<longleftrightarrow> admin_addrs conf = []"
    using admin_server_addr [OF o] by (auto split: option.split)
  ultimately show ?thesis using c o srv admin_live [of _ errStr "[''storage'']" metrics rctx now] by fastforce
qed

text \<open>
  What the command line starts: when the file describes a configuration and the start accepts it, the configuration is that of the
  file with read-only mode and debug mode switched on, never off, by their flags, and \<open>Validate\<close> has accepted it.
\<close>

lemma start_config:
  assumes "koanf_reader K" "Load_file K (flag_file fl) k = (None, k1)" "UnmarshalWithConf K k1 = Inr c"
    and "parseServerStartConfig K Struct fl k = (Ret conf, es, k')"
  shows "conf = c\<lparr>Readonly := Readonly c \<or> flag_readonly fl, Debug := Debug c \<or> flag_debug fl\<rparr> \<and> Validate Struct conf = Ret ()"
proof -
  let ?ro = "if flag_readonly fl then Map.empty(readonlyFlag \<mapsto> True) else Map.empty"
  let ?mp = "if flag_debug fl then ?ro(debugFlag \<mapsto> True) else ?ro"
  have read: "ReadFile K (flag_file fl) ?mp k = (Inr conf, k')" and ok: "Validate Struct conf = Ret ()"
    using assms(4) unfolding parseServerStartConfig_def Let_def by (auto split: prod.splits sum.splits outcome.splits)
  have "dom ?mp \<subseteq> {''readonly'', ''debug''}" by (simp add: readonlyFlag_def debugFlag_def)
  from koanf_reader.ReadFile_Inr [OF assms(1) read assms(2,3) this] show ?thesis
    using ok by (simp add: override_def readonlyFlag_def debugFlag_def)
qed

lemma start_config_witness:
  "parseServerStartConfig (one_file demo_conf) (tag_check (\<lambda>_. True)) (default_flags\<lparr>flag_readonly := True\<rparr>) None =
     (Ret (demo_conf\<lparr>Readonly := True\<rparr>), [], Some (demo_conf\<lparr>Readonly := True\<rparr>)) \<and>
   Validate (tag_check (\<lambda>_. True)) (demo_conf\<lparr>Readonly := True\<rparr>) = Ret ()"
proof -
  have p: "parseServerStartConfig (one_file demo_conf) (tag_check (\<lambda>_. True)) (default_flags\<lparr>flag_readonly := True\<rparr>) None =
      (Ret (demo_conf\<lparr>Readonly := True\<rparr>), [], Some (demo_conf\<lparr>Readonly := True\<rparr>))"
    by (simp add: parseServerStartConfig_def ReadFile_def one_file_def default_flags_def override_def readonlyFlag_def example_eval)
  have "Load_file (one_file demo_conf) (flag_file (default_flags\<lparr>flag_readonly := True\<rparr>)) None = (None, Some demo_conf)"
    "UnmarshalWithConf (one_file demo_conf) (Some demo_conf) = Inr demo_conf"
    by (simp_all add: one_file_def default_flags_def)
  from start_config [OF one_file.koanf_reader_axioms this p] p show ?thesis by simp
qed

theorem readiness_storage_witness:
  "\<exists>h w obs r w'. NewHandler (\<lambda>_. None) (\<lambda>_. 500) (Ctx 1 Canceled) demo_env demo_conf = Some (Ret (h, w)) \<and>
    startObservabilityServer (Observability demo_conf) h = Ret (Some obs) \<and>
    admin_serve (\<lambda>_. '''') [''storage''] (empty_exposition []) None 0 obs ''/readyz'' w = (Ret r, w') \<and> admin_status r = 200"
proof -
  obtain h w where h: "NewHandler (\<lambda>_. None) (\<lambda>_. 500) (Ctx 1 Canceled) demo_env demo_conf = Some (Ret (h, w))"
    using demo_NewHandler by blast
  have "admin_addrs demo_conf \<noteq> []" by (simp add: admin_addrs_def demo_conf_def)
  moreover have "gorm_DB (link_table demo_env) d = None" "fst (gorm_PingContext (link_table demo_env) d) = None"
    "fst (rdb_Ping (redis_Client demo_env rc) r) = None" for d rc r
    by (simp_all add: demo_env_def list_db_def map_redis_def)
  ultimately show ?thesis using h readiness_storage [OF h, of "\<lambda>_. ''''" "empty_exposition []" None 0] by fastforce
qed

lemma newService_no_panic:
  assumes "Cache conf = Some cc" "cache_Redis cc \<noteq> None" "cache_LocalCache cc \<noteq> None" "TDDL conf \<noteq> None"
  shows "newService env conf \<noteq> Some (Panic m)"
proof -
  have "newProxy (redis_Client env) (rand_IntN env) (bigcache_New env) cc \<noteq> Panic m'" for m'
    using assms(2,3) by (auto simp: newProxy_def newLocalCache_def split: option.splits outcome.splits sum.splits)
  moreover have "tddl_New (seq_table env) (conv_oor env) (uuid_NewString env) tc t \<noteq> Some (Panic m', t')" for tc t m' t'
    by (auto simp: tddl_New_def newSequence_def split: prod.splits outcome.splits option.splits sum.splits)
  ultimately show ?thesis
    using assms by (auto simp: newService_def Let_def split: sum.splits prod.splits option.splits outcome.splits)
qed

lemma NewServer_builds:
  "Cache conf = Some cc \<Longrightarrow> cache_Redis cc \<noteq> None \<Longrightarrow> \<exists>srv. NewServer pprof conf = Ret srv"
  by (auto simp: NewServer_def Let_def)

text \<open>
  C34. An accepted configuration with a redis section starts: with the tag \<open>required\<close> on its pointers, no step of the
  start reads through a nil pointer or panics otherwise. The logger can be set, the service, once its database answers, is built or its error
  returned, and both servers are built; without the redis section, which \<open>Validate\<close> does not ask for, \<open>newService\<close> panics.
\<close>

theorem accepted_config_starts:
  assumes "required_pointers Struct" "Validate Struct conf = Ret ()"
  shows "\<exists>cc. Cache conf = Some cc \<and> (\<exists>d. SetDefaultLogger (Log conf) d0 = (Ret (), d)) \<and> fst (initTracing lib conf g) \<noteq> Panic m \<and>
    (\<exists>obs. startObservabilityServer (Observability conf) h = Ret obs) \<and>
    (if cache_Redis cc \<noteq> None then NewHandler uc clk cx env conf \<noteq> Some (Panic m) \<and> (\<exists>srv. NewServer pprof conf = Ret srv)
     else (\<exists>x. getDB env conf = Inr x) \<and> (\<forall>lc. cache_LocalCache cc = Some lc \<longrightarrow> (\<exists>x. newLocalCache (bigcache_New env) lc = Ret x)) \<longrightarrow>
       (\<exists>m. NewHandler uc clk cx env conf = Some (Panic m)))"
proof -
  obtain cc where cc: "Cache conf = Some cc" "cache_LocalCache cc \<noteq> None" "TDDL conf \<noteq> None"
    using assms unfolding required_pointers_def Validate_def by (force split: option.splits)
  have log: "\<exists>d. SetDefaultLogger (Log conf) d0 = (Ret (), d)"
    using assms(2) by (auto simp: Validate_def SetDefaultLogger_def NewLogger_def getLogHandler_def EncoderTypeText_def EncoderTypeJSON_def
        Let_def split: option.splits if_splits)
  have tracing: "fst (initTracing lib conf g) \<noteq> Panic m" unfolding initTracing_def Let_def by (rule otel_Init_no_panic)
  have up: "NewHandler uc clk cx env conf \<noteq> Some (Panic m) \<and> (\<exists>srv. NewServer pprof conf = Ret srv)" if r: "cache_Redis cc \<noteq> None"
    using newService_no_panic [OF cc(1) r cc(2,3), of env m] NewServer_builds [OF cc(1) r]
    by (auto simp: NewHandler_def split: option.splits outcome.splits)
  have down: "\<exists>m. NewHandler uc clk cx env conf = Some (Panic m)"
    if "cache_Redis cc = None" "getDB env conf = Inr x" "\<forall>lc. cache_LocalCache cc = Some lc \<longrightarrow> (\<exists>x. newLocalCache (bigcache_New env) lc = Ret x)" for x
    using that cc by (cases x) (auto simp: NewHandler_def newService_def newProxy_def Let_def)
  show ?thesis
    using cc(1) log tracing up down startObservabilityServer_cases [of "Observability conf" h] by auto
qed

theorem accepted_config_starts_witness:
  "Validate (tag_check (\<lambda>_. True)) demo_conf = Ret () \<and> (\<exists>srv. NewServer [] demo_conf = Ret srv) \<and>
   Validate (tag_check (\<lambda>_. True)) example_config = Ret () \<and>
   (\<exists>m. NewHandler (\<lambda>_. None) (\<lambda>_. 500) (Ctx 1 Canceled) demo_env example_config = Some (Panic m))"
proof -
  have ok: "Validate (tag_check (\<lambda>_. True)) demo_conf = Ret ()" "Validate (tag_check (\<lambda>_. True)) example_config = Ret ()"
    by (simp_all add: example_eval)
  moreover have "\<exists>srv. NewServer [] demo_conf = Ret srv"
    using accepted_config_starts [OF tag_check_required [of "\<lambda>_. True"] ok(1), of None "\<lparr>otlptracegrpc_New = Inr, resource_New = Inr\<rparr>" "\<lparr>provider = None, propagators = []\<rparr>"
        "''''" "demo_handler" "\<lambda>_. None" "\<lambda>_. 500" "Ctx 1 Canceled" demo_env "[]"]
    by (auto simp: demo_conf_def example_cache_config_def)
  moreover have "\<exists>m. NewHandler (\<lambda>_. None) (\<lambda>_. 500) (Ctx 1 Canceled) demo_env example_config = Some (Panic m)"
    using accepted_config_starts [OF tag_check_required [of "\<lambda>_. True"] ok(2), of None "\<lparr>otlptracegrpc_New = Inr, resource_New = Inr\<rparr>" "\<lparr>provider = None, propagators = []\<rparr>"
        "''''" "demo_handler" "\<lambda>_. None" "\<lambda>_. 500" "Ctx 1 Canceled" demo_env "[]"]
    by (auto simp: example_config_def example_local_config_def getDB_def demo_env_def list_db_def newLocalCache_def)
  ultimately show ?thesis by blast
qed

text \<open>
  The health command against a server made by \<open>NewServer\<close>: it succeeds, and the process exits with code 0, whatever the
  state of the world, since the health middleware answers before any limiter and asks no dependency.
\<close>

lemma health_command:
  assumes "NewServer pprof c = Ret srv" "url_path req = HealthCheckPath"
    and "\<forall>rs r. match_route rs req = Some r \<longrightarrow> r \<in> set rs \<and> route_endpoint r \<noteq> Pprof"
  shows "\<exists>r s'. route_request match_route allow took handle (srv_router srv) req s = (Wrote r, s') \<and> world_of s' = world_of s \<and>
    fst (serverHealth (\<lambda>_. Inr (status_of r, Status)) fl) = Ret () \<and>
    map_of (cli_New M (\<lambda>_. Inr (status_of r, Status)) k g) ''health'' = Some (\<lambda>fl. Some (Ret (), [Says slog_LevelInfo ''health check success'']))"
  using health_answer [OF assms(1,2), of match_route allow took handle s] assms(3) by (fastforce simp: serverHealth_def cli_New_def StatusOK_def)

lemma exit_codes: "main_exit x = 0 \<longleftrightarrow> x = Ret ()" "main_exit (Err err) = 1"
  by (auto simp: main_exit_def ExitErrHandler_def exitCodeOK_def exitCodeError_def split: outcome.split)

text \<open>A configuration may be accepted although its admin port is its public port: both servers are then given one address.\<close>

lemma admin_port_clash:
  "\<exists>conf. Validate (tag_check (\<lambda>_. True)) conf = Ret () \<and> admin_addrs conf = [host_port (Listen conf) (Port conf)]"
  by (rule exI [of _ "demo_conf\<lparr>Port := 9090\<rparr>"])
    (simp add: example_eval admin_addrs_def WithDefaults_fields)

end
