(* ===== verification/Spec2Isabelle.thy ===== *)
theory Spec2Isabelle
  imports Base58 Cache_Value Config Metrics Logging Cache Storage Rate_Limiter Tddl Service Cluster Requests Interleaving Handler Http_Server
    Observability Clients Shutdown Cli
begin

text \<open>
  A verification development of turl, a URL shortener written in Go (files under \<open>src/\<close>).

  \<^bold>\<open>The program.\<close> A node answers HTTP requests (\<open>app/turl/http.go\<close>, \<open>handler.go\<close>, \<open>pkg/middleware\<close>). A request to
  shorten a URL draws a number from the sequence (\<open>pkg/tddl\<close>), inserts a row into the table of links
  (\<open>pkg/storage\<close>), writes the link into the caches (\<open>pkg/cache\<close>) and answers the number in Base58
  (\<open>pkg/mapping\<close>). A redirect decodes the code, asks the local cache, then redis, then the table, and refuses a
  link whose expiry has passed. A janitor reaps expired rows. Writes are limited by a token bucket in redis
  (\<open>pkg/workqueue\<close>). A node has a command service and a query service (\<open>app/turl/service.go\<close>), which share the
  database and the redis server and have a local cache each. Several nodes run on one database, one redis server and one row of
  the sequence. The command line (\<open>cli\<close>) reads the configuration (\<open>configs\<close>), sets up logging and tracing (\<open>pkg/log\<close>,
  \<open>pkg/otel\<close>), starts the public server and an admin server for health and metrics (\<open>pkg/observability\<close>, \<open>pkg/metrics\<close>), and takes
  everything down in order when a signal comes (\<open>pkg/shutdown\<close>).

  \<^bold>\<open>The theories\<close>, in the order of their imports:

  \<^item> \<open>Turl_Prelude\<close>: Go's integers with their wrap, times and durations as counts of nanoseconds, the errors of
    the packages and libraries with \<open>errors.Is\<close>, the outcome of a call (a value, an error, a panic), decimal numerals,
    the contract of a codec, and runs of labelled steps (\<open>labelled_run\<close>) with the lemma that a simulation of steps is one of runs.
  \<^item> \<open>Base58\<close> (\<open>pkg/mapping/base58.go\<close>): the tables as \<open>init\<close> fills them, the loops of \<open>Base58Encode\<close>,
    \<open>Base58Decode\<close>, \<open>reverse\<close> and \<open>pow\<close>. Lemmas: each loop computes a reference definition (digits to base 58), and which error is
    returned when. Properties: the round trip for every \<open>uint64\<close>, which codes are aliases.
  \<^item> \<open>Cache_Value\<close> (\<open>encodeCacheValue\<close> to \<open>isExpired\<close> of \<open>service.go\<close>): the eight bytes of expiry before a cached URL.
    Properties: the round trip and the bounds of \<open>cacheTTL\<close>.
  \<^item> \<open>Config\<close> (\<open>configs\<close>): the records with the verdict of their \<open>validate\<close> tags, \<open>Validate\<close>, \<open>WithDefaults\<close>, the table of log
    levels, \<open>ReadFile\<close>. The locale \<open>koanf_reader\<close> is what \<open>ReadFile\<close> relies on. Lemma: what is accepted.
  \<^item> \<open>Metrics\<close> (\<open>pkg/metrics\<close>): the collectors and their registration, the reports. What Prometheus does with a report is library
    code, of which the theory has a model; a lemma says that it shows the history of the reports, whatever their order.
  \<^item> \<open>Logging\<close> (\<open>pkg/log\<close>): the trace decorator, the writers, the logger of a configuration. Properties: which record reaches which
    writer, stamped with its span.
  \<^item> \<open>Cache\<close> (\<open>pkg/cache\<close>): the interface as a record of methods, the redis and the local layer, the counting
    decorator and the proxy. The locale \<open>cache_layer\<close> is the contract of a cache (what it may answer after which
    calls); \<open>redis_server\<close> and \<open>local_store\<close> are what go-redis and bigcache promise. Each layer, the decorator
    and the proxy over two layers are shown to keep the contract. Properties: nothing is answered after a deletion; the counters of the two layers account for
    every lookup.
  \<^item> \<open>Storage\<close> (\<open>pkg/storage\<close>): the methods as the gorm statements they send. The locale \<open>tiny_urls_table\<close> is what
    gorm on MySQL promises (unique indexes, soft deletes, limits, calls that fail with or without effect);
    \<open>link_store\<close> is what the package promises, and follows from it.
  \<^item> \<open>Rate_Limiter\<close> (\<open>pkg/workqueue\<close>): the five limiters, the arithmetic of the backoff in \<open>float64\<close>, the Lua script.
    The locale \<open>failure_limiter\<close> is the contract of the two limiters that count failures; \<open>token_store\<close> is redis as
    the script uses it.
  \<^item> \<open>Tddl\<close> (\<open>pkg/tddl\<close>): a client is its fields and the position of its worker. The calls on the database are
    separate steps (\<open>renew_step\<close>, \<open>internal_step\<close>), and \<open>sys_step\<close> interleaves any number of clients. The locale
    \<open>sequence_table\<close> is the compare-and-swap of the optimistic lock. Lemmas: the leases of the clients and the
    numbers handed out stay disjoint.
  \<^item> \<open>Service\<close> (\<open>app/turl/service.go\<close>): the state of a node is a \<open>world\<close>. The locale \<open>turl_node\<close> is what the two
    services rely on; \<open>newService\<close> is shown to build parts that satisfy it. Lemmas: every call keeps the invariant that
    all rows and all cached values stem from links that were asked for.
  \<^item> \<open>Cluster\<close>: the composition of \<open>Service\<close> and \<open>Tddl\<close> for several nodes and read-only nodes (\<open>cluster_step\<close>), with the locale
    \<open>turl_cluster\<close>, in runs of whole calls. Lemmas: the numbers of the links are those handed out, each with one URL; a code leads to one URL
    for ever and on every node; a link just made or found again resolves on every node. The steps have labels (\<open>cluster_act\<close>) that name their calls on the
    table, and each is the step of an abstract map of links with the same label (\<open>link_step\<close>). Property: the services that \<open>newService\<close>
    builds form such a cluster.
  \<^item> \<open>Requests\<close>: \<open>Create\<close>, \<open>Delete\<close> and \<open>Retrieve\<close> cut at their calls on the cache, the table and the sequence. A call is its
    arguments and its position (\<open>create_pc\<close>, \<open>delete_pc\<close>, \<open>retrieve_pc\<close>), and \<open>busy_step\<close> interleaves any number of calls with the steps of the
    cluster. Lemmas: what is known at each position, which numbers are drawn and not yet used, which rows stay.
  \<^item> \<open>Interleaving\<close>: the properties of interleaved calls. A code leads to one URL for ever, two calls that shorten a URL agree on its code, the table
    refines the map of links label by label (\<open>busy_act\<close>), a link is lost only by its own deletion or its expiry, a fill of the cache may race a deletion. Lemmas: a call that
    is not interrupted is the function of \<open>Service\<close>, and each call is done after four steps.
  \<^item> \<open>Handler\<close> (\<open>app/turl/handler.go\<close>): the handlers over the interface of the service, and \<open>NewHandler\<close>.
  \<^item> \<open>Http_Server\<close> (\<open>app/turl/http.go\<close>, \<open>pkg/middleware/gin.go\<close>): the engine with its groups and routes, the chain of
    middlewares, the timeout, and the limiters of \<open>Rate_Limiter\<close> behind the middleware. Properties: where the limits
    apply, who gets to write, and that each request is answered, counted and logged once.
  \<^item> \<open>Observability\<close> (\<open>pkg/observability/server.go\<close>): the admin server with its checks and routes. Property: the readiness probe, with one
    deadline for all its checks.
  \<^item> \<open>Clients\<close> (\<open>pkg/db\<close>, \<open>pkg/validate\<close>, \<open>pkg/otel\<close>): the construction of the library clients and of the tracer provider.
  \<^item> \<open>Shutdown\<close> (\<open>pkg/shutdown\<close>): the options and \<open>GracefulShutdown\<close> on the state of the process, which records what it did.
  \<^item> \<open>Cli\<close> (\<open>cli\<close>, \<open>cmd/turl\<close>): flags, configuration, \<open>serverStart\<close>, \<open>serverHealth\<close> and the exit codes. Properties, which span the
    components: an accepted configuration starts, the order of start and shutdown, when shutdown ends, what readiness means.
  \<^item> This theory: a property of the server, the handlers and the service together, that what was shortened on one node can be
    followed on every node, and a cluster whose codes have six characters, on which it is tried.

  \<^bold>\<open>Code that is not in the repository\<close> (gorm and MySQL, go-redis, bigcache, the validator, koanf, \<open>rand.IntN\<close>,
  \<open>x/time/rate\<close>, gin's binding and matching, slog's rendering, OpenTelemetry, uuid) is a parameter, a record of the calls the code makes
  over a state of any type. What the code relies on is a locale or a named hypothesis, with an instance (a list of rows, maps, one row,
  one file) on which the witnesses run. URLs are compared as the column compares them, by the collation \<open>coll\<close>, any equivalence; under MySQL's default one, which
  ignores case, the properties that speak of a URL speak of it up to case. A reading of the clock is an argument; several readings in one call are \<open>clk 0\<close>, \<open>clk 1\<close>
  and so on. The work of a running process between its start and the signal is the parameter \<open>run\<close> of \<open>machine\<close>, and draining a server
  and flushing spans are \<open>drain\<close> and \<open>flush\<close>.

  \<^bold>\<open>Loops, fuel and time.\<close> Loops are recursive functions with termination proofs. The loops that need not end are
  \<open>renew\<close> and the wait of \<open>Close\<close>, both \<open>partial_function (option)\<close> with \<open>None\<close> for a call that never returns: it is
  proved when they return and when they do not, up to the shutdown of the process. A context is the number of steps of the worker until it
  is done (\<open>Next\<close>), so a deadline is its fuel; no theorem depends on its size. The numbers of failures and of waiting
  goroutines are natural numbers. Lua numbers, latencies and ratios are rationals, without the rounding of doubles.

  \<^bold>\<open>Not modelled\<close>: JSON and the binding of requests, whose outcome is an argument of the handlers; the rendering of log lines, of metrics and
  of the table of the version command; gin's modes and its redirects for trailing slashes; the pages of swagger and pprof; the generated swagger
  code and the helpers of the tests. A call on a cache proxy is one step, although it visits the local cache and redis one after the other, and
  so is a call of \<open>GetByLong\<close>, of a health check and a tick of the janitor. Gin's \<open>Recovery\<close> answers 500 to every panic; its branch
  for a broken connection, which answers nothing, is left out. \<open>Close\<close> of a sequence client is called once and while no caller of \<open>Next\<close> waits; a second call would
  panic on the closed channel. The deadline of a readiness probe reaches the checks, and the pings behind \<open>CheckReadiness\<close> answer as the database and redis, which
  are parameters, say. \<open>Next\<close> is one step in which only the client's own
  worker moves; the steps of all workers interleave with it.

  \<^bold>\<open>Plan\<close> for extensions: the two layers of the cache proxy as steps of their own; the life of a process as a run of a cluster node
  instead of the parameter \<open>run\<close>.
\<close>

section \<open>From one request to the next\<close>

text \<open>
  C7. A URL that was shortened can be followed, everywhere in the cluster: take any moment of a run of a cluster with interleaved calls, from a table whose numbers are
  below the sequence, and let a POST on the management route of a server, handled by a node of the cluster, be answered with status 200, whether the link
  is new or was there before, cached or not. Let the number of the code be at least \<open>58 ^ 5\<close>. Then a GET of the code that follows, on that node or on
  any other node or read-only node, behind the same middlewares, before the expiry (as it was asked for and as the column keeps it), is
  answered with a redirect (302) to a URL that is the posted one up to the collation of the column, unless the lookup in the cache or the table reports a failure. Other
  than for a too short lifetime, the caches and the table do not panic.
\<close>

theorem shorten_then_follow:
  assumes server: "NewServer pprof cfg = Ret srv"
    and routes: "rp \<in> set (routes (srv_router srv))" "route_endpoint rp = CreateLink" "rg \<in> set (routes (srv_router srv))"
      "route_endpoint rg = RedirectTo"
    and cluster: "turl_cluster cs qs rs rows coll colt rh lh db cell oor" and start: "fresh_cluster rows coll rh cell row C0"
    and run: "(busy_step colt lh db oor row cs qs rs)\<^sup>*\<^sup>* (table_links (rows (shared_database C0)), C0, []) (H, C, A)"
    and node: "i < length (nodes C)" "commandPart s = Some (cs i)" "fst (world_of s0) = node_world C i"
    and post: "serve (limiter_Take NewLimiter rdb resc now) took preq (route_path rp) (route_chain rp)
        (on_node (handler_Create errStr \<lparr>domain = host, svc = service_methods http_url clk ctx s\<rparr> (req, None))) s0 =
      (Wrote (JSON 200 body), s1)" "expiry_ok (link_expiry (clk 0) (int64 (req_TTLSeconds req * Second)))"
    and code: "m_ShortURL (resp_TinyURL body) = host @ ''/'' @ short" "Base58Decode short = Ret n" "58 ^ 5 \<le> unat n"
    and reader: "serves qs rs (put_world i (fst (world_of s1)) C) q w" "queryPart s' = Some q" "fst (world_of s2) = w"
    and early: "\<And>e. same_expiry colt (m_ExpiresAt (resp_TinyURL body)) e \<Longrightarrow>
        \<not> isExpired e (clk' 0) \<and> \<not> isExpired e (clk' 1) \<and> 10 \<le> cacheTTL (q_ttl q) e (clk' 2)"
    and calm: "\<And>k s p. fst (Get (q_cache q) k s) \<noteq> Panic p" "\<And>i d p. fst (GetByShortID (q_db q) i d) \<noteq> Panic p"
      "\<And>k v t s p. fst (Set (q_cache q) k v t s) = Panic p \<Longrightarrow> t < 10"
    and get: "url_path greq \<noteq> HealthCheckPath"
  shows "\<exists>r s3. serve (limiter_Take NewLimiter rdb resc now') took' greq (route_path rg) (route_chain rg)
        (on_node (handler_Redirect errStr \<lparr>domain = host, svc = service_methods http_url clk' ctx' s'\<rparr> short)) s2 = (Wrote r, s3) \<and>
      ((\<exists>url. r = Redirected 302 url \<and> coll url (req_LongURL req)) \<or>
       (\<exists>err. fst (Get (q_cache q) short (redis w, query_local w)) = Err err \<and> \<not> errors_Is err ErrCacheMiss) \<or>
       (\<exists>err. fst (GetByShortID (q_db q) n (database w)) = Err err \<and> \<not> errors_Is err ErrRecordNotFound))"
proof -
  note fresh = turl_cluster.fresh_busy [OF cluster start]
  have inv: "turl_cluster.busy_inv rows coll colt rh lh cell row (H, C, A)" using turl_cluster.busy_run_inv [OF cluster run fresh] by simp
  then have ci: "turl_cluster.cluster_inv rows coll rh lh H C" unfolding turl_cluster.busy_inv_def [OF cluster] by simp
  have uniq: "unique_indexes coll (rows (shared_database C))"
    using turl_cluster.busy_run_unique [OF cluster run fresh] start by (simp add: fresh_cluster_def)
  have chains: "route_chain rp = frame_chain @ [read_limit cfg, write_limit cfg]" "route_chain rg = frame_chain"
    using NewServer_routes [OF server routes(1)] NewServer_routes [OF server routes(3)] routes(2,4) by auto
  have "handler_Create errStr \<lparr>domain = host, svc = service_methods http_url clk ctx s\<rparr> (req, None) (node_world C i) =
      (Wrote (JSON 200 body), fst (world_of s1))"
    using serve_frame_node [OF _ post(1) [unfolded chains]] node(3) by simp
  then obtain m where m: "Create http_url (cs i) clk ctx (req_LongURL req) (int64 (req_TTLSeconds req * Second)) (node_world C i) =
        (Ret m, fst (world_of s1))"
      "resp_TinyURL body = m\<lparr>m_ShortURL := host @ ''/'' @ m_ShortURL m\<rparr>"
    using node(2) by (auto simp: handler_Create_def service_methods_def Let_def reply_def status_defs split: prod.splits outcome.splits)
  then have short: "m_ShortURL m = short" "m_ExpiresAt (resp_TinyURL body) = m_ExpiresAt m" using code(1) by simp_all
  have fetched: "(\<exists>l. fst (Retrieve q clk' short w) = Ret l \<and> coll l (req_LongURL req)) \<or>
    (\<exists>err. fst (Retrieve q clk' short w) = Err err \<and>
      (fst (Get (q_cache q) short (redis w, query_local w)) = Err err \<and> \<not> errors_Is err ErrCacheMiss \<or>
       fst (GetByShortID (q_db q) n (database w)) = Err err \<and> \<not> errors_Is err ErrRecordNotFound))"
    using turl_cluster.created_resolves [OF cluster ci turl_cluster.busy_number_inv [OF cluster inv] uniq node(1) m(1) post(2) reader(1)]
      code(2) early calm unfolding short by blast
  obtain t :: TinyURL where "short = Base58Encode (Short t)"
    using Create_rows [OF turl_cluster.node [OF cluster] _ m(1)] uniq unfolding short(1) by auto
  then have "short = Base58Encode n" using Base58_key code(2) by auto
  then have len: "\<not> (length short > 8 \<or> length short < 6)"
    using code(2,3) length_string58 [of "unat n" 5] by (auto simp: Base58Encode_eq Base58Decode_eq split: if_splits)
  obtain x v where x: "Retrieve q clk' short w = (x, v)" by (metis prod.exhaust)
  let ?h = "handler_Redirect errStr \<lparr>domain = host, svc = service_methods http_url clk' ctx' s'\<rparr> short"
  have "\<exists>r. ?h w = (Wrote r, v) \<and> (\<forall>l. x = Ret l \<longrightarrow> r = Redirected 302 l)"
    using len reader(2) x fetched by (cases x) (auto simp: handler_Redirect_def service_methods_def Let_def status_defs)
  then obtain r where r: "?h w = (Wrote r, v)" "\<And>l. x = Ret l \<Longrightarrow> r = Redirected 302 l" by blast
  obtain s3 where s3: "serve (limiter_Take NewLimiter rdb resc now') took' greq (route_path rg) frame_chain (on_node ?h) s2 = (Wrote r, s3)"
    using r(1) get reader(3) by (cases "world_of s2") (auto simp: on_node_def)
  show ?thesis unfolding chains(2) by (intro exI [of _ r] exI [of _ s3] conjI s3) (use fetched x r(2) in auto)
qed

section \<open>A cluster whose codes have six characters\<close>

text \<open>The cluster of \<open>Cluster\<close> with a sequence that starts at \<open>58 ^ 5\<close>, after the first lease of its node.\<close>

definition six_client :: client where
  "six_client = \<lparr>self = (self (node_client demo_node))\<lparr>tddl_max := 656356770, tddl_curr := 656356768\<rparr>, pc = Offering 656356768\<rparr>"

definition six_cluster :: demo_cluster where
  "six_cluster = empty_cluster\<lparr>shared_sequence := Some (656356770, 2), nodes := [demo_node\<lparr>node_client := six_client\<rparr>]\<rparr>"

lemma six_lease:
  "newSequence row_db ''a'' \<lparr>tddl_Step = 2, tddl_SeqName = ''tiny_url'', tddl_StartNum = 656356768\<rparr> None = (Ret joining_client, Some (656356768, 1))"
  "work row_db 0 (Suc (Suc (Suc (Suc (Suc 0))))) (joining_client, Some (656356768, 1)) = (six_client, Some (656356770, 2))"
  by (simp_all add: newSequence_def getRowID_def createRecord_def row_db_def row_cell_def zero_Sequence_def joining_client_def demo_node_def
      six_client_def internal_step_def row_struct_def renew_return_def exp_Forget_def NewItemExponentialFailureRateLimiter_def)

lemma six_reached: "demo_busy (table_links (shared_database empty_cluster), empty_cluster, []) ({}, six_cluster, [])"
proof -
  let ?n = "\<lparr>node_write = Map.empty, node_query = Map.empty, node_client = joining_client, node_stats = [], node_closed = False\<rparr>"
  let ?C = "empty_cluster\<lparr>shared_sequence := Some (656356768, 1), nodes := nodes empty_cluster @ [?n]\<rparr>"
  have "demo_run ({}, empty_cluster) ({}, ?C)"
  proof (rule r_into_rtranclp, rule cluster_step.join)
    show "newSequence row_db ''a'' \<lparr>tddl_Step = 2, tddl_SeqName = ''tiny_url'', tddl_StartNum = 656356768\<rparr> (shared_sequence empty_cluster) =
      (Ret joining_client, Some (656356768, 1))" using six_lease(1) by (simp add: empty_cluster_def)
  qed (simp_all add: joining_client_def demo_node_def)
  also have "demo_run ({}, ?C) ({}, six_cluster)"
    using work_run [of 0 ?C "\<lambda>t. t" "\<lambda>l k v. l k = Some v" row_db 0 1 cluster_command "\<lambda>_. demo_query" "\<lambda>_. demo_query" "{}"
      "Suc (Suc (Suc (Suc (Suc 0))))"] six_lease(2)
    by (simp add: six_cluster_def demo_node_def empty_cluster_def)
  finally show ?thesis unfolding empty_links using cluster_calls by fastforce
qed

abbreviation six_service :: "(TinyURL list, string \<rightharpoonup> bytes, string \<rightharpoonup> bytes, client \<times> (uint64 \<times> int) option) service" where
  "six_service \<equiv> \<lparr>commandPart = Some (cluster_command 0), queryPart = Some demo_query\<rparr>"

abbreviation six_handler :: "(TinyURL list, string \<rightharpoonup> bytes, string \<rightharpoonup> bytes, client \<times> (uint64 \<times> int) option) world Handler" where
  "six_handler \<equiv> \<lparr>domain = ''https://t.io'', svc = service_methods (\<lambda>_. None) (\<lambda>_. 500) (Ctx 1 Canceled) six_service\<rparr>"

lemma six_post:
  "\<exists>t w. handler_Create (\<lambda>_. '''') six_handler (\<lparr>req_LongURL = ''https://a'', req_TTLSeconds = 0\<rparr>, None) (node_world six_cluster 0) =
    (Wrote (JSON 200 \<lparr>resp_TinyURL = t, resp_Error = ''''\<rparr>), w) \<and> m_ShortURL t = ''https://t.io'' @ ''/'' @ ''211111'' \<and> m_ExpiresAt t = None"
proof -
  have code: "Base58Encode 656356768 = ''211111''" by (simp add: Base58Encode_eq string58_def digits58.simps chars_def)
  have zero: "int64 0 = 0" by (simp add: int64_def)
  have w: "node_world six_cluster 0 = \<lparr>database = [], redis = Map.empty, write_local = Map.empty, query_local = Map.empty,
      sequence = (six_client, Some (656356770, 2)), stats = [], janitor_closed = False\<rparr>"
    by (simp add: node_world_def six_cluster_def empty_cluster_def demo_node_def)
  have nx: "seq_Next (cmd_seq (cluster_command 0)) (Ctx 1 Canceled) (six_client, Some (656356770, 2)) =
      (Ret 656356768, deliver (self six_client), Some (656356770, 2))"
    by (simp add: cluster_command_def tddlSequence_iface_def six_client_def Next_loop.simps)
  show ?thesis
    unfolding w using nx zero code
    by (simp add: handler_Create_def service_methods_def Create_def on_seq_def)
      (simp add: cluster_command_def on_db_def storage_Insert_def list_db_def Let_def zero_TinyURL_def IncShortenCreated_def record_metric_def
        Create_finish_def code cacheTTL_def Second_def on_write_cache_def proxy_Set_def map_proxy_def on_dist_def on_local_def redisCache_Set_def
        localCache_Set_def map_redis_def map_big_def tdiv_def reply_def StatusOK_def)
qed

lemma demo_errors:
  "fst (Get (q_cache demo_query) k s) = Err e \<Longrightarrow> errors_Is e ErrCacheMiss"
  "fst (GetByShortID (q_db demo_query) i d) = Err e \<Longrightarrow> errors_Is e ErrRecordNotFound"
  by (auto simp: demo_query_def proxy_Get_def map_proxy_def on_local_def on_dist_def localCache_Get_def localCache_Set_def
      redisCache_Get_def map_redis_def map_big_def storage_GetByShortID_def list_db_def split: prod.splits option.splits if_splits)

theorem shorten_then_follow_witness:
  "\<exists>srv rp rg s1 r s3. NewServer [] (example_config\<lparr>Cache := Some example_cache_config\<rparr>) = Ret srv \<and>
    {rp, rg} \<subseteq> set (routes (srv_router srv)) \<and>
    serve (limiter_Take open_bucket dead_client counter_limiter 0) (\<lambda>_. 7) plain_request (route_path rp) (route_chain rp)
      (on_node (handler_Create (\<lambda>_. '''') six_handler (\<lparr>req_LongURL = ''https://a'', req_TTLSeconds = 0\<rparr>, None)))
      (plain_site (node_world six_cluster 0, \<lparr>read_bucket = 0 :: nat, write_tokens = token_init () 3\<rparr>)) = s1 \<and>
    serve (limiter_Take open_bucket dead_client counter_limiter 0) (\<lambda>_. 7) plain_request (route_path rg) (route_chain rg)
      (on_node (handler_Redirect (\<lambda>_. '''') six_handler ''211111'')) (snd s1) = (Wrote (Redirected 302 r), s3) \<and> r = ''https://a''"
proof -
  let ?c = "example_config\<lparr>Cache := Some example_cache_config\<rparr>" and ?req = "\<lparr>req_LongURL = ''https://a'', req_TTLSeconds = 0\<rparr>"
  let ?s0 = "plain_site (node_world six_cluster 0, \<lparr>read_bucket = 0 :: nat, write_tokens = token_init () 3\<rparr>)"
  let ?allow = "limiter_Take open_bucket dead_client counter_limiter 0"
  obtain srv where srv: "NewServer [] ?c = Ret srv" by (simp add: NewServer_def Let_def example_config_def example_cache_config_def)
  obtain rp where rp: "rp \<in> set (routes (srv_router srv))" "route_endpoint rp = CreateLink"
    using NewServer_create [OF srv] by (auto simp: example_config_def)
  obtain rg where rg: "rg \<in> set (routes (srv_router srv))" "route_endpoint rg = RedirectTo" using NewServer_redirect [OF srv] by blast
  have chain: "route_chain rp = frame_chain @ [read_limit ?c, write_limit ?c]" using NewServer_routes [OF srv rp(1)] rp(2) by auto
  obtain t w where t: "handler_Create (\<lambda>_. '''') six_handler (?req, None) (node_world six_cluster 0) =
      (Wrote (JSON 200 \<lparr>resp_TinyURL = t, resp_Error = ''''\<rparr>), w)" "m_ShortURL t = ''https://t.io'' @ ''/'' @ ''211111''" "m_ExpiresAt t = None"
    using six_post by blast
  obtain s1 where s1: "serve ?allow (\<lambda>_. 7) plain_request (route_path rp) (route_chain rp) (on_node (handler_Create (\<lambda>_. '''') six_handler (?req, None))) ?s0 =
      (Wrote (JSON 200 \<lparr>resp_TinyURL = t, resp_Error = ''''\<rparr>), s1)"
    unfolding chain using t(1)
    by (simp add: plain_site_def plain_request_def HealthCheckPath_def limiter_Take_def BucketRateLimiter_def open_bucket_def tok_iface_def tok_Take_def
        reserveN_def rescue_Take_def token_init_def allowN_Run_def dead_client_def counter_limiter_def on_node_def)
  have n: "Base58Decode ''211111'' = Ret 656356768"
    using Base58Decode_string58 [of 656356768] by (simp add: string58_def digits58.simps chars_def)
  have i: "0 < length (nodes six_cluster)" by (simp add: six_cluster_def)
  let ?w = "fst (world_of s1)"
  have node: "node_world (put_world 0 ?w six_cluster) 0 = ?w" "0 < length (nodes (put_world 0 ?w six_cluster))"
    using put_node(1) [OF i] i by (simp_all add: put_world_def)
  then have at: "serves (\<lambda>_. demo_query) (\<lambda>_. demo_query) (put_world 0 ?w six_cluster) demo_query ?w" unfolding serves_def by metis
  obtain r s3 where "serve ?allow (\<lambda>_. 7) plain_request (route_path rg) (route_chain rg) (on_node (handler_Redirect (\<lambda>_. '''') six_handler ''211111'')) s1 =
        (Wrote r, s3)"
      "(\<exists>url. r = Redirected 302 url \<and> url = req_LongURL ?req) \<or>
       (\<exists>err. fst (Get (q_cache demo_query) ''211111'' (redis ?w, query_local ?w)) = Err err \<and> \<not> errors_Is err ErrCacheMiss) \<or>
       (\<exists>err. fst (GetByShortID (q_db demo_query) 656356768 (database ?w)) = Err err \<and> \<not> errors_Is err ErrRecordNotFound)"
    by (rule exE [OF shorten_then_follow [OF srv rp rg demo_cluster.turl_cluster_axioms empty_fresh six_reached i _ _ s1 _ _ n _ at _ refl]])
      (use t(2,3) demo_calm in \<open>auto simp: plain_site_def same_expiry_def expiry_ok_def link_expiry_def int64_def isExpired_def cacheTTL_def demo_query_def
        Second_def plain_request_def HealthCheckPath_def\<close>)
  moreover from this(2) have "r = Redirected 302 ''https://a''" using demo_errors by auto
  ultimately show ?thesis
    using srv rp rg s1
    by (intro exI [of _ srv] exI [of _ rp] exI [of _ rg] exI [of _ "(Wrote (JSON 200 \<lparr>resp_TinyURL = t, resp_Error = ''''\<rparr>), s1)"]
        exI [of _ "''https://a''"] exI [of _ s3]) simp
qed

end
